(* ===== verification/Prelude.thy ===== *)
theory Prelude
  imports Main "HOL-Library.Word"
begin

text \<open>
  Shared ground of the development: the machine integer types, Go error values with the
  sentinels of every package and \<open>errors.Is\<close>, clock values, and the generic lemmas on
  lists, maps, sums and words that several components use.

  A fallible Go function \<open>(T, error)\<close> is a value of \<^typ>\<open>'e + 'a\<close> with the error on the
  left; a method that returns only an \<open>error\<close> returns \<^typ>\<open>'e option\<close> with
  \<^term>\<open>None\<close> for \<open>nil\<close>.  A Go \<open>int\<close> that only counts or indexes is an
  \<^typ>\<open>int\<close>; an integer whose width matters is a word.
\<close>

section \<open>Machine types\<close>

type_synonym byte = "8 word"
type_synonym u8 = "8 word"
type_synonym u32 = "32 word"
type_synonym u64 = "64 word"

text \<open>
  A \<open>time.Time\<close> is the number of nanoseconds since the zero time (1 January of year 1);
  \<open>t.IsZero()\<close> is \<open>t = 0\<close> and \<open>t.Before(u)\<close> is \<open>t < u\<close>.
\<close>

type_synonym gtime = int

section \<open>Errors\<close>

datatype session_sentinel =
    ErrWrongState | ErrBetExists | ErrNoBet | ErrSessionClosed
  | ErrUnknownRound | ErrRoundAlreadyRun | ErrInvalidMarbleIdx | ErrInvalidBetAmount

datatype wallet_sentinel = ErrInsufficientFunds | ErrUnknownPlayer | ErrDuplicateTxID

datatype round_sentinel =
  ErrWrongPhase | ErrRoundFull | ErrEmptyName | ErrTimeGoesBack | ErrResultMissing

datatype rtp_sentinel =
  ErrNoBuyIns | ErrWinnerIndex | ErrRTPOutOfRange | ErrPotOverflow | ErrPrizeOverflow

datatype replay_sentinel =
  ErrReplayRoundExists | ErrRoundMissing | ErrChecksumMismatch | ErrInvalidManifest

datatype stream_sentinel =
  ErrStreamRoundExists | ErrRoundNotFound | ErrHeaderRequired | ErrRoundClosed

datatype sim_sentinel = ErrGodotExit | ErrNoStatus | ErrStatusNotOK | ErrMissingField

text \<open>The sentinels of Go's own library that the code compares against.\<close>

datatype std_sentinel = EOF | ErrUnexpectedEOF | ErrNotExist

datatype sentinel =
    SessionErr session_sentinel | WalletErr wallet_sentinel | RoundErr round_sentinel
  | RtpErr rtp_sentinel | ReplayErr replay_sentinel | StreamErr stream_sentinel
  | SimErr sim_sentinel | StdErr std_sentinel

text \<open>
  An error is a sentinel (\<open>errors.New\<close> in a \<open>var\<close>), an unwrapped message, or
  \<open>fmt.Errorf("...: %w", err)\<close>.  The strings keep the constant part of the message.
\<close>

datatype gerr = Sentinel sentinel | Errorf string | Wrapf string gerr

fun errors_is :: "gerr \<Rightarrow> sentinel \<Rightarrow> bool" where
  "errors_is (Sentinel s) t = (s = t)"
| "errors_is (Errorf m) t = False"
| "errors_is (Wrapf m e) t = errors_is e t"

named_theorems err_simps "facts that decide which error a call returns"
named_theorems inv_intros "operations preserve their component's invariant"
named_theorems frame_simps "fields an operation leaves alone"

section \<open>Runs and invariants\<close>

text \<open>The states a labelled step relation reaches from an initial state.\<close>

inductive reach :: "('s \<Rightarrow> bool) \<Rightarrow> ('s \<Rightarrow> 'e \<Rightarrow> 's \<Rightarrow> bool) \<Rightarrow> 's \<Rightarrow> bool"
  for ini :: "'s \<Rightarrow> bool" and stp :: "'s \<Rightarrow> 'e \<Rightarrow> 's \<Rightarrow> bool"
where
  reach_init: "ini s \<Longrightarrow> reach ini stp s"
| reach_step: "reach ini stp s \<Longrightarrow> stp s e t \<Longrightarrow> reach ini stp t"

text \<open>
  The contract of every stateful component: an invariant that holds initially and that
  each step keeps.  A component proves the two laws once, by interpretation, and gets the
  facts about all its reachable states and runs.
\<close>

locale invariant_system =
  fixes ini :: "'s \<Rightarrow> bool"
    and stp :: "'s \<Rightarrow> 'e \<Rightarrow> 's \<Rightarrow> bool"
    and inv :: "'s \<Rightarrow> bool"
  assumes inv_init: "ini s \<Longrightarrow> inv s"
    and inv_step: "inv s \<Longrightarrow> stp s e t \<Longrightarrow> inv t"
begin

lemma reach_inv: "reach ini stp s \<Longrightarrow> inv s"
  by (induction rule: reach.induct) (auto intro: inv_init inv_step)

end

section \<open>Words\<close>

definition MaxUint64 :: u64 where
  "MaxUint64 = 18446744073709551615"

abbreviation two64 :: nat where
  "two64 \<equiv> 18446744073709551616"

lemma unat_MaxUint64 [simp]: "unat MaxUint64 = 18446744073709551615"
  by (simp add: MaxUint64_def)

lemma u64_le_max: "x \<le> MaxUint64"
  using unsigned_less [of x, where ?'a = nat] by (simp add: word_le_nat_alt)

lemma unat64_lt: "unat (x :: u64) < two64"
  using unsigned_less [of x, where ?'a = nat] by simp

text \<open>The overflow test \<open>total > math.MaxUint64 - b\<close> says exactly that the sum does not fit.\<close>

lemma u64_add_overflow_iff:
  fixes t b :: u64
  shows "MaxUint64 - b < t \<longleftrightarrow> two64 \<le> unat t + unat b"
proof -
  have "unat (MaxUint64 - b) = 18446744073709551615 - unat b"
    by (simp add: unat_sub u64_le_max)
  then show ?thesis
    using unat64_lt [of b] by (simp add: word_less_nat_alt) arith
qed

lemma u64_add_no_overflow:
  fixes t b :: u64
  assumes "unat t + unat b < two64"
  shows "unat (t + b) = unat t + unat b"
  using assms by (simp add: unat_word_ariths)

lemma u64_mult_no_overflow:
  fixes t b :: u64
  assumes "unat t * unat b < two64"
  shows "unat (t * b) = unat t * unat b"
  using assms by (simp add: unat_word_ariths)

text \<open>The guard \<open>total > math.MaxUint64 / b\<close> says exactly that the product does not fit.\<close>

lemma u64_mult_overflow_iff:
  fixes t b :: u64
  assumes "0 < unat b"
  shows "MaxUint64 div b < t \<longleftrightarrow> two64 \<le> unat t * unat b"
proof -
  have "MaxUint64 div b < t \<longleftrightarrow> 18446744073709551615 div unat b < unat t"
    by (simp add: word_less_nat_alt unat_div)
  also have "\<dots> \<longleftrightarrow> 18446744073709551615 < unat t * unat b"
    using assms by (rule div_less_iff_less_mult)
  finally show ?thesis by arith
qed

lemma u64_sub_le:
  fixes a b :: u64
  assumes "\<not> a < b"
  shows "unat (a - b) = unat a - unat b"
  using assms by (simp add: unat_sub not_less)

lemma bit_word_of_nat: "bit (of_nat n :: 'a::len word) i \<longleftrightarrow> i < LENGTH('a) \<and> bit n i"
  by transfer (simp add: bit_take_bit_iff bit_of_nat_iff)

section \<open>Lists and maps\<close>

lemma length_list_update_map: "length (map f xs) = length xs"
  by simp

lemma sum_list_replicate_nat: "sum_list (replicate n (k :: nat)) = n * k"
  by (induction n) auto

lemma map_upd_Some_iff: "(m(k \<mapsto> v)) j = Some w \<longleftrightarrow> (j = k \<and> v = w) \<or> (j \<noteq> k \<and> m j = Some w)"
  by auto

end
