(* ===== verification/Go_Bytes.thy ===== *)
theory Go_Bytes
  imports Prelude
begin

text \<open>
  The text and byte encodings of Go's library that the code uses: strings as bytes, lower
  case hexadecimal (\<open>encoding/hex\<close>), decimal \<open>strconv.FormatUint\<close> and
  \<open>strconv.ParseUint\<close>, and the fixed-width integers of
  \<open>encoding/binary\<close>, with their round trips.
\<close>

unbundle bit_operations_syntax

section \<open>Strings as bytes\<close>

definition bytes_of :: "string \<Rightarrow> byte list" where
  "bytes_of s = map of_char s"

lemma length_bytes_of [simp]: "length (bytes_of s) = length s"
  by (simp add: bytes_of_def)

lemma bytes_of_append [simp]: "bytes_of (s @ t) = bytes_of s @ bytes_of t"
  by (simp add: bytes_of_def)

section \<open>Hexadecimal\<close>

definition hex_digit :: "nat \<Rightarrow> char" where
  "hex_digit n = char_of (if n < 10 then 48 + n else 87 + n)"

fun hex_encode :: "byte list \<Rightarrow> string" where
  "hex_encode [] = []"
| "hex_encode (b # bs) = hex_digit (unat b div 16) # hex_digit (unat b mod 16) # hex_encode bs"

definition from_hex_char :: "char \<Rightarrow> nat option" where
  "from_hex_char c =
     (let n = of_char c :: nat in
      if 48 \<le> n \<and> n \<le> 57 then Some (n - 48)
      else if 97 \<le> n \<and> n \<le> 102 then Some (n - 87)
      else if 65 \<le> n \<and> n \<le> 70 then Some (n - 55)
      else None)"

fun hex_decode :: "string \<Rightarrow> gerr + byte list" where
  "hex_decode [] = Inr []"
| "hex_decode [c] =
     (case from_hex_char c of
        None \<Rightarrow> Inl (Errorf ''encoding/hex: invalid byte'')
      | Some _ \<Rightarrow> Inl (Errorf ''encoding/hex: odd length hex string''))"
| "hex_decode (c # d # cs) =
     (case (from_hex_char c, from_hex_char d) of
        (Some a, Some b) \<Rightarrow>
          (case hex_decode cs of Inl e \<Rightarrow> Inl e | Inr bs \<Rightarrow> Inr (of_nat (16 * a + b) # bs))
      | _ \<Rightarrow> Inl (Errorf ''encoding/hex: invalid byte''))"

lemma length_hex_encode [simp]: "length (hex_encode bs) = 2 * length bs"
  by (induction bs) auto

lemma of_char_hex_digit:
  assumes "n < 16"
  shows "of_char (hex_digit n) = (if n < 10 then 48 + n else 87 + n :: nat)"
  using assms by (simp add: hex_digit_def)

lemma from_hex_digit [simp]: "n < 16 \<Longrightarrow> from_hex_char (hex_digit n) = Some n"
  by (auto simp: from_hex_char_def of_char_hex_digit Let_def)

lemma byte_lt: "unat (b :: byte) < 256"
  using unsigned_less [of b, where ?'a = nat] by simp

lemma hex_decode_encode [simp]: "hex_decode (hex_encode bs) = Inr bs"
proof (induction bs)
  case Nil
  then show ?case by simp
next
  case (Cons b bs)
  have "unat b div 16 < 16"
    using byte_lt [of b] by (simp add: less_mult_imp_div_less)
  moreover have "of_nat (16 * (unat b div 16) + unat b mod 16) = b"
    by (simp del: of_nat_add of_nat_mult)
  ultimately show ?case
    using Cons.IH by (simp del: of_nat_add of_nat_mult)
qed

lemma hex_encode_inject [simp]: "hex_encode as = hex_encode bs \<longleftrightarrow> as = bs"
  by (metis hex_decode_encode sum.inject(2))

section \<open>Decimal\<close>

definition dec_digit :: "nat \<Rightarrow> char" where
  "dec_digit n = char_of (48 + n)"

fun format_nat :: "nat \<Rightarrow> string" where
  "format_nat n =
     (if n < 10 then [dec_digit n] else format_nat (n div 10) @ [dec_digit (n mod 10)])"

declare format_nat.simps [simp del]

definition format_uint :: "u64 \<Rightarrow> string" where
  "format_uint w = format_nat (unat w)"

definition is_digit :: "char \<Rightarrow> bool" where
  "is_digit c = (48 \<le> (of_char c :: nat) \<and> (of_char c :: nat) \<le> 57)"

definition digit_val :: "char \<Rightarrow> nat" where
  "digit_val c = of_char c - 48"

text \<open>\<open>strconv.ParseUint(s, 10, 64)\<close>: digits only, at least one, at most \<open>2^64 - 1\<close>.\<close>

fun parse_digits :: "nat \<Rightarrow> string \<Rightarrow> gerr + nat" where
  "parse_digits n [] = Inr n"
| "parse_digits n (c # cs) =
     (if \<not> is_digit c then Inl (Errorf ''invalid syntax'')
      else if two64 \<le> 10 * n + digit_val c then Inl (Errorf ''value out of range'')
      else parse_digits (10 * n + digit_val c) cs)"

definition parse_uint :: "string \<Rightarrow> gerr + u64" where
  "parse_uint s =
     (if s = [] then Inl (Errorf ''invalid syntax'') else map_sum id of_nat (parse_digits 0 s))"

lemma is_digit_dec_digit [simp]: "n < 10 \<Longrightarrow> is_digit (dec_digit n)"
  by (simp add: is_digit_def dec_digit_def)

lemma digit_val_dec_digit [simp]: "n < 10 \<Longrightarrow> digit_val (dec_digit n) = n"
  by (simp add: digit_val_def dec_digit_def)

lemma parse_digits_append:
  "parse_digits n (s @ t) = (case parse_digits n s of Inl e \<Rightarrow> Inl e | Inr m \<Rightarrow> parse_digits m t)"
  by (induction s arbitrary: n) auto

lemma format_nat_nonempty [simp]: "format_nat n \<noteq> []"
  by (subst format_nat.simps) simp

lemma format_nat_digits: "c \<in> set (format_nat n) \<Longrightarrow> is_digit c"
proof (induction n rule: format_nat.induct)
  case (1 n)
  show ?case
  proof (cases "n < 10")
    case True
    with 1 show ?thesis by (simp add: format_nat.simps [of n])
  next
    case False
    with "1.prems" have "c \<in> set (format_nat (n div 10)) \<or> c = dec_digit (n mod 10)"
      by (auto simp: format_nat.simps [of n])
    with False "1.IH" show ?thesis by auto
  qed
qed

lemma parse_format_nat: "n < two64 \<Longrightarrow> parse_digits 0 (format_nat n) = Inr n"
proof (induction n rule: format_nat.induct)
  case (1 n)
  show ?case
  proof (cases "n < 10")
    case True
    then show ?thesis by (simp add: format_nat.simps [of n])
  next
    case False
    have "n div 10 < two64" using "1.prems" by simp
    with False "1.IH" have "parse_digits 0 (format_nat (n div 10)) = Inr (n div 10)" by simp
    moreover have "10 * (n div 10) + n mod 10 = n" by simp
    ultimately show ?thesis
      using False "1.prems" by (simp add: format_nat.simps [of n] parse_digits_append)
  qed
qed

lemma parse_format_uint [simp]: "parse_uint (format_uint w) = Inr w"
  using unat64_lt [of w] by (simp add: parse_uint_def format_uint_def parse_format_nat)

lemma format_uint_inject [simp]: "format_uint v = format_uint w \<longleftrightarrow> v = w"
  by (metis parse_format_uint sum.inject(2))

section \<open>Fixed-width integers\<close>

definition be64 :: "u64 \<Rightarrow> byte list" where
  "be64 w = map (\<lambda>i. ucast (drop_bit i w)) [56, 48, 40, 32, 24, 16, 8, 0]"

lemma length_be64 [simp]: "length (be64 w) = 8"
  by (simp add: be64_def)

definition le32 :: "u32 \<Rightarrow> byte list" where
  "le32 w = [ucast w, ucast (drop_bit 8 w), ucast (drop_bit 16 w), ucast (drop_bit 24 w)]"

definition le32_of :: "byte \<Rightarrow> byte \<Rightarrow> byte \<Rightarrow> byte \<Rightarrow> u32" where
  "le32_of a b c d =
     ucast a OR push_bit 8 (ucast b) OR push_bit 16 (ucast c) OR push_bit 24 (ucast d)"

fun le64_of :: "byte list \<Rightarrow> u64" where
  "le64_of [] = 0"
| "le64_of (b # bs) = ucast b OR push_bit 8 (le64_of bs)"

lemma length_le32 [simp]: "length (le32 w) = 4"
  by (simp add: le32_def)

lemma le32_of_le32 [simp]:
  "le32_of (ucast w) (ucast (drop_bit 8 w)) (ucast (drop_bit 16 w)) (ucast (drop_bit 24 w)) = w"
proof (rule bit_word_eqI)
  fix n :: nat
  assume "n < LENGTH(32)"
  then have n: "n < 32" by simp
  show "bit (le32_of (ucast w) (ucast (drop_bit 8 w)) (ucast (drop_bit 16 w))
      (ucast (drop_bit 24 w))) n = bit w n"
    using n by (cases "24 \<le> n"; cases "16 \<le> n"; cases "8 \<le> n") (auto simp: le32_of_def bit_simps)
qed

lemma le32_le32_of [simp]: "le32 (le32_of a b c d) = [a, b, c, d]"
proof -
  have "ucast (drop_bit k (le32_of a b c d)) = x"
    if "(k, x) \<in> {(0, a), (8, b), (16, c), (24, d)}" for k x
  proof (rule bit_word_eqI)
    fix i :: nat
    assume "i < LENGTH(8)"
    with that show "bit (ucast (drop_bit k (le32_of a b c d)) :: byte) i = bit x i"
      by (auto simp: le32_of_def bit_simps dest: bit_imp_le_length)
  qed
  from this [of 0 a] this [of 8 b] this [of 16 c] this [of 24 d] show ?thesis
    by (simp add: le32_def)
qed

end
