(* ===== verification/Http.thy ===== *)
theory Http
  imports Go_Bytes
begin

text \<open>
  The part of \<open>net/http\<close>, \<open>strings\<close> and \<open>strconv\<close> that the daemons use.  A handler is a
  function of the request and of the state it works on; it returns the calls it makes on the
  \<open>ResponseWriter\<close>, in order, the panic it ends in, if any, and the new state.  A
  response body is a list of chunks: literal text or a document that \<open>encoding/json\<close> encodes.
\<close>

section \<open>Requests and handlers\<close>

text \<open>\<open>Header.Get\<close> and \<open>Query().Get\<close> return the empty string for an absent key.\<close>

record http_request =
  rq_method :: string
  rq_path :: string
  rq_header :: "string \<Rightarrow> string"
  rq_query :: "string \<Rightarrow> string"
  rq_body :: "gerr + byte list"
  rq_ctx_id :: string

datatype 'd chunk = Text string | Doc 'd

text \<open>\<open>w.Header().Set\<close>, \<open>w.WriteHeader\<close> and \<open>w.Write\<close>.\<close>

datatype 'd wop = SetHeader string string | WriteStatus int | Write "'d chunk"

type_synonym ('s, 'd) handler = "http_request \<Rightarrow> 's \<Rightarrow> 'd wop list \<times> string option \<times> 's"

text \<open>
  What the client receives: the first status wins, a write without one sends 200, and headers
  set after the status are not sent.  Status 0 means that nothing has been sent yet.
\<close>

record 'd response =
  rs_status :: int
  rs_header :: "string \<Rightarrow> string option"
  rs_body :: "'d chunk list"

fun write_op :: "'d wop \<Rightarrow> 'd response \<Rightarrow> 'd response" where
  "write_op (SetHeader k v) r = (if rs_status r = 0 then r\<lparr>rs_header := (rs_header r)(k \<mapsto> v)\<rparr> else r)"
| "write_op (WriteStatus code) r = (if rs_status r = 0 then r\<lparr>rs_status := code\<rparr> else r)"
| "write_op (Write c) r =
     r\<lparr>rs_status := (if rs_status r = 0 then 200 else rs_status r), rs_body := rs_body r @ [c]\<rparr>"

definition no_response :: "'d response" where
  "no_response = \<lparr>rs_status = 0, rs_header = Map.empty, rs_body = []\<rparr>"

definition respond :: "'d wop list \<Rightarrow> 'd response" where
  "respond ops = fold write_op ops no_response"

text \<open>When the handler returns, the server sends 200 if nothing was sent.\<close>

definition client_status :: "'d wop list \<Rightarrow> int" where
  "client_status ops = (if rs_status (respond ops) = 0 then 200 else rs_status (respond ops))"

text \<open>The status alone.\<close>

fun sent_status :: "'d wop list \<Rightarrow> int \<Rightarrow> int" where
  "sent_status [] st = st"
| "sent_status (SetHeader k v # ops) st = sent_status ops st"
| "sent_status (WriteStatus code # ops) st = sent_status ops (if st = 0 then code else st)"
| "sent_status (Write c # ops) st = sent_status ops (if st = 0 then 200 else st)"

lemma fold_write_status: "rs_status (fold write_op ops r) = sent_status ops (rs_status r)"
  by (induction ops "rs_status r" arbitrary: r rule: sent_status.induct) auto

lemma respond_status: "rs_status (respond ops) = sent_status ops 0"
  by (simp add: respond_def fold_write_status no_response_def)

lemma sent_status_nonzero [simp]: "st \<noteq> 0 \<Longrightarrow> sent_status ops st = st"
  by (induction ops st rule: sent_status.induct) auto

lemma sent_status_append [simp]: "sent_status (xs @ ys) st = sent_status ys (sent_status xs st)"
  by (induction xs st rule: sent_status.induct) auto

lemma client_status_simps [simp]:
  "code \<noteq> 0 \<Longrightarrow> client_status (WriteStatus code # ops) = code"
  "client_status (SetHeader k v # ops) = client_status ops"
  by (simp_all add: client_status_def respond_status)

text \<open>\<open>writeJSON\<close> of the packages: content type, status, document.\<close>

definition writeJSON :: "int \<Rightarrow> 'd \<Rightarrow> 'd wop list" where
  "writeJSON code body = [SetHeader ''Content-Type'' ''application/json'', WriteStatus code, Write (Doc body)]"

lemma client_status_writeJSON [simp]: "code \<noteq> 0 \<Longrightarrow> client_status (writeJSON code body) = code"
  by (simp add: writeJSON_def)

section \<open>Strings\<close>

text \<open>\<open>strings.TrimSpace\<close>: the UTF-8 encodings of the white space characters of Unicode.\<close>

definition white_space :: "string list" where
  "white_space = map (map char_of) [[9 :: nat], [10], [11], [12], [13], [32], [194, 133], [194, 160],
     [225, 154, 128], [226, 128, 128], [226, 128, 129], [226, 128, 130], [226, 128, 131], [226, 128, 132],
     [226, 128, 133], [226, 128, 134], [226, 128, 135], [226, 128, 136], [226, 128, 137], [226, 128, 138],
     [226, 128, 168], [226, 128, 169], [226, 128, 175], [226, 129, 159], [227, 128, 128]]"

text \<open>\<open>strings.Split\<close> at one character, and \<open>strings.EqualFold\<close> on ASCII.\<close>

fun split_at_char :: "char \<Rightarrow> string \<Rightarrow> string list" where
  "split_at_char sep [] = [[]]"
| "split_at_char sep (c # cs) =
     (if c = sep then [] # split_at_char sep cs
      else (case split_at_char sep cs of [] \<Rightarrow> [[c]] | s # ss \<Rightarrow> (c # s) # ss))"

definition ascii_lower :: "char \<Rightarrow> char" where
  "ascii_lower c = (let n = of_char c :: nat in if 65 \<le> n \<and> n \<le> 90 then char_of (n + 32) else c)"

definition equal_fold :: "string \<Rightarrow> string \<Rightarrow> bool" where
  "equal_fold s t = (map ascii_lower s = map ascii_lower t)"

definition has_prefix :: "string \<Rightarrow> string \<Rightarrow> bool" where
  "has_prefix s p = (take (length p) s = p)"

function trim_with :: "string list \<Rightarrow> string \<Rightarrow> string" where
  "trim_with ws s =
     (case List.find (\<lambda>p. p \<noteq> [] \<and> has_prefix s p) ws of
        None \<Rightarrow> s
      | Some p \<Rightarrow> trim_with ws (drop (length p) s))"
  by pat_completeness auto
termination
proof (relation "measure (\<lambda>(ws, s). length s)", goal_cases)
  case (2 ws s p)
  then have "p \<noteq> []" "take (length p) s = p" by (auto simp: find_Some_iff has_prefix_def)
  then have "0 < length p" "s \<noteq> []" by auto
  then show ?case by simp
qed simp

declare trim_with.simps [simp del]

definition TrimSpace :: "string \<Rightarrow> string" where
  "TrimSpace s = rev (trim_with (map rev white_space) (rev (trim_with white_space s)))"

text \<open>A string whose ends are no white space is left alone.\<close>

lemma trim_with_id:
  assumes "\<forall>p \<in> set ws. \<forall>c cs. p = c # cs \<longrightarrow> (\<forall>d ds. s = d # ds \<longrightarrow> c \<noteq> d)"
  shows "trim_with ws s = s"
proof -
  have "List.find (\<lambda>p. p \<noteq> [] \<and> has_prefix s p) ws = None"
  proof (rule ccontr)
    assume "List.find (\<lambda>p. p \<noteq> [] \<and> has_prefix s p) ws \<noteq> None"
    then obtain p where p: "p \<in> set ws" "p \<noteq> []" "has_prefix s p" by (auto simp: find_None_iff)
    from p(2) obtain c cs where "p = c # cs" by (meson neq_Nil_conv)
    with p assms show False by (cases s) (auto simp: has_prefix_def)
  qed
  then show ?thesis by (simp add: trim_with.simps)
qed

text \<open>Visible ASCII characters are no white space.\<close>

definition visible :: "char \<Rightarrow> bool" where
  "visible c = (32 < (of_char c :: nat) \<and> (of_char c :: nat) < 128)"

lemma TrimSpace_visible:
  assumes "\<forall>c \<in> set s. visible c"
  shows "TrimSpace s = s"
proof -
  have ws: "\<forall>p \<in> set white_space. \<forall>c \<in> set p. \<not> visible c"
    by (simp add: white_space_def visible_def)
  have "trim_with white_space s = s"
    using ws assms by (intro trim_with_id) fastforce
  moreover have "trim_with (map rev white_space) (rev s) = rev s"
  proof (intro trim_with_id ballI allI impI)
    fix p c cs d ds
    assume p: "p \<in> set (map rev white_space)" "p = c # cs" and d: "rev s = d # ds"
    obtain q where q: "q \<in> set white_space" "p = rev q" using p(1) by auto
    then have "c \<in> set q" using p(2) by (metis list.set_intros(1) set_rev)
    then have "\<not> visible c" using q(1) ws by blast
    moreover have "visible d" using d assms by (metis list.set_intros(1) set_rev)
    ultimately show "c \<noteq> d" by blast
  qed
  ultimately show ?thesis by (simp add: TrimSpace_def)
qed

lemma TrimSpace_digits: "\<forall>c \<in> set s. is_digit c \<Longrightarrow> TrimSpace s = s"
  by (rule TrimSpace_visible) (auto simp: visible_def is_digit_def)

text \<open>\<open>strconv.ParseInt(s, 10, 64)\<close>.\<close>

definition parse_int64 :: "string \<Rightarrow> gerr + int" where
  "parse_int64 s =
     (if s = [] then Inl (Errorf ''invalid syntax'')
      else (let neg = (hd s = CHR ''-''); t = (if hd s = CHR ''-'' \<or> hd s = CHR ''+'' then tl s else s) in
        case parse_uint t of
          Inl e \<Rightarrow> Inl e
        | Inr u \<Rightarrow>
            if \<not> neg \<and> 9223372036854775808 \<le> unat u then Inl (Errorf ''value out of range'')
            else if neg \<and> 9223372036854775808 < unat u then Inl (Errorf ''value out of range'')
            else Inr (if neg then - int (unat u) else int (unat u))))"

text \<open>\<open>strings.Contains\<close>.\<close>

definition contains_str :: "string \<Rightarrow> string \<Rightarrow> bool" where
  "contains_str s t = list_ex (\<lambda>i. has_prefix (drop i s) t) [0..<Suc (length s)]"

section \<open>Paths\<close>

text \<open>\<open>filepath.Clean\<close> on slash-separated paths, \<open>filepath.Join\<close> and \<open>filepath.Ext\<close>.\<close>

fun clean_segs :: "bool \<Rightarrow> string list \<Rightarrow> string list \<Rightarrow> string list" where
  "clean_segs rooted stack [] = rev stack"
| "clean_segs rooted stack (s # ss) =
     (if s = [] \<or> s = ''.'' then clean_segs rooted stack ss
      else if s = ''..'' then
        (if stack \<noteq> [] \<and> hd stack \<noteq> ''..'' then clean_segs rooted (tl stack) ss
         else if rooted then clean_segs rooted stack ss
         else clean_segs rooted (s # stack) ss)
      else clean_segs rooted (s # stack) ss)"

fun join_slash :: "string list \<Rightarrow> string" where
  "join_slash [] = []"
| "join_slash [s] = s"
| "join_slash (s # ss) = s @ CHR ''/'' # join_slash ss"

definition is_rooted :: "string \<Rightarrow> bool" where
  "is_rooted p = (p \<noteq> [] \<and> hd p = CHR ''/'')"

definition path_segs :: "string \<Rightarrow> string list" where
  "path_segs p = clean_segs (is_rooted p) [] (split_at_char CHR ''/'' p)"

definition slashed :: "bool \<Rightarrow> string list \<Rightarrow> string" where
  "slashed rooted segs =
     (if rooted then CHR ''/'' # join_slash segs else if segs = [] then ''.'' else join_slash segs)"

definition Clean :: "string \<Rightarrow> string" where
  "Clean p = slashed (is_rooted p) (path_segs p)"

definition Join2 :: "string \<Rightarrow> string \<Rightarrow> string" where
  "Join2 a b =
     (if a = [] then (if b = [] then [] else Clean b)
      else if b = [] then Clean a else Clean (a @ CHR ''/'' # b))"

definition Ext :: "string \<Rightarrow> string" where
  "Ext p =
     (let base = rev (takeWhile (\<lambda>c. c \<noteq> CHR ''/'') (rev p)) in
      if CHR ''.'' \<in> set base then CHR ''.'' # rev (takeWhile (\<lambda>c. c \<noteq> CHR ''.'') (rev base)) else [])"

text \<open>
  The path a \<open>ServeMux\<close> redirects to before it looks for a pattern, when it is another one.
\<close>

definition mux_clean :: "string \<Rightarrow> string" where
  "mux_clean p =
     (if p = [] then ''/''
      else (let p' = (if hd p = CHR ''/'' then p else CHR ''/'' # p); np = Clean p' in
        if last p' = CHR ''/'' \<and> np \<noteq> ''/'' then np @ ''/'' else np))"

definition mux_redirects :: "http_request \<Rightarrow> bool" where
  "mux_redirects r = (rq_method r \<noteq> ''CONNECT'' \<and> mux_clean (rq_path r) \<noteq> rq_path r)"

text \<open>\<open>http.Error\<close>.\<close>

definition http_Error :: "string \<Rightarrow> int \<Rightarrow> 'd wop list" where
  "http_Error msg code =
     [SetHeader ''Content-Type'' ''text/plain; charset=utf-8'', SetHeader ''X-Content-Type-Options'' ''nosniff'',
      WriteStatus code, Write (Text (msg @ [CHR 0x0A]))]"

end
