(* ===== verification/Session.thy ===== *)
theory Session
  imports Prelude
begin

text \<open>
  The betting session of package \<open>rgs\<close> (server/rgs/session.go): the state of one
  \<open>*Session\<close>, its four transitions with their guards in the code's order, the step
  relation they generate, and the invariant that ties the bet slot to the state.
  The mutex makes each method one atomic step.  \<open>time.Now()\<close> is an argument.
\<close>

section \<open>Data\<close>

datatype session_state =
  SessionOpen | SessionBet | SessionRacing | SessionSettled | SessionClosed

fun state_string :: "session_state \<Rightarrow> string" where
  "state_string SessionOpen = ''OPEN''"
| "state_string SessionBet = ''BET''"
| "state_string SessionRacing = ''RACING''"
| "state_string SessionSettled = ''SETTLED''"
| "state_string SessionClosed = ''CLOSED''"

record bet =
  bet_BetID :: string
  bet_Amount :: u64
  bet_PlayerID :: string
  bet_PlacedAt :: gtime
  bet_MarbleIndex :: int

record settlement_outcome =
  so_BetID :: string
  so_PlayerID :: string
  so_Amount :: u64
  so_Won :: bool
  so_PrizeAmount :: u64
  so_WinnerIndex :: int
  so_CreditTxID :: string
  so_SettledAt :: gtime

record session =
  ses_ID :: string
  ses_PlayerID :: string
  ses_State :: session_state
  ses_OpenedAt :: gtime
  ses_UpdatedAt :: gtime
  ses_Bet :: "bet option"
  ses_LastResult :: "settlement_outcome option"

text \<open>The session \<open>Manager.OpenSession\<close> allocates.\<close>

definition new_session :: "string \<Rightarrow> string \<Rightarrow> gtime \<Rightarrow> session" where
  "new_session sid playerID now =
     \<lparr>ses_ID = sid, ses_PlayerID = playerID, ses_State = SessionOpen, ses_OpenedAt = now,
      ses_UpdatedAt = now, ses_Bet = None, ses_LastResult = None\<rparr>"

section \<open>Transitions\<close>

definition session_place_bet :: "gtime \<Rightarrow> bet \<Rightarrow> session \<Rightarrow> gerr option \<times> session" where
  "session_place_bet now b s =
     (if ses_State s = SessionClosed then (Some (Sentinel (SessionErr ErrSessionClosed)), s)
      else if ses_State s \<noteq> SessionOpen \<and> ses_State s \<noteq> SessionSettled
        then (Some (Wrapf ''PlaceBet requires OPEN or SETTLED'' (Sentinel (SessionErr ErrWrongState))), s)
      else if ses_Bet s \<noteq> None then (Some (Sentinel (SessionErr ErrBetExists)), s)
      else (None, s\<lparr>ses_Bet := Some (b\<lparr>bet_MarbleIndex := - 1\<rparr>),
                    ses_State := SessionBet, ses_UpdatedAt := now\<rparr>))"

definition session_assign_marble :: "gtime \<Rightarrow> int \<Rightarrow> session \<Rightarrow> gerr option \<times> session" where
  "session_assign_marble now index s =
     (if ses_State s \<noteq> SessionBet
        then (Some (Wrapf ''AssignMarble requires BET'' (Sentinel (SessionErr ErrWrongState))), s)
      else (case ses_Bet s of
          None \<Rightarrow> (Some (Sentinel (SessionErr ErrNoBet)), s)
        | Some b \<Rightarrow> (None, s\<lparr>ses_Bet := Some (b\<lparr>bet_MarbleIndex := index\<rparr>),
                             ses_State := SessionRacing, ses_UpdatedAt := now\<rparr>)))"

definition session_settle :: "gtime \<Rightarrow> settlement_outcome \<Rightarrow> session \<Rightarrow> gerr option \<times> session" where
  "session_settle now outcome s =
     (if ses_State s \<noteq> SessionRacing
        then (Some (Wrapf ''Settle requires RACING'' (Sentinel (SessionErr ErrWrongState))), s)
      else (None, s\<lparr>ses_LastResult := Some outcome, ses_Bet := None,
                    ses_State := SessionSettled, ses_UpdatedAt := now\<rparr>))"

definition session_close :: "gtime \<Rightarrow> session \<Rightarrow> gerr option \<times> session" where
  "session_close now s =
     (if ses_State s = SessionBet \<or> ses_State s = SessionRacing
        then (Some (Wrapf ''cannot close while bet is'' (Sentinel (SessionErr ErrWrongState))), s)
      else (None, s\<lparr>ses_State := SessionClosed, ses_UpdatedAt := now\<rparr>))"

definition session_snapshot ::
  "session \<Rightarrow> session_state \<times> bet option \<times> settlement_outcome option" where
  "session_snapshot s = (ses_State s, ses_Bet s, ses_LastResult s)"

lemmas session_ops = session_place_bet_def session_assign_marble_def session_settle_def
  session_close_def

section \<open>The state machine\<close>

datatype session_event =
  EvPlaceBet gtime bet | EvAssignMarble gtime int | EvSettle gtime settlement_outcome | EvClose gtime

fun session_apply :: "session_event \<Rightarrow> session \<Rightarrow> gerr option \<times> session" where
  "session_apply (EvPlaceBet now b) s = session_place_bet now b s"
| "session_apply (EvAssignMarble now i) s = session_assign_marble now i s"
| "session_apply (EvSettle now out) s = session_settle now out s"
| "session_apply (EvClose now) s = session_close now s"

text \<open>
  The rules of the type's comment: which method takes which state where.  A bet can be placed only
  from OPEN or SETTLED; closing is allowed from any state but BET and RACING, so also again.
\<close>

inductive session_edge :: "session_event \<Rightarrow> session_state \<Rightarrow> session_state \<Rightarrow> bool" where
  open_bet: "session_edge (EvPlaceBet now b) SessionOpen SessionBet"
| settled_bet: "session_edge (EvPlaceBet now b) SessionSettled SessionBet"
| bet_racing: "session_edge (EvAssignMarble now i) SessionBet SessionRacing"
| racing_settled: "session_edge (EvSettle now out) SessionRacing SessionSettled"
| closing: "st \<noteq> SessionBet \<Longrightarrow> st \<noteq> SessionRacing \<Longrightarrow> session_edge (EvClose now) st SessionClosed"

inductive_simps session_edge_simps [simp]:
  "session_edge (EvPlaceBet now b) st t" "session_edge (EvAssignMarble now i) st t"
  "session_edge (EvSettle now out) st t" "session_edge (EvClose now) st t"

definition session_step :: "session \<Rightarrow> session_event \<Rightarrow> session \<Rightarrow> bool" where
  "session_step s e t \<longleftrightarrow> session_apply e s = (None, t)"

definition fresh_session :: "session \<Rightarrow> bool" where
  "fresh_session s \<longleftrightarrow> (\<exists>sid p now. s = new_session sid p now)"

text \<open>The bet slot is filled exactly in the states BET and RACING.\<close>

definition session_inv :: "session \<Rightarrow> bool" where
  "session_inv s \<longleftrightarrow>
     (ses_Bet s \<noteq> None \<longleftrightarrow> ses_State s \<in> {SessionBet, SessionRacing}) \<and>
     (ses_State s = SessionSettled \<longrightarrow> ses_LastResult s \<noteq> None)"

lemma session_apply_error: "session_apply e s = (Some err, t) \<Longrightarrow> t = s"
  by (cases e) (auto simp: session_ops split: if_splits option.splits)

lemma session_apply_frame [frame_simps]:
  "session_apply e s = (r, t) \<Longrightarrow>
   ses_ID t = ses_ID s \<and> ses_PlayerID t = ses_PlayerID s \<and> ses_OpenedAt t = ses_OpenedAt s"
  by (cases e) (auto simp: session_ops split: if_splits option.splits)

lemma session_apply_inv [inv_intros]:
  "session_inv s \<Longrightarrow> session_apply e s = (r, t) \<Longrightarrow> session_inv t"
  by (cases e) (auto simp: session_ops session_inv_def split: if_splits option.splits)

lemma new_session_inv [simp]: "session_inv (new_session sid p now)"
  by (simp add: session_inv_def new_session_def)

interpretation ses: invariant_system fresh_session session_step session_inv
  by unfold_locales (auto simp: fresh_session_def session_step_def intro: session_apply_inv)

section \<open>Exactly when each transition is refused, and with which error\<close>

lemma place_bet_accepted_iff:
  "session_inv s \<Longrightarrow>
   fst (session_place_bet now b s) = None \<longleftrightarrow> ses_State s \<in> {SessionOpen, SessionSettled}"
  by (auto simp: session_place_bet_def session_inv_def)

lemma assign_accepted_iff:
  "session_inv s \<Longrightarrow> fst (session_assign_marble now i s) = None \<longleftrightarrow> ses_State s = SessionBet"
  by (auto simp: session_assign_marble_def session_inv_def split: option.splits)

lemma settle_accepted_iff:
  "fst (session_settle now out s) = None \<longleftrightarrow> ses_State s = SessionRacing"
  by (auto simp: session_settle_def)

lemma close_accepted_iff:
  "session_inv s \<Longrightarrow> fst (session_close now s) = None \<longleftrightarrow> ses_Bet s = None"
  by (auto simp: session_close_def session_inv_def)

text \<open>
  In every session a client can reach, the bet slot is filled exactly while the state is
  BET or RACING, a settled session carries its result, and the session can be closed exactly
  when no bet is outstanding.
\<close>

theorem session_reach_inv:
  assumes "reach fresh_session session_step s"
  shows "(ses_Bet s \<noteq> None \<longleftrightarrow> ses_State s \<in> {SessionBet, SessionRacing}) \<and>
    (ses_State s = SessionSettled \<longrightarrow> ses_LastResult s \<noteq> None) \<and>
    (fst (session_close now s) = None \<longleftrightarrow> ses_Bet s = None)"
  using ses.reach_inv [OF assms] close_accepted_iff [of s now] by (auto simp: session_inv_def)

text \<open>A session that has gone through one bet and its settlement.\<close>

definition demo_bet :: bet where
  "demo_bet = \<lparr>bet_BetID = ''bet_1'', bet_Amount = 100, bet_PlayerID = ''alice'',
     bet_PlacedAt = 10, bet_MarbleIndex = 0\<rparr>"

lemma demo_session_reachable:
  "reach fresh_session session_step
     (snd (session_place_bet 10 demo_bet (new_session ''sess_1'' ''alice'' 5)))"
  by (rule reach_step [OF reach_init, where e = "EvPlaceBet 10 demo_bet"
        and s = "new_session ''sess_1'' ''alice'' 5"])
    (auto simp: fresh_session_def session_step_def session_place_bet_def new_session_def)

theorem session_reach_inv_witness:
  "fst (session_close 20 (snd (session_place_bet 10 demo_bet (new_session ''sess_1'' ''alice'' 5))))
     \<noteq> None"
  using session_reach_inv [OF demo_session_reachable, of 20]
  by (simp add: session_place_bet_def new_session_def)

text \<open>What a method does to the bet slot and to the last result.\<close>

fun session_data :: "session_event \<Rightarrow> session \<Rightarrow> bet option \<times> settlement_outcome option" where
  "session_data (EvPlaceBet now b) s = (Some (b\<lparr>bet_MarbleIndex := - 1\<rparr>), ses_LastResult s)"
| "session_data (EvAssignMarble now i) s = (map_option (\<lambda>b. b\<lparr>bet_MarbleIndex := i\<rparr>) (ses_Bet s), ses_LastResult s)"
| "session_data (EvSettle now out) s = (None, Some out)"
| "session_data (EvClose now) s = (ses_Bet s, ses_LastResult s)"

text \<open>
  C31: in every session that can be reached, a method succeeds exactly where the diagram has an edge
  of that method from the session's state: \<open>PlaceBet\<close> from OPEN and SETTLED to BET, \<open>AssignMarble\<close>
  from BET to RACING, \<open>Settle\<close> from RACING to SETTLED, \<open>Close\<close> from OPEN, SETTLED and CLOSED to CLOSED.
  It then takes that edge, with the bet placed, marked, cleared and the result stored as the method
  says, and never changes who the session belongs to; a refusal leaves the session as it was.
\<close>

theorem session_transitions:
  assumes "reach fresh_session session_step s"
  shows "case session_apply e s of
     (Some err, t) \<Rightarrow> t = s \<and> (\<nexists>st. session_edge e (ses_State s) st)
   | (None, t) \<Rightarrow> session_edge e (ses_State s) (ses_State t) \<and> (ses_Bet t, ses_LastResult t) = session_data e s \<and>
       ses_ID t = ses_ID s \<and> ses_PlayerID t = ses_PlayerID s \<and> ses_OpenedAt t = ses_OpenedAt s"
proof (cases "session_apply e s")
  case (Pair r t)
  have "session_inv s" using ses.reach_inv [OF assms] .
  with Pair show ?thesis
    using session_apply_error [of e s _ t] session_apply_frame [of e s r t]
    by (cases e) (auto simp: session_ops session_inv_def split: if_splits option.splits)
qed

theorem session_transitions_witness:
  "fst (session_apply (EvClose 20) (snd (session_place_bet 10 demo_bet (new_session ''sess_1'' ''alice'' 5)))) \<noteq> None \<and>
   ses_State (snd (session_apply (EvAssignMarble 20 3) (snd (session_place_bet 10 demo_bet (new_session ''sess_1'' ''alice'' 5))))) =
     SessionRacing"
  using session_transitions [OF demo_session_reachable, of "EvClose 20"]
    session_transitions [OF demo_session_reachable, of "EvAssignMarble 20 3"]
  by (auto simp: session_place_bet_def new_session_def session_assign_marble_def split: prod.splits option.splits)

end
