(* ===== verification/Wallet.thy ===== *)
theory Wallet
  imports Prelude
begin

text \<open>
  The wallet of package \<open>rgs\<close> (server/rgs/wallet.go).  \<open>Wallet\<close> is a Go interface
  that the operator implements, so it is a record of three operations over a wallet state
  \<^typ>\<open>'w\<close>; the manager is written against the record, and its lemmas use the contract
  the interface's comments promise, the locale \<open>wallet_contract\<close>.  \<open>MockWallet\<close> is the
  implementation in the repository and interprets the contract.
\<close>

section \<open>The interface\<close>

record 'w wallet =
  w_Debit :: "string \<Rightarrow> u64 \<Rightarrow> string \<Rightarrow> 'w \<Rightarrow> gerr option \<times> 'w"
  w_Credit :: "string \<Rightarrow> u64 \<Rightarrow> string \<Rightarrow> 'w \<Rightarrow> gerr option \<times> 'w"
  w_Balance :: "string \<Rightarrow> 'w \<Rightarrow> gerr + u64"

text \<open>
  The promises: \<open>bal\<close> reads the balances, \<open>posted\<close> the transaction ids already used.  A
  debit with a fresh id takes exactly the amount or, if the balance is short, reports
  \<open>ErrInsufficientFunds\<close> and takes nothing; a credit with a fresh id adds exactly the
  amount as long as the balance stays representable; an unknown player is reported as such;
  a repeated id never moves money again.  What else an implementation keeps is its own.
\<close>

locale wallet_contract =
  fixes W :: "'w wallet"
    and bal :: "'w \<Rightarrow> string \<Rightarrow> nat option"
    and posted :: "'w \<Rightarrow> string set"
  assumes debit_ok: "bal w p = Some b \<Longrightarrow> tx \<notin> posted w \<Longrightarrow> unat a \<le> b \<Longrightarrow>
      \<exists>w'. w_Debit W p a tx w = (None, w') \<and> bal w' = (bal w)(p \<mapsto> b - unat a) \<and>
           posted w' = insert tx (posted w)"
    and debit_short: "bal w p = Some b \<Longrightarrow> tx \<notin> posted w \<Longrightarrow> b < unat a \<Longrightarrow>
      \<exists>e w'. w_Debit W p a tx w = (Some e, w') \<and> errors_is e (WalletErr ErrInsufficientFunds) \<and>
           bal w' = bal w \<and> posted w' = posted w"
    and debit_unknown: "bal w p = None \<Longrightarrow>
      \<exists>e w'. w_Debit W p a tx w = (Some e, w') \<and> errors_is e (WalletErr ErrUnknownPlayer) \<and>
           bal w' = bal w \<and> posted w' = posted w"
    and debit_replay: "tx \<in> posted w \<Longrightarrow>
      bal (snd (w_Debit W p a tx w)) = bal w \<and> posted (snd (w_Debit W p a tx w)) = posted w"
    and credit_ok: "bal w p = Some b \<Longrightarrow> tx \<notin> posted w \<Longrightarrow> b + unat a < two64 \<Longrightarrow>
      \<exists>w'. w_Credit W p a tx w = (None, w') \<and> bal w' = (bal w)(p \<mapsto> b + unat a) \<and>
           posted w' = insert tx (posted w)"
    and credit_unknown: "bal w p = None \<Longrightarrow>
      \<exists>e w'. w_Credit W p a tx w = (Some e, w') \<and> errors_is e (WalletErr ErrUnknownPlayer) \<and>
           bal w' = bal w \<and> posted w' = posted w"
    and credit_replay: "tx \<in> posted w \<Longrightarrow>
      bal (snd (w_Credit W p a tx w)) = bal w \<and> posted (snd (w_Credit W p a tx w)) = posted w"
    and balance_known: "bal w p = Some b \<Longrightarrow> \<exists>v. w_Balance W p w = Inr v \<and> unat v = b"
    and balance_unknown: "bal w p = None \<Longrightarrow>
      \<exists>e. w_Balance W p w = Inl e \<and> errors_is e (WalletErr ErrUnknownPlayer)"
begin

text \<open>A debit that succeeds with a fresh id took the amount, and the player had it.\<close>

lemma debit_success:
  assumes "w_Debit W p a tx w = (None, w')" and "tx \<notin> posted w"
  obtains b where "bal w p = Some b" and "unat a \<le> b"
    and "bal w' = (bal w)(p \<mapsto> b - unat a)" and "posted w' = insert tx (posted w)"
proof (cases "bal w p")
  case None
  with assms debit_unknown [OF None, of a tx] show ?thesis by auto
next
  case (Some b)
  show ?thesis
  proof (cases "unat a \<le> b")
    case True
    with assms debit_ok [OF Some assms(2) True] Some that show ?thesis by auto
  next
    case False
    with assms debit_short [OF Some assms(2), of a] show ?thesis by auto
  qed
qed

text \<open>A debit that fails takes nothing.\<close>

lemma debit_failure:
  assumes "w_Debit W p a tx w = (Some e, w')"
  shows "bal w' = bal w \<and> posted w' = posted w"
proof (cases "bal w p")
  case None
  with assms debit_unknown [OF None, of a tx] show ?thesis by auto
next
  case (Some b)
  show ?thesis
  proof (cases "tx \<in> posted w")
    case True
    with assms debit_replay [OF True, of p a] show ?thesis by auto
  next
    case fresh: False
    show ?thesis
    proof (cases "unat a \<le> b")
      case True
      with assms debit_ok [OF Some fresh True] show ?thesis by auto
    next
      case False
      then have "b < unat a" by simp
      with assms debit_short [OF Some fresh this] show ?thesis by auto
    qed
  qed
qed

text \<open>Debit and refund under two fresh ids restore every balance.\<close>

lemma debit_refund:
  assumes d: "w_Debit W p a tx w = (None, w')" and "tx \<notin> posted w"
    and "rx \<notin> posted w" and "rx \<noteq> tx" and lt: "\<And>b. bal w p = Some b \<Longrightarrow> b < two64"
  shows "\<exists>w''. w_Credit W p a rx w' = (None, w'') \<and> bal w'' = bal w"
proof -
  obtain b where b: "bal w p = Some b" "unat a \<le> b" "bal w' = (bal w)(p \<mapsto> b - unat a)"
    "posted w' = insert tx (posted w)"
    using debit_success [OF d assms(2)] by blast
  have "bal w' p = Some (b - unat a)" and "rx \<notin> posted w'" and "b - unat a + unat a < two64"
    using b assms lt by auto
  from credit_ok [OF this] obtain w'' where "w_Credit W p a rx w' = (None, w'')"
    and "bal w'' = (bal w')(p \<mapsto> b - unat a + unat a)" by blast
  with b show ?thesis by (auto simp: fun_eq_iff)
qed

end

section \<open>MockWallet\<close>

text \<open>
  \<open>applied\<close> holds \<open>int64\<close> values; \<open>int64(amount)\<close> keeps the bits, so it is the same
  word, read as signed by \<^const>\<open>sint\<close>.
\<close>

record mock_wallet =
  balances :: "string \<Rightarrow> u64 option"
  applied :: "string \<Rightarrow> u64 option"

definition NewMockWallet :: mock_wallet where
  "NewMockWallet = \<lparr>balances = Map.empty, applied = Map.empty\<rparr>"

definition SetBalance :: "string \<Rightarrow> u64 \<Rightarrow> mock_wallet \<Rightarrow> mock_wallet" where
  "SetBalance playerID amount w = w\<lparr>balances := (balances w)(playerID \<mapsto> amount)\<rparr>"

definition mock_debit :: "string \<Rightarrow> u64 \<Rightarrow> string \<Rightarrow> mock_wallet \<Rightarrow> gerr option \<times> mock_wallet" where
  "mock_debit playerID amount txID w =
     (case balances w playerID of
        None \<Rightarrow> (Some (Wrapf ''%q'' (Sentinel (WalletErr ErrUnknownPlayer))), w)
      | Some b \<Rightarrow>
          (case applied w txID of
             Some prev \<Rightarrow>
               if prev \<noteq> - amount then (Some (Errorf ''txID reused for different operation''), w)
               else (None, w)
           | None \<Rightarrow>
               if b < amount then (Some (Wrapf ''player balance wanted'' (Sentinel (WalletErr ErrInsufficientFunds))), w)
               else (None, w\<lparr>balances := (balances w)(playerID \<mapsto> b - amount),
                             applied := (applied w)(txID \<mapsto> - amount)\<rparr>)))"

definition mock_credit :: "string \<Rightarrow> u64 \<Rightarrow> string \<Rightarrow> mock_wallet \<Rightarrow> gerr option \<times> mock_wallet" where
  "mock_credit playerID amount txID w =
     (case balances w playerID of
        None \<Rightarrow> (Some (Wrapf ''%q'' (Sentinel (WalletErr ErrUnknownPlayer))), w)
      | Some b \<Rightarrow>
          (case applied w txID of
             Some prev \<Rightarrow>
               if prev \<noteq> amount then (Some (Errorf ''txID reused for different operation''), w)
               else (None, w)
           | None \<Rightarrow> (None, w\<lparr>balances := (balances w)(playerID \<mapsto> b + amount),
                                applied := (applied w)(txID \<mapsto> amount)\<rparr>)))"

definition mock_balance :: "string \<Rightarrow> mock_wallet \<Rightarrow> gerr + u64" where
  "mock_balance playerID w =
     (case balances w playerID of
        None \<Rightarrow> Inl (Wrapf ''%q'' (Sentinel (WalletErr ErrUnknownPlayer)))
      | Some b \<Rightarrow> Inr b)"

definition AppliedAmount :: "string \<Rightarrow> mock_wallet \<Rightarrow> int \<times> bool" where
  "AppliedAmount txID w =
     (case applied w txID of None \<Rightarrow> (0, False) | Some v \<Rightarrow> (sint v, True))"

definition MockWallet :: "mock_wallet wallet" where
  "MockWallet = \<lparr>w_Debit = mock_debit, w_Credit = mock_credit, w_Balance = mock_balance\<rparr>"

lemma MockWallet_sel [simp]:
  "w_Debit MockWallet = mock_debit" "w_Credit MockWallet = mock_credit"
  "w_Balance MockWallet = mock_balance"
  by (simp_all add: MockWallet_def)

definition mock_bal :: "mock_wallet \<Rightarrow> string \<Rightarrow> nat option" where
  "mock_bal w p = map_option unat (balances w p)"

definition mock_posted :: "mock_wallet \<Rightarrow> string set" where
  "mock_posted w = dom (applied w)"

lemmas mock_simps = mock_debit_def mock_credit_def mock_balance_def mock_bal_def mock_posted_def

lemma mock_bal_Some: "mock_bal w p = Some b \<longleftrightarrow> (\<exists>v. balances w p = Some v \<and> unat v = b)"
  by (auto simp: mock_bal_def)

lemma mock_bal_None: "mock_bal w p = None \<longleftrightarrow> balances w p = None"
  by (auto simp: mock_bal_def)

lemma mock_posted_iff: "tx \<in> mock_posted w \<longleftrightarrow> applied w tx \<noteq> None"
  by (auto simp: mock_posted_def)

lemma mock_debit_ok:
  assumes "mock_bal w p = Some b" and "tx \<notin> mock_posted w" and "unat a \<le> b"
  shows "\<exists>w'. mock_debit p a tx w = (None, w') \<and> mock_bal w' = (mock_bal w)(p \<mapsto> b - unat a) \<and>
    mock_posted w' = insert tx (mock_posted w)"
proof -
  from assms obtain v where v: "balances w p = Some v" "unat v = b" and "applied w tx = None"
    by (auto simp: mock_bal_Some mock_posted_iff)
  moreover from assms(3) v have "\<not> v < a" and "unat (v - a) = b - unat a"
    by (auto simp: word_less_nat_alt unat_sub word_le_nat_alt)
  ultimately show ?thesis
    by (auto simp: mock_simps fun_eq_iff)
qed

lemma mock_credit_ok:
  assumes "mock_bal w p = Some b" and "tx \<notin> mock_posted w" and "b + unat a < two64"
  shows "\<exists>w'. mock_credit p a tx w = (None, w') \<and> mock_bal w' = (mock_bal w)(p \<mapsto> b + unat a) \<and>
    mock_posted w' = insert tx (mock_posted w)"
proof -
  from assms obtain v where v: "balances w p = Some v" "unat v = b" and "applied w tx = None"
    by (auto simp: mock_bal_Some mock_posted_iff)
  moreover from assms(3) v have "unat (v + a) = b + unat a"
    by (auto simp: u64_add_no_overflow)
  ultimately show ?thesis
    by (auto simp: mock_simps fun_eq_iff)
qed

interpretation mock: wallet_contract MockWallet mock_bal mock_posted
proof (unfold_locales, goal_cases)
  case (1 w p b tx a)
  then show ?case by (simp add: mock_debit_ok)
next
  case (2 w p b tx a)
  then show ?case
    by (auto simp: mock_debit_def mock_bal_Some mock_posted_iff word_less_nat_alt)
next
  case (3 w p a tx)
  then show ?case by (simp add: mock_debit_def mock_bal_None)
next
  case (4 tx w p a)
  then show ?case by (auto simp: mock_debit_def mock_posted_iff split: option.splits)
next
  case (5 w p b tx a)
  then show ?case by (simp add: mock_credit_ok)
next
  case (6 w p a tx)
  then show ?case by (simp add: mock_credit_def mock_bal_None)
next
  case (7 tx w p a)
  then show ?case by (auto simp: mock_credit_def mock_posted_iff split: option.splits)
next
  case (8 w p b)
  then show ?case by (auto simp: mock_balance_def mock_bal_Some)
next
  case (9 w p)
  then show ?case by (simp add: mock_balance_def mock_bal_None)
qed

section \<open>The ledger\<close>

text \<open>
  A run of the wallet: players are registered first, then any debits and credits.  The sum
  of all balances and the sum of the recorded transactions are words, so the balance sheet
  holds even where a credit wraps around.
\<close>

datatype wallet_event = WDebit string u64 string | WCredit string u64 string

fun wallet_apply :: "wallet_event \<Rightarrow> mock_wallet \<Rightarrow> gerr option \<times> mock_wallet" where
  "wallet_apply (WDebit p a tx) w = mock_debit p a tx w"
| "wallet_apply (WCredit p a tx) w = mock_credit p a tx w"

fun wallet_run :: "wallet_event list \<Rightarrow> mock_wallet \<Rightarrow> mock_wallet" where
  "wallet_run [] w = w"
| "wallet_run (e # es) w = wallet_run es (snd (wallet_apply e w))"

definition total_word :: "(string \<Rightarrow> u64 option) \<Rightarrow> u64" where
  "total_word m = (\<Sum>k \<in> dom m. the (m k))"

lemma total_word_upd:
  assumes "finite (dom m)"
  shows "total_word (m(k \<mapsto> v)) = total_word m - (case m k of None \<Rightarrow> 0 | Some u \<Rightarrow> u) + v"
proof -
  have rest: "(\<Sum>j \<in> dom m - {k}. the ((m(k \<mapsto> v)) j)) = (\<Sum>j \<in> dom m - {k}. the (m j))"
    by (rule sum.cong) auto
  have "total_word (m(k \<mapsto> v)) = v + (\<Sum>j \<in> dom m - {k}. the (m j))"
    using assms by (simp add: total_word_def sum.insert_remove rest del: fun_upd_apply) simp
  moreover have "total_word m = (case m k of None \<Rightarrow> 0 | Some u \<Rightarrow> u) + (\<Sum>j \<in> dom m - {k}. the (m j))"
  proof (cases "m k")
    case None
    then have "dom m - {k} = dom m" by auto
    with None show ?thesis by (simp add: total_word_def)
  next
    case (Some u)
    then have "k \<in> dom m" by auto
    with Some show ?thesis by (simp add: total_word_def sum.remove [OF assms])
  qed
  ultimately show ?thesis by simp
qed

definition ledger_ok :: "u64 \<Rightarrow> mock_wallet \<Rightarrow> bool" where
  "ledger_ok base w \<longleftrightarrow> finite (dom (balances w)) \<and> finite (dom (applied w)) \<and>
     total_word (balances w) = base + total_word (applied w)"

lemma wallet_apply_ledger [inv_intros]:
  "ledger_ok base w \<Longrightarrow> ledger_ok base (snd (wallet_apply e w))"
  by (cases e) (auto simp: ledger_ok_def mock_debit_def mock_credit_def total_word_upd
      split: option.splits)

lemma wallet_run_ledger:
  "ledger_ok base w \<Longrightarrow> ledger_ok base (wallet_run es w)"
  by (induction es arbitrary: w) (auto intro: wallet_apply_ledger)

text \<open>
  The mock wallet keeps its books: whatever sequence of debits and credits is replayed,
  refused, or applied, the sum of all balances is the sum before the first one plus the sum
  of the recorded signed transactions.
\<close>

theorem mock_wallet_books_balance:
  assumes "applied w = Map.empty" and "finite (dom (balances w))"
  shows "total_word (balances (wallet_run es w)) =
    total_word (balances w) + total_word (applied (wallet_run es w))"
proof -
  have "ledger_ok (total_word (balances w)) w"
    using assms by (simp add: ledger_ok_def total_word_def)
  from wallet_run_ledger [OF this, of es] show ?thesis
    by (simp add: ledger_ok_def)
qed

definition demo_wallet :: mock_wallet where
  "demo_wallet = SetBalance ''bob'' 50 (SetBalance ''alice'' 100 NewMockWallet)"

theorem mock_wallet_books_balance_witness:
  "total_word (balances (wallet_run [WDebit ''alice'' 30 ''t1'', WCredit ''bob'' 5 ''t2''] demo_wallet)) =
   total_word (balances demo_wallet) +
   total_word (applied (wallet_run [WDebit ''alice'' 30 ''t1'', WCredit ''bob'' 5 ''t2''] demo_wallet))"
  by (rule mock_wallet_books_balance)
    (simp_all add: demo_wallet_def SetBalance_def NewMockWallet_def)

text \<open>
  A transaction id is spent by its first use: repeating the same debit or credit
  reports success and moves nothing, so a retried bet is never charged twice and a retried
  prize never paid twice.
\<close>

theorem mock_wallet_idempotent:
  assumes "wallet_apply e w = (None, w')"
  shows "wallet_apply e w' = (None, w')"
  using assms
  by (cases e) (auto simp: mock_debit_def mock_credit_def split: option.splits if_splits)

theorem mock_wallet_idempotent_witness:
  "wallet_apply (WDebit ''alice'' 30 ''t1'') (snd (wallet_apply (WDebit ''alice'' 30 ''t1'') demo_wallet))
   = (None, snd (wallet_apply (WDebit ''alice'' 30 ''t1'') demo_wallet))"
  by (rule mock_wallet_idempotent [where w = demo_wallet])
    (simp add: mock_debit_def demo_wallet_def SetBalance_def NewMockWallet_def)

text \<open>
  The deduplication key is the transaction id and the recorded word alone: a debit that
  reuses a recorded id succeeds for any known player, without taking anything, exactly when
  its amount negated is the recorded word.  The player of the first use is not compared, and
  a credit of \<open>2^63\<close> is taken for a debit of \<open>2^63\<close>.
\<close>

theorem mock_debit_replay_iff:
  assumes "balances w p = Some b" and "applied w tx = Some prev"
  shows "(mock_debit p a tx w = (None, w) \<longleftrightarrow> prev = - a) \<and>
    (prev \<noteq> - a \<longrightarrow> (\<exists>m. mock_debit p a tx w = (Some (Errorf m), w)))"
  using assms by (auto simp: mock_debit_def)

theorem mock_debit_replay_iff_witness:
  "mock_debit ''bob'' 30 ''t1'' (snd (mock_debit ''alice'' 30 ''t1'' demo_wallet)) =
     (None, snd (mock_debit ''alice'' 30 ''t1'' demo_wallet))"
  using mock_debit_replay_iff [of "snd (mock_debit ''alice'' 30 ''t1'' demo_wallet)" "''bob''" 50
      "''t1''" "- 30" 30]
  by (simp add: mock_debit_def demo_wallet_def SetBalance_def NewMockWallet_def)

end
