(* ===== verification/Sha256.thy ===== *)
theory Sha256
  imports Go_Bytes
begin

text \<open>
  The hash functions of Go's library that the code calls, as executable programs on bytes:
  \<open>sha256.Sum256\<close> (FIPS 180-4) and \<open>hmac.New(sha256.New, key)\<close> (FIPS 198-1).  The
  repository holds no code of theirs; the commitments, the stored checksums and the request
  signatures are about their values.
\<close>

unbundle bit_operations_syntax

section \<open>SHA-256\<close>

definition round_constants :: "u32 list" where
  "round_constants = [
     1116352408, 1899447441, 3049323471, 3921009573, 961987163, 1508970993, 2453635748, 2870763221,
     3624381080, 310598401, 607225278, 1426881987, 1925078388, 2162078206, 2614888103, 3248222580,
     3835390401, 4022224774, 264347078, 604807628, 770255983, 1249150122, 1555081692, 1996064986,
     2554220882, 2821834349, 2952996808, 3210313671, 3336571891, 3584528711, 113926993, 338241895,
     666307205, 773529912, 1294757372, 1396182291, 1695183700, 1986661051, 2177026350, 2456956037,
     2730485921, 2820302411, 3259730800, 3345764771, 3516065817, 3600352804, 4094571909, 275423344,
     430227734, 506948616, 659060556, 883997877, 958139571, 1322822218, 1537002063, 1747873779,
     1955562222, 2024104815, 2227730452, 2361852424, 2428436474, 2756734187, 3204031479, 3329325298]"

definition initial_hash :: "u32 list" where
  "initial_hash = [
     1779033703, 3144134277, 1013904242, 2773480762, 1359893119, 2600822924, 528734635, 1541459225]"

definition be32 :: "u32 \<Rightarrow> byte list" where
  "be32 w = map (\<lambda>i. ucast (drop_bit i w)) [24, 16, 8, 0]"

fun words32 :: "byte list \<Rightarrow> u32 list" where
  "words32 (a # b # c # d # bs) =
     (push_bit 24 (ucast a) OR push_bit 16 (ucast b) OR push_bit 8 (ucast c) OR ucast d) # words32 bs"
| "words32 _ = []"

definition pad_message :: "byte list \<Rightarrow> byte list" where
  "pad_message msg =
     msg @ [128] @ replicate ((119 - length msg mod 64) mod 64) 0 @ be64 (of_nat (8 * length msg))"

fun schedule :: "nat \<Rightarrow> u32 list \<Rightarrow> u32 list" where
  "schedule 0 ws = ws"
| "schedule (Suc n) ws =
     (let i = length ws; x = ws ! (i - 15); y = ws ! (i - 2);
          s0 = word_rotr 7 x XOR word_rotr 18 x XOR drop_bit 3 x;
          s1 = word_rotr 17 y XOR word_rotr 19 y XOR drop_bit 10 y
      in schedule n (ws @ [ws ! (i - 16) + s0 + ws ! (i - 7) + s1]))"

fun sha_round :: "u32 list \<Rightarrow> u32 \<times> u32 \<Rightarrow> u32 list" where
  "sha_round [a, b, c, d, e, f, g, h] (k, w) =
     (let s1 = word_rotr 6 e XOR word_rotr 11 e XOR word_rotr 25 e;
          ch = (e AND f) XOR (NOT e AND g);
          t1 = h + s1 + ch + k + w;
          s0 = word_rotr 2 a XOR word_rotr 13 a XOR word_rotr 22 a;
          maj = (a AND b) XOR (a AND c) XOR (b AND c)
      in [t1 + s0 + maj, a, b, c, d + t1, e, f, g])"
| "sha_round st _ = st"

definition compress_block :: "u32 list \<Rightarrow> byte list \<Rightarrow> u32 list" where
  "compress_block st block =
     map2 (+) st (foldl sha_round st (zip round_constants (schedule 48 (words32 block))))"

function hash_blocks :: "u32 list \<Rightarrow> byte list \<Rightarrow> u32 list" where
  "hash_blocks st bs =
     (if bs = [] then st else hash_blocks (compress_block st (take 64 bs)) (drop 64 bs))"
  by pat_completeness auto
termination
  by (relation "measure (\<lambda>(st, bs). length bs)") auto

declare hash_blocks.simps [simp del]

definition sha256 :: "byte list \<Rightarrow> byte list" where
  "sha256 msg = concat (map be32 (hash_blocks initial_hash (pad_message msg)))"

section \<open>HMAC-SHA-256\<close>

definition hmac_sha256 :: "byte list \<Rightarrow> byte list \<Rightarrow> byte list" where
  "hmac_sha256 key msg =
     (let k0 = (if 64 < length key then sha256 key else key);
          k = k0 @ replicate (64 - length k0) 0
      in sha256 (map (\<lambda>b. b XOR 92) k @ sha256 (map (\<lambda>b. b XOR 54) k @ msg)))"

section \<open>The digest is 32 bytes\<close>

lemma length_be32 [simp]: "length (be32 w) = 4"
  by (simp add: be32_def)

lemma length_sha_round [simp]: "length (sha_round st kw) = length st"
  by (induction st kw rule: sha_round.induct) (auto simp: Let_def)

lemma length_foldl_sha_round [simp]: "length (foldl sha_round st kws) = length st"
  by (induction kws arbitrary: st) auto

lemma length_hash_blocks [simp]: "length (hash_blocks st bs) = length st"
proof (induction st bs rule: hash_blocks.induct)
  case (1 st bs)
  then show ?case
    by (subst hash_blocks.simps) (auto simp: compress_block_def)
qed

lemma length_sha256 [simp]: "length (sha256 msg) = 32"
proof -
  have "length (concat (map be32 ws)) = 4 * length ws" for ws
    by (induction ws) auto
  then show ?thesis
    by (simp add: sha256_def initial_hash_def)
qed

lemma length_hmac_sha256 [simp]: "length (hmac_sha256 key msg) = 32"
  by (simp add: hmac_sha256_def Let_def)

end
