(* ===== verification/Round.thy ===== *)
theory Round
  imports Sha256
begin

text \<open>
  The per-round state machine of package \<open>round\<close> (server/round/round.go): phases
  WAITING, BUY_IN, RACING, SETTLE, the participant list and the commit/reveal of the server
  seed.  The clock is an argument of each transition, as in the code.
\<close>

section \<open>Data\<close>

datatype phase = PhaseWaiting | PhaseBuyIn | PhaseRacing | PhaseSettle

fun phase_string :: "phase \<Rightarrow> string" where
  "phase_string PhaseWaiting = ''WAITING''"
| "phase_string PhaseBuyIn = ''BUY_IN''"
| "phase_string PhaseRacing = ''RACING''"
| "phase_string PhaseSettle = ''SETTLE''"

text \<open>The \<open>iota\<close> value of a phase.\<close>

fun phase_num :: "phase \<Rightarrow> nat" where
  "phase_num PhaseWaiting = 0"
| "phase_num PhaseBuyIn = 1"
| "phase_num PhaseRacing = 2"
| "phase_num PhaseSettle = 3"

instantiation phase :: linorder
begin

definition less_eq_phase :: "phase \<Rightarrow> phase \<Rightarrow> bool" where
  "less_eq_phase p q \<longleftrightarrow> phase_num p \<le> phase_num q"

definition less_phase :: "phase \<Rightarrow> phase \<Rightarrow> bool" where
  "less_phase p q \<longleftrightarrow> phase_num p < phase_num q"

instance
proof
  fix p q r :: phase
  show "p < q \<longleftrightarrow> p \<le> q \<and> \<not> q \<le> p" by (auto simp: less_eq_phase_def less_phase_def)
  show "p \<le> p" by (simp add: less_eq_phase_def)
  show "p \<le> q \<Longrightarrow> q \<le> r \<Longrightarrow> p \<le> r" by (simp add: less_eq_phase_def)
  show "p \<le> q \<Longrightarrow> q \<le> p \<Longrightarrow> p = q" by (cases p; cases q) (simp_all add: less_eq_phase_def)
  show "p \<le> q \<or> q \<le> p" by (auto simp: less_eq_phase_def)
qed

end

lemmas phase_order = less_eq_phase_def less_phase_def

record participant =
  part_MarbleIndex :: int
  part_Name :: string
  part_ClientSeed :: string

record race_result =
  res_WinnerIndex :: int
  res_FinishedAt :: gtime

record round_state =
  rnd_ID :: u64
  rnd_serverSeed :: "byte list"
  rnd_serverSeedHash :: "byte list"
  rnd_phase :: phase
  rnd_phaseStart :: gtime
  rnd_participants :: "participant list"
  rnd_maxMarbles :: int
  rnd_result :: race_result
  rnd_hasResult :: bool

definition new_round :: "u64 \<Rightarrow> byte list \<Rightarrow> int \<Rightarrow> gtime \<Rightarrow> round_state" where
  "new_round rid serverSeed maxMarbles now =
     \<lparr>rnd_ID = rid, rnd_serverSeed = serverSeed, rnd_serverSeedHash = sha256 serverSeed,
      rnd_phase = PhaseWaiting, rnd_phaseStart = now, rnd_participants = [],
      rnd_maxMarbles = maxMarbles, rnd_result = \<lparr>res_WinnerIndex = 0, res_FinishedAt = 0\<rparr>,
      rnd_hasResult = False\<rparr>"

section \<open>Accessors\<close>

definition round_CommitHash :: "round_state \<Rightarrow> byte list" where
  "round_CommitHash r = rnd_serverSeedHash r"

definition round_Participants :: "round_state \<Rightarrow> participant list" where
  "round_Participants r = rnd_participants r"

definition round_RevealedSeed :: "round_state \<Rightarrow> byte list \<times> bool" where
  "round_RevealedSeed r =
     (if rnd_phase r \<noteq> PhaseSettle then (replicate 32 0, False) else (rnd_serverSeed r, True))"

definition round_Result :: "round_state \<Rightarrow> race_result \<times> bool" where
  "round_Result r = (rnd_result r, rnd_hasResult r)"

section \<open>Transitions\<close>

definition round_advance :: "phase \<Rightarrow> gtime \<Rightarrow> round_state \<Rightarrow> gerr option \<times> round_state" where
  "round_advance nxt now r =
     (if now < rnd_phaseStart r then (Some (Sentinel (RoundErr ErrTimeGoesBack)), r)
      else (None, r\<lparr>rnd_phase := nxt, rnd_phaseStart := now\<rparr>))"

definition OpenBuyIn :: "gtime \<Rightarrow> round_state \<Rightarrow> gerr option \<times> round_state" where
  "OpenBuyIn now r =
     (if rnd_phase r \<noteq> PhaseWaiting
        then (Some (Wrapf ''OpenBuyIn requires WAITING'' (Sentinel (RoundErr ErrWrongPhase))), r)
      else round_advance PhaseBuyIn now r)"

definition AddParticipant :: "participant \<Rightarrow> round_state \<Rightarrow> gerr option \<times> round_state" where
  "AddParticipant p r =
     (if rnd_phase r \<noteq> PhaseBuyIn
        then (Some (Wrapf ''AddParticipant requires BUY_IN'' (Sentinel (RoundErr ErrWrongPhase))), r)
      else if rnd_maxMarbles r \<le> int (length (rnd_participants r))
        then (Some (Sentinel (RoundErr ErrRoundFull)), r)
      else if part_Name p = [] then (Some (Sentinel (RoundErr ErrEmptyName)), r)
      else (None, r\<lparr>rnd_participants := rnd_participants r @
                     [p\<lparr>part_MarbleIndex := int (length (rnd_participants r))\<rparr>]\<rparr>))"

definition StartRace :: "gtime \<Rightarrow> round_state \<Rightarrow> gerr option \<times> round_state" where
  "StartRace now r =
     (if rnd_phase r \<noteq> PhaseBuyIn
        then (Some (Wrapf ''StartRace requires BUY_IN'' (Sentinel (RoundErr ErrWrongPhase))), r)
      else round_advance PhaseRacing now r)"

definition FinishRace :: "race_result \<Rightarrow> gtime \<Rightarrow> round_state \<Rightarrow> gerr option \<times> round_state" where
  "FinishRace result now r =
     (if rnd_phase r \<noteq> PhaseRacing
        then (Some (Wrapf ''FinishRace requires RACING'' (Sentinel (RoundErr ErrWrongPhase))), r)
      else if res_FinishedAt result = 0 then (Some (Sentinel (RoundErr ErrResultMissing)), r)
      else round_advance PhaseSettle now (r\<lparr>rnd_result := result, rnd_hasResult := True\<rparr>))"

lemmas round_ops = OpenBuyIn_def AddParticipant_def StartRace_def FinishRace_def round_advance_def

section \<open>The state machine\<close>

datatype round_event =
    EvOpenBuyIn gtime | EvAddParticipant participant | EvStartRace gtime
  | EvFinishRace race_result gtime

fun round_apply :: "round_event \<Rightarrow> round_state \<Rightarrow> gerr option \<times> round_state" where
  "round_apply (EvOpenBuyIn now) r = OpenBuyIn now r"
| "round_apply (EvAddParticipant p) r = AddParticipant p r"
| "round_apply (EvStartRace now) r = StartRace now r"
| "round_apply (EvFinishRace res now) r = FinishRace res now r"

text \<open>A call, refused or not.\<close>

definition round_step :: "round_state \<Rightarrow> round_event \<Rightarrow> round_state \<Rightarrow> bool" where
  "round_step r e r' \<longleftrightarrow> snd (round_apply e r) = r'"

definition fresh_round :: "round_state \<Rightarrow> bool" where
  "fresh_round r \<longleftrightarrow> (\<exists>rid seed n now. r = new_round rid seed n now)"

definition round_inv :: "round_state \<Rightarrow> bool" where
  "round_inv r \<longleftrightarrow>
     rnd_serverSeedHash r = sha256 (rnd_serverSeed r) \<and>
     map part_MarbleIndex (rnd_participants r) = map int [0..<length (rnd_participants r)] \<and>
     (\<forall>p \<in> set (rnd_participants r). part_Name p \<noteq> []) \<and>
     int (length (rnd_participants r)) \<le> max 0 (rnd_maxMarbles r) \<and>
     (rnd_participants r \<noteq> [] \<longrightarrow> PhaseWaiting < rnd_phase r) \<and>
     (rnd_phase r = PhaseSettle \<longrightarrow> rnd_hasResult r)"

lemma round_apply_inv [inv_intros]:
  "round_inv r \<Longrightarrow> round_apply e r = (x, r') \<Longrightarrow> round_inv r'"
  by (cases e) (auto simp: round_inv_def round_ops phase_order split: if_splits)

lemma round_apply_inv_snd: "round_inv r \<Longrightarrow> round_inv (snd (round_apply e r))"
  by (cases "round_apply e r") (simp add: round_apply_inv)

lemma new_round_inv [simp]: "round_inv (new_round rid seed n now)"
  by (simp add: round_inv_def new_round_def)

interpretation rnd: invariant_system fresh_round round_step round_inv
proof (unfold_locales, goal_cases)
  case (1 r)
  then show ?case by (auto simp: fresh_round_def)
next
  case (2 r e r')
  then show ?case by (auto simp: round_step_def intro: round_apply_inv_snd)
qed

text \<open>What no call changes, and what only the right phase may change.\<close>

lemma round_apply_frame [frame_simps]:
  "round_apply e r = (x, r') \<Longrightarrow>
   rnd_ID r' = rnd_ID r \<and> rnd_serverSeed r' = rnd_serverSeed r \<and>
   rnd_serverSeedHash r' = rnd_serverSeedHash r \<and> rnd_maxMarbles r' = rnd_maxMarbles r"
  by (cases e) (auto simp: round_ops split: if_splits)

lemma round_apply_phase:
  "round_apply e r = (x, r') \<Longrightarrow>
   (if x = None \<and> (\<forall>p. e \<noteq> EvAddParticipant p)
    then phase_num (rnd_phase r') = Suc (phase_num (rnd_phase r)) \<and> rnd_phaseStart r \<le> rnd_phaseStart r'
    else rnd_phase r' = rnd_phase r \<and> rnd_phaseStart r' = rnd_phaseStart r)"
  by (cases e) (auto simp: round_ops split: if_splits)

lemma round_apply_locked:
  "round_apply e r = (x, r') \<Longrightarrow> rnd_phase r \<noteq> PhaseBuyIn \<Longrightarrow>
   rnd_participants r' = rnd_participants r"
  by (cases e) (auto simp: round_ops split: if_splits)

lemma round_apply_phase_mono: "round_apply e r = (x, r') \<Longrightarrow> rnd_phase r \<le> rnd_phase r'"
  using round_apply_phase [of e r x r'] by (auto simp: phase_order split: if_splits)

fun round_run :: "round_event list \<Rightarrow> round_state \<Rightarrow> round_state" where
  "round_run [] r = r"
| "round_run (e # es) r = round_run es (snd (round_apply e r))"

lemma round_run_phase_mono: "rnd_phase r \<le> rnd_phase (round_run es r)"
proof (induction es arbitrary: r)
  case Nil
  then show ?case by simp
next
  case (Cons e es)
  have "rnd_phase r \<le> rnd_phase (snd (round_apply e r))"
    by (rule round_apply_phase_mono [of e r "fst (round_apply e r)"]) simp
  with Cons.IH [of "snd (round_apply e r)"] show ?case by simp
qed

lemma round_run_seed:
  "rnd_serverSeed (round_run es r) = rnd_serverSeed r \<and>
   rnd_serverSeedHash (round_run es r) = rnd_serverSeedHash r"
proof (induction es arbitrary: r)
  case Nil
  then show ?case by simp
next
  case (Cons e es)
  show ?case
    using Cons.IH [of "snd (round_apply e r)"] round_apply_frame [of e r "fst (round_apply e r)"]
    by simp
qed

lemma round_run_locked:
  "PhaseBuyIn < rnd_phase r \<Longrightarrow> rnd_participants (round_run es r) = rnd_participants r"
proof (induction es arbitrary: r)
  case Nil
  then show ?case by simp
next
  case (Cons e es)
  let ?r = "snd (round_apply e r)"
  have "rnd_phase r \<le> rnd_phase ?r"
    by (rule round_apply_phase_mono [of e r "fst (round_apply e r)"]) simp
  with Cons.prems have "PhaseBuyIn < rnd_phase ?r" by simp
  moreover have "rnd_participants ?r = rnd_participants r"
    using Cons.prems by (intro round_apply_locked [of e r "fst (round_apply e r)"]) auto
  ultimately show ?case using Cons.IH by simp
qed

section \<open>Properties\<close>

text \<open>
  C32: in every state a round can be driven to, by any calls in any order, participants are
  numbered by join order, have names, never exceed the marble cap, and the published hash
  is the SHA-256 of the secret seed.
\<close>

theorem round_reach_inv:
  assumes "reach fresh_round round_step r"
  shows "rnd_serverSeedHash r = sha256 (rnd_serverSeed r) \<and>
     (\<forall>i < length (rnd_participants r). part_MarbleIndex (rnd_participants r ! i) = int i \<and>
        part_Name (rnd_participants r ! i) \<noteq> []) \<and>
     int (length (rnd_participants r)) \<le> max 0 (rnd_maxMarbles r)"
proof -
  have inv: "round_inv r" by (rule rnd.reach_inv [OF assms])
  have "part_MarbleIndex (rnd_participants r ! i) = int i" if "i < length (rnd_participants r)" for i
  proof -
    have "map part_MarbleIndex (rnd_participants r) ! i = map int [0..<length (rnd_participants r)] ! i"
      using inv by (simp add: round_inv_def)
    with that show ?thesis by simp
  qed
  with inv show ?thesis by (auto simp: round_inv_def)
qed

theorem round_reach_inv_witness:
  "rnd_serverSeedHash (new_round 7 (replicate 32 1) 20 100) =
     sha256 (rnd_serverSeed (new_round 7 (replicate 32 1) 20 100))"
proof -
  have "reach fresh_round round_step (new_round 7 (replicate 32 1) 20 100)"
    by (rule reach_init) (auto simp: fresh_round_def)
  from round_reach_inv [OF this] show ?thesis by simp
qed

text \<open>
  C16: commit and reveal: whatever calls a round receives, the hash published at its creation
  is the hash of the seed it reveals, and before SETTLE the reveal shows 32 zero bytes and
  no more, whatever the seed is.
\<close>

theorem commit_reveal:
  "round_CommitHash (round_run es (new_round rid seed n now)) = sha256 seed \<and>
   round_RevealedSeed (round_run es (new_round rid seed n now)) =
     (if rnd_phase (round_run es (new_round rid seed n now)) = PhaseSettle
      then (seed, True) else (replicate 32 0, False))"
  using round_run_seed [of es "new_round rid seed n now"]
  by (simp add: round_CommitHash_def round_RevealedSeed_def new_round_def)

text \<open>
  Phases only advance, one at a time and never back in time, and from RACING on no
  sequence of calls can change who takes part.
\<close>

theorem phases_ordered_and_locked:
  assumes "round_apply e r = (x, r')"
  shows "(if x = None \<and> (\<forall>p. e \<noteq> EvAddParticipant p)
      then phase_num (rnd_phase r') = Suc (phase_num (rnd_phase r)) \<and>
           rnd_phaseStart r \<le> rnd_phaseStart r'
      else rnd_phase r' = rnd_phase r \<and> rnd_phaseStart r' = rnd_phaseStart r) \<and>
     rnd_phase r' \<le> rnd_phase (round_run es r') \<and>
     (PhaseBuyIn < rnd_phase r' \<longrightarrow>
        rnd_participants (round_run es r') = rnd_participants r')"
  using round_apply_phase [OF assms] round_run_phase_mono round_run_locked by blast

definition demo_round :: round_state where
  "demo_round = round_run [EvOpenBuyIn 100, EvAddParticipant \<lparr>part_MarbleIndex = 9,
     part_Name = ''alice'', part_ClientSeed = []\<rparr>] (new_round 7 (replicate 32 1) 20 100)"

lemma demo_round_start:
  "\<exists>r'. round_apply (EvStartRace 120) demo_round = (None, r') \<and> rnd_phase r' = PhaseRacing \<and>
     length (rnd_participants r') = 1"
  by (simp add: demo_round_def round_ops new_round_def)

theorem phases_ordered_and_locked_witness:
  "\<exists>r'. round_apply (EvStartRace 120) demo_round = (None, r') \<and>
     rnd_participants (round_run [EvAddParticipant \<lparr>part_MarbleIndex = 0, part_Name = ''eve'',
       part_ClientSeed = []\<rparr>] r') = rnd_participants r'"
proof -
  obtain r' where r': "round_apply (EvStartRace 120) demo_round = (None, r')"
    and racing: "rnd_phase r' = PhaseRacing"
    using demo_round_start by blast
  have "PhaseBuyIn < rnd_phase r'" using racing by (simp add: phase_order)
  with phases_ordered_and_locked [OF r'] r' show ?thesis by blast
qed

text \<open>
  A refused call leaves the round as it was, with one exception the code has: a
  \<open>FinishRace\<close> in RACING whose clock reads before the phase started reports
  \<open>ErrTimeGoesBack\<close> and stays in RACING but has already recorded the result.
\<close>

theorem round_refusal_effect:
  "(case round_apply e r of
      (None, r') \<Rightarrow> True
    | (Some err, r') \<Rightarrow>
        (case e of
           EvFinishRace res now \<Rightarrow>
             if rnd_phase r = PhaseRacing \<and> res_FinishedAt res \<noteq> 0 \<and> now < rnd_phaseStart r
             then err = Sentinel (RoundErr ErrTimeGoesBack) \<and>
                  r' = r\<lparr>rnd_result := res, rnd_hasResult := True\<rparr>
             else r' = r
         | _ \<Rightarrow> r' = r))"
  by (cases e) (auto simp: round_ops)

end
