(* ===== verification/Rtp.thy ===== *)
theory Rtp
  imports Prelude
begin

text \<open>
  Package \<open>rtp\<close> (server/rtp/rtp.go): the winner's prize and the house cut of one round.
  The pot is summed with an overflow test per buy-in, the multiplication by the basis
  points is guarded, and the division rounds down, on 64-bit unsigned words throughout.
\<close>

section \<open>The code\<close>

definition BasisPoints :: u32 where
  "BasisPoints = 10000"

record rtp_config =
  RTPBasisPoints :: u32

text \<open>The loop over the buy-ins; \<^term>\<open>None\<close> is the \<open>ErrPotOverflow\<close> return.\<close>

fun pot_total :: "u64 \<Rightarrow> u64 list \<Rightarrow> u64 option" where
  "pot_total t [] = Some t"
| "pot_total t (b # bs) =
     (if MaxUint64 - b < t then None else pot_total (t + b) bs)"

definition settle :: "rtp_config \<Rightarrow> u64 list \<Rightarrow> int \<Rightarrow> gerr + (u64 \<times> u64)" where
  "settle cfg buyIns winnerIndex =
     (if BasisPoints < RTPBasisPoints cfg then Inl (Wrapf ''got %d'' (Sentinel (RtpErr ErrRTPOutOfRange)))
      else if length buyIns = 0 then Inl (Sentinel (RtpErr ErrNoBuyIns))
      else if winnerIndex < 0 \<or> int (length buyIns) \<le> winnerIndex
        then Inl (Wrapf ''got %d, have %d buy-ins'' (Sentinel (RtpErr ErrWinnerIndex)))
      else (case pot_total 0 buyIns of
          None \<Rightarrow> Inl (Sentinel (RtpErr ErrPotOverflow))
        | Some tot \<Rightarrow>
            if 0 < RTPBasisPoints cfg \<and> MaxUint64 div ucast (RTPBasisPoints cfg) < tot
            then Inl (Sentinel (RtpErr ErrPrizeOverflow))
            else (let prize = tot * ucast (RTPBasisPoints cfg) div ucast BasisPoints;
                      houseCut = tot - prize
                  in Inr (prize, houseCut))))"

section \<open>The pot\<close>

abbreviation pot :: "u64 list \<Rightarrow> nat" where
  "pot bs \<equiv> sum_list (map unat bs)"

lemma pot_total_eq:
  "pot_total t bs = (if unat t + pot bs < two64 then Some (of_nat (unat t + pot bs)) else None)"
proof (induction bs arbitrary: t)
  case Nil
  then show ?case using unat64_lt [of t] by simp
next
  case (Cons b bs)
  show ?case
  proof (cases "unat t + unat b < two64")
    case False
    then show ?thesis by (simp add: u64_add_overflow_iff)
  next
    case True
    with Cons.IH [of "t + b"] show ?thesis
      by (simp add: u64_add_no_overflow u64_add_overflow_iff add.assoc)
  qed
qed

lemma pot_total_Some: "pot_total 0 bs = Some t \<Longrightarrow> unat t = pot bs \<and> pot bs < two64"
  by (auto simp: pot_total_eq unat_of_nat split: if_splits)

section \<open>The abstract specification\<close>

text \<open>What a settlement is on natural numbers, with every failure in the code's order.\<close>

definition settle_spec :: "nat \<Rightarrow> nat list \<Rightarrow> int \<Rightarrow> rtp_sentinel + (nat \<times> nat)" where
  "settle_spec bps stakes w =
     (if 10000 < bps then Inl ErrRTPOutOfRange
      else if stakes = [] then Inl ErrNoBuyIns
      else if w < 0 \<or> int (length stakes) \<le> w then Inl ErrWinnerIndex
      else if two64 \<le> sum_list stakes then Inl ErrPotOverflow
      else if two64 \<le> sum_list stakes * bps then Inl ErrPrizeOverflow
      else Inr (sum_list stakes * bps div 10000,
                sum_list stakes - sum_list stakes * bps div 10000))"

text \<open>
  How a result of the code reads in the specification; an error that is none of the
  package's sentinels reads as \<^term>\<open>None\<close>, which the specification never returns.
\<close>

definition abs_settle :: "gerr + (u64 \<times> u64) \<Rightarrow> rtp_sentinel option + (nat \<times> nat)" where
  "abs_settle r = (case r of
      Inr (p, h) \<Rightarrow> Inr (unat p, unat h)
    | Inl (Sentinel (RtpErr s)) \<Rightarrow> Inl (Some s)
    | Inl (Wrapf _ (Sentinel (RtpErr s))) \<Rightarrow> Inl (Some s)
    | Inl _ \<Rightarrow> Inl None)"

lemma unat_ucast_bps [simp]: "unat (ucast (b :: u32) :: u64) = unat b"
proof -
  have "unat b < 2 ^ 64"
    using unsigned_less [of b, where ?'a = nat] by simp
  then show ?thesis
    by (simp add: unsigned_ucast_eq take_bit_nat_eq_self)
qed

text \<open>The prize and the house cut of a pot whose product fits.\<close>

lemma settle_prize_unat:
  fixes t :: u64 and b :: u32
  assumes "unat b \<le> 10000" and "unat t * unat b < two64"
  defines "prize \<equiv> t * ucast b div 10000"
  shows "unat prize = unat t * unat b div 10000"
    and "unat (t - prize) = unat t - unat t * unat b div 10000"
proof -
  show p: "unat prize = unat t * unat b div 10000"
    using assms(2) by (simp add: prize_def unat_div u64_mult_no_overflow)
  have "unat t * unat b div 10000 \<le> unat t * 10000 div 10000"
    using assms(1) by (intro div_le_mono mult_le_mono) auto
  then have "prize \<le> t"
    by (simp add: p word_le_nat_alt)
  then show "unat (t - prize) = unat t - unat t * unat b div 10000"
    by (simp add: unat_sub p)
qed

lemma settle_refines_spec_aux:
  "abs_settle (settle cfg bs w) =
     map_sum Some id (settle_spec (unat (RTPBasisPoints cfg)) (map unat bs) w)"
proof (cases "unat (RTPBasisPoints cfg) \<le> 10000 \<and> bs \<noteq> [] \<and> 0 \<le> w \<and> w < int (length bs)")
  case False
  then show ?thesis
    by (auto simp: settle_def settle_spec_def abs_settle_def BasisPoints_def word_less_nat_alt)
next
  case True
  let ?b = "RTPBasisPoints cfg"
  show ?thesis
  proof (cases "pot bs < two64")
    case False
    with True show ?thesis
      by (auto simp: settle_def settle_spec_def abs_settle_def BasisPoints_def word_less_nat_alt
          pot_total_eq)
  next
    case fits: True
    define t where "t = (of_nat (pot bs) :: u64)"
    have t: "unat t = pot bs"
      using fits by (simp add: t_def unat_of_nat)
    have tot: "pot_total 0 bs = Some t"
      using fits by (simp add: pot_total_eq t_def)
    have ovf: "0 < ?b \<and> MaxUint64 div ucast ?b < t \<longleftrightarrow> two64 \<le> pot bs * unat ?b"
      using u64_mult_overflow_iff [of "ucast ?b" t] t
      by (cases "unat ?b = 0") (auto simp: word_less_nat_alt)
    show ?thesis
    proof (cases "two64 \<le> pot bs * unat ?b")
      case True': True
      with True fits tot ovf show ?thesis
        by (simp add: settle_def settle_spec_def abs_settle_def BasisPoints_def
            word_less_nat_alt not_le not_less)
    next
      case False
      with True fits tot ovf t settle_prize_unat [of ?b t] show ?thesis
        by (simp add: settle_def settle_spec_def abs_settle_def BasisPoints_def
            word_less_nat_alt not_le not_less Let_def)
    qed
  qed
qed

lemma settle_Inr_iff:
  "settle cfg bs w = Inr (p, h) \<longleftrightarrow>
     (unat (RTPBasisPoints cfg) \<le> 10000 \<and> 0 \<le> w \<and> w < int (length bs) \<and>
      pot bs < two64 \<and> pot bs * unat (RTPBasisPoints cfg) < two64 \<and>
      unat p = pot bs * unat (RTPBasisPoints cfg) div 10000 \<and> unat h = pot bs - unat p)"
proof -
  have "settle cfg bs w = Inr (p, h) \<longleftrightarrow> abs_settle (settle cfg bs w) = Inr (unat p, unat h)"
    by (auto simp: abs_settle_def word_unat_eq_iff
        split: sum.splits prod.splits gerr.splits sentinel.splits)
  also have "\<dots> \<longleftrightarrow> settle_spec (unat (RTPBasisPoints cfg)) (map unat bs) w = Inr (unat p, unat h)"
    by (auto simp: settle_refines_spec_aux map_sum_def split: sum.splits)
  finally show ?thesis
    by (auto simp: settle_spec_def not_le split: if_splits)
qed

text \<open>
  C7: the settlement computed on wrapping 64-bit words, with its two overflow tests, is the
  settlement on unbounded naturals: the prize is the pot times the basis points over 10000
  rounded down, the house cut is the exact remainder, and each of the five errors is
  returned exactly in its case (an out-of-range rate, no buy-ins, a bad winner, a pot or a
  product that does not fit).
\<close>

theorem settle_refines_spec:
  "abs_settle (settle cfg bs w) =
     map_sum Some id (settle_spec (unat (RTPBasisPoints cfg)) (map unat bs) w)"
  by (rule settle_refines_spec_aux)

lemma settle_conserves_aux:
  assumes "settle cfg bs w = Inr (prize, houseCut)"
  shows "unat prize + unat houseCut = pot bs"
    and "unat prize * 10000 \<le> pot bs * unat (RTPBasisPoints cfg)"
    and "pot bs * unat (RTPBasisPoints cfg) < (unat prize + 1) * 10000"
proof -
  from assms have b: "unat (RTPBasisPoints cfg) \<le> 10000"
    and p: "unat prize = pot bs * unat (RTPBasisPoints cfg) div 10000"
    and h: "unat houseCut = pot bs - unat prize"
    by (auto simp: settle_Inr_iff)
  have "unat prize \<le> pot bs * 10000 div 10000"
    unfolding p using b by (intro div_le_mono mult_le_mono) auto
  with h show "unat prize + unat houseCut = pot bs" by simp
  show "unat prize * 10000 \<le> pot bs * unat (RTPBasisPoints cfg)"
    unfolding p by (rule div_times_less_eq_dividend)
  show "pot bs * unat (RTPBasisPoints cfg) < (unat prize + 1) * 10000"
    using dividend_less_div_times [of 10000 "pot bs * unat (RTPBasisPoints cfg)"]
    unfolding p by simp
qed

text \<open>
  No unit of the pot is created or lost by a settlement, and the winner is paid at most
  the configured rate and less than one unit below it.
\<close>

theorem settle_conserves:
  assumes "settle cfg bs w = Inr (prize, houseCut)"
  shows "unat prize + unat houseCut = pot bs \<and>
    unat prize * 10000 \<le> pot bs * unat (RTPBasisPoints cfg) \<and>
    pot bs * unat (RTPBasisPoints cfg) < (unat prize + 1) * 10000"
  using settle_conserves_aux [OF assms] by blast

theorem settle_conserves_witness:
  "unat (9500 :: u64) + unat (501 :: u64) = pot [5000, 4001, 1000]"
  using settle_conserves [of "\<lparr>RTPBasisPoints = 9500\<rparr>" "[5000, 4001, 1000]" 2 9500 501]
  by (simp add: settle_def BasisPoints_def MaxUint64_def)

end
