(* ===== verification/Track_Select.thy ===== *)
theory Track_Select
  imports Go_Bytes
begin

text \<open>
  Track rotation: the 64-bit FNV-1a hash (\<open>hash/fnv\<close>) of the big-endian round id picks a
  track of the pool and the next one is taken when it would repeat the previous round's.
  The code exists twice, as \<open>Manager.selectTrack\<close> (server/rgs/manager.go) and as
  \<open>selectTrack\<close> of cmd/roundd, "kept identical".
\<close>

unbundle bit_operations_syntax

section \<open>FNV-1a\<close>

definition fnv64a :: "byte list \<Rightarrow> u64" where
  "fnv64a bs = foldl (\<lambda>h b. (h XOR ucast b) * 1099511628211) 14695981039346656037 bs"

section \<open>The selectors\<close>

text \<open>
  \<^term>\<open>None\<close> is the run-time panic: \<open>% uint64(len(pool))\<close> divides by zero on an empty pool.
  \<open>len\<close> and the indices are \<open>int\<close>, the hash and the modulus \<open>uint64\<close>.
\<close>

definition mgr_select_track :: "u8 list \<Rightarrow> u64 \<Rightarrow> int \<Rightarrow> u8 option" where
  "mgr_select_track pool roundID previousTrack =
     (if length pool = 1 then Some (pool ! 0)
      else if length pool = 0 then None
      else (let candidate = unat (fnv64a (be64 roundID) mod of_nat (length pool));
                candidate' = (if uint (pool ! candidate) = previousTrack
                              then (candidate + 1) mod length pool else candidate)
            in Some (pool ! candidate')))"

definition roundd_select_track :: "u64 \<Rightarrow> int \<Rightarrow> u8 list \<Rightarrow> u8 option" where
  "roundd_select_track roundID previousTrack pool =
     (if length pool = 1 then Some (pool ! 0)
      else if length pool = 0 then None
      else (let candidate = unat (fnv64a (be64 roundID) mod of_nat (length pool));
                candidate' = (if uint (pool ! candidate) = previousTrack
                              then (candidate + 1) mod length pool else candidate)
            in Some (pool ! candidate')))"

definition selectableTrackIDs :: "u8 list" where
  "selectableTrackIDs = [0, 1, 2, 3, 4, 5]"

lemma select_track_agree: "mgr_select_track pool r t = roundd_select_track r t pool"
  by (simp add: mgr_select_track_def roundd_select_track_def)

lemma hash_mod_lt:
  assumes "pool \<noteq> []" and "length pool < two64"
  shows "unat (h mod of_nat (length pool) :: u64) < length pool"
proof -
  have "unat (of_nat (length pool) :: u64) = length pool"
    using assms by (simp add: unat_of_nat)
  with assms show ?thesis by (simp add: unat_mod)
qed

text \<open>Stepping to the next index of a pool without duplicates reaches another track.\<close>

lemma next_index_differs:
  assumes "distinct pool" and "1 < length pool" and "c < length pool"
  shows "(c + 1) mod length pool < length pool \<and> pool ! ((c + 1) mod length pool) \<noteq> pool ! c"
proof -
  have "0 < length pool" using assms(2) by linarith
  then have "(c + 1) mod length pool < length pool" by (rule mod_less_divisor)
  moreover have "(c + 1) mod length pool \<noteq> c"
    using assms by (cases "c + 1 = length pool") auto
  ultimately show ?thesis
    using assms by (simp add: nth_eq_iff_index_eq)
qed

lemma select_track_in_pool:
  assumes "pool \<noteq> []" and "length pool < two64"
  obtains t where "mgr_select_track pool r prev = Some t" and "t \<in> set pool"
proof (cases "length pool = 1")
  case True
  then show ?thesis using that by (auto simp: mgr_select_track_def)
next
  case False
  have "unat (fnv64a (be64 r) mod of_nat (length pool)) < length pool"
    using assms by (rule hash_mod_lt)
  with assms False that show ?thesis
    by (simp add: mgr_select_track_def Let_def split: if_splits)
qed

lemma select_track_differs:
  assumes "distinct pool" and "1 < length pool" and "length pool < two64"
    and "mgr_select_track pool r prev = Some t"
  shows "uint t \<noteq> prev"
proof -
  define c where "c = unat (fnv64a (be64 r) mod of_nat (length pool))"
  have c: "c < length pool"
    unfolding c_def using assms(2,3) by (intro hash_mod_lt) auto
  have "t = pool ! (if uint (pool ! c) = prev then (c + 1) mod length pool else c)"
    using assms(2,4) unfolding mgr_select_track_def c_def Let_def by (simp split: if_splits)
  then show ?thesis
    using next_index_differs [OF assms(1,2) c] by (auto simp: word_uint_eq_iff split: if_splits)
qed

text \<open>
  With a pool of at least two distinct tracks the selector returns a track of the pool
  that is not the previous round's, for every round id; both copies of the code agree.
\<close>

theorem select_track_no_repeat:
  assumes "distinct pool" and "1 < length pool" and "length pool < two64"
  shows "\<exists>t. mgr_select_track pool r prev = Some t \<and> roundd_select_track r prev pool = Some t \<and>
    t \<in> set pool \<and> uint t \<noteq> prev"
proof -
  have "pool \<noteq> []" using assms(2) by auto
  then obtain t where "mgr_select_track pool r prev = Some t" and "t \<in> set pool"
    using select_track_in_pool assms(3) by blast
  with select_track_differs [OF assms this(1)] show ?thesis
    by (auto simp: select_track_agree)
qed

theorem select_track_no_repeat_witness:
  "\<exists>t. roundd_select_track 1777370123456700000 3 selectableTrackIDs = Some t \<and> uint t \<noteq> 3"
  using select_track_no_repeat [of selectableTrackIDs 1777370123456700000 3]
  by (auto simp: selectableTrackIDs_def)

end
