(* ===== verification/Replay_Store.thy ===== *)
theory Replay_Store
  imports Sha256 "HOL-Library.AList"
begin

text \<open>
  The audit store of package \<open>replay\<close> (server/replay/store.go).  The store root is a
  directory, a list of named entries; a round is a subdirectory with the two files of the
  store.  \<open>Save\<close> is a sequence of system calls: its model returns, beside the error, the
  disk after each of them, so that a crash at any point is an element of that list, and an
  oracle decides which call fails.  A manifest file written by the store is kept as the
  document that \<open>encoding/json\<close> encoded; any other content is raw bytes, whose parsing is a
  parameter.
\<close>

section \<open>Data\<close>

record mf_participant =
  mp_MarbleIndex :: int
  mp_Name :: string
  mp_ClientSeed :: string

record mf_winner =
  mw_MarbleIndex :: int
  mw_FinishTick :: int

record manifest =
  mf_RoundID :: u64
  mf_CreatedAt :: gtime
  mf_ProtocolVersion :: int
  mf_TickRateHz :: int
  mf_TrackID :: u8
  mf_ServerSeedHashHex :: string
  mf_ServerSeedHex :: string
  mf_Participants :: "mf_participant list"
  mf_Winner :: mf_winner
  mf_ReplaySHA256Hex :: string

datatype doc = JsonOf manifest | RawDoc "byte list"

record round_dir =
  rd_replay :: "byte list option"
  rd_manifest :: "doc option"

datatype dirent = Directory round_dir | NonDir

type_synonym disk = "(string \<times> dirent) list"

section \<open>System calls\<close>

text \<open>
  One \<open>Save\<close> in its environment: the calls that fail, the suffix that \<open>MkdirTemp\<close> settles for (it
  tries others while a name is taken, and gives up with the error of the last one), the content of a file while it is being written, and the clock.
\<close>

datatype save_call =
    StatDir | MkdirTemp | CreateReplay | CopyReplay | SyncReplay
  | CreateManifest | EncodeManifest | SyncManifest | RenameDir | RemoveTmp

record save_env =
  se_fault :: "save_call \<Rightarrow> gerr option"
  se_suffix :: string
  se_partial :: "byte list"
  se_partial_doc :: "byte list"
  se_now :: gtime

definition os_stat :: "save_env \<Rightarrow> string \<Rightarrow> disk \<Rightarrow> gerr option" where
  "os_stat env name fs =
     (case se_fault env StatDir of
        Some e \<Rightarrow> Some e
      | None \<Rightarrow> if map_of fs name = None then Some (Sentinel (StdErr ErrNotExist)) else None)"

definition os_mkdir :: "save_env \<Rightarrow> string \<Rightarrow> disk \<Rightarrow> gerr + disk" where
  "os_mkdir env name fs =
     (case se_fault env MkdirTemp of
        Some e \<Rightarrow> Inl e
      | None \<Rightarrow> if map_of fs name \<noteq> None then Inl (Errorf ''file exists'')
                else Inr ((name, Directory \<lparr>rd_replay = None, rd_manifest = None\<rparr>) # fs))"

text \<open>Go's \<open>os.Rename\<close> refuses a target that is a directory, the kernel one that is a file.\<close>

definition os_rename :: "save_env \<Rightarrow> string \<Rightarrow> string \<Rightarrow> disk \<Rightarrow> gerr + disk" where
  "os_rename env old new fs =
     (case se_fault env RenameDir of
        Some e \<Rightarrow> Inl e
      | None \<Rightarrow>
          if map_of fs new \<noteq> None then Inl (Errorf ''file exists'')
          else (case map_of fs old of
                  None \<Rightarrow> Inl (Sentinel (StdErr ErrNotExist))
                | Some d \<Rightarrow> Inr ((new, d) # AList.delete old fs)))"

definition os_remove_all :: "save_env \<Rightarrow> string \<Rightarrow> disk \<Rightarrow> disk" where
  "os_remove_all env name fs = (if se_fault env RemoveTmp = None then AList.delete name fs else fs)"

definition in_dir :: "(round_dir \<Rightarrow> round_dir) \<Rightarrow> string \<Rightarrow> disk \<Rightarrow> disk" where
  "in_dir f name fs =
     (case map_of fs name of
        Some (Directory d) \<Rightarrow> AList.update name (Directory (f d)) fs
      | _ \<Rightarrow> fs)"

section \<open>Saving\<close>

definition validateManifestForSave :: "manifest option \<Rightarrow> gerr option" where
  "validateManifestForSave m =
     (case m of
        None \<Rightarrow> Some (Wrapf ''manifest is nil'' (Sentinel (ReplayErr ErrInvalidManifest)))
      | Some mf \<Rightarrow>
          if mf_RoundID mf = 0 then Some (Wrapf ''round_id'' (Sentinel (ReplayErr ErrInvalidManifest)))
          else if mf_ServerSeedHashHex mf = [] then Some (Wrapf ''server_seed_hash_hex'' (Sentinel (ReplayErr ErrInvalidManifest)))
          else if mf_ServerSeedHex mf = [] then Some (Wrapf ''server_seed_hex (must be revealed before Save)'' (Sentinel (ReplayErr ErrInvalidManifest)))
          else if mf_Participants mf = [] then Some (Wrapf ''participants'' (Sentinel (ReplayErr ErrInvalidManifest)))
          else None)"

definition roundDir :: "u64 \<Rightarrow> string" where
  "roundDir rid = format_uint rid"

text \<open>The result of a helper is its error or value and the disks it went through.\<close>

definition copyWithSHA256 :: "save_env \<Rightarrow> byte list \<Rightarrow> string \<Rightarrow> disk \<Rightarrow> (gerr + byte list) \<times> disk list" where
  "copyWithSHA256 env src tmpDir fs =
     (let created = in_dir (\<lambda>d. d\<lparr>rd_replay := Some []\<rparr>) tmpDir fs;
          copying = in_dir (\<lambda>d. d\<lparr>rd_replay := Some (se_partial env)\<rparr>) tmpDir fs;
          copied = in_dir (\<lambda>d. d\<lparr>rd_replay := Some src\<rparr>) tmpDir fs
      in case se_fault env CreateReplay of
           Some e \<Rightarrow> (Inl e, [fs])
         | None \<Rightarrow>
             (case se_fault env CopyReplay of
                Some e \<Rightarrow> (Inl e, [created, copying])
              | None \<Rightarrow>
                  (case se_fault env SyncReplay of
                     Some e \<Rightarrow> (Inl e, [created, copying, copied])
                   | None \<Rightarrow> (Inr (sha256 src), [created, copying, copied]))))"

definition writeJSONFile :: "save_env \<Rightarrow> manifest \<Rightarrow> string \<Rightarrow> disk \<Rightarrow> gerr option \<times> disk list" where
  "writeJSONFile env v tmpDir fs =
     (let created = in_dir (\<lambda>d. d\<lparr>rd_manifest := Some (RawDoc [])\<rparr>) tmpDir fs;
          encoding = in_dir (\<lambda>d. d\<lparr>rd_manifest := Some (RawDoc (se_partial_doc env))\<rparr>) tmpDir fs;
          encoded = in_dir (\<lambda>d. d\<lparr>rd_manifest := Some (JsonOf v)\<rparr>) tmpDir fs
      in case se_fault env CreateManifest of
           Some e \<Rightarrow> (Some e, [fs])
         | None \<Rightarrow>
             (case se_fault env EncodeManifest of
                Some e \<Rightarrow> (Some e, [created, encoding])
              | None \<Rightarrow> (se_fault env SyncManifest, [created, encoding, encoded])))"

text \<open>The deferred clean-up of every return after the temporary directory exists.\<close>

definition cleanup_tmp :: "save_env \<Rightarrow> string \<Rightarrow> disk list \<Rightarrow> disk list" where
  "cleanup_tmp env tmpDir tr = tr @ [os_remove_all env tmpDir (last tr)]"

definition tmp_name :: "save_env \<Rightarrow> u64 \<Rightarrow> string" where
  "tmp_name env rid = ''pending-'' @ format_uint rid @ ''-'' @ se_suffix env"

definition Save :: "save_env \<Rightarrow> manifest option \<Rightarrow> byte list \<Rightarrow> disk \<Rightarrow> gerr option \<times> manifest option \<times> disk list" where
  "Save env m replay fs =
     (case validateManifestForSave m of
        Some e \<Rightarrow> (Some e, m, [fs])
      | None \<Rightarrow>
     (let mf = the m; dir = roundDir (mf_RoundID mf); tmpDir = tmp_name env (mf_RoundID mf) in
      case os_stat env dir fs of
        None \<Rightarrow> (Some (Wrapf ''round_id'' (Sentinel (ReplayErr ErrReplayRoundExists))), m, [fs])
      | Some se \<Rightarrow>
          if \<not> errors_is se (StdErr ErrNotExist) then (Some (Wrapf ''replay: stat round dir'' se), m, [fs])
          else
     (case os_mkdir env tmpDir fs of
        Inl e \<Rightarrow> (Some (Wrapf ''replay: mkdir temp'' e), m, [fs])
      | Inr fs1 \<Rightarrow>
     (case copyWithSHA256 env replay tmpDir fs1 of
        (Inl e, tr1) \<Rightarrow>
          (Some (Wrapf ''replay: write replay.bin'' e), m, cleanup_tmp env tmpDir ([fs, fs1] @ tr1))
      | (Inr digest, tr1) \<Rightarrow>
     (let mf1 = mf\<lparr>mf_ReplaySHA256Hex := hex_encode digest\<rparr>;
          mf2 = (if mf_CreatedAt mf1 = 0 then mf1\<lparr>mf_CreatedAt := se_now env\<rparr> else mf1) in
      case writeJSONFile env mf2 tmpDir (last tr1) of
        (Some e, tr2) \<Rightarrow>
          (Some (Wrapf ''replay: write manifest'' e), Some mf2, cleanup_tmp env tmpDir ([fs, fs1] @ tr1 @ tr2))
      | (None, tr2) \<Rightarrow>
     (case os_rename env tmpDir dir (last tr2) of
        Inl e \<Rightarrow>
          (Some (Wrapf ''replay: finalize round dir'' e), Some mf2, cleanup_tmp env tmpDir ([fs, fs1] @ tr1 @ tr2))
      | Inr fs2 \<Rightarrow> (None, Some mf2, [fs, fs1] @ tr1 @ tr2 @ [fs2])))))))"

section \<open>Reading\<close>

datatype read_call = ReadRoot | ReadManifest | OpenReplay | HashReplay

definition Load :: "(byte list \<Rightarrow> gerr + manifest) \<Rightarrow> (read_call \<Rightarrow> gerr option) \<Rightarrow> u64 \<Rightarrow> disk \<Rightarrow>
    gerr + (manifest \<times> string)" where
  "Load parse rd rid fs =
     (case (case rd ReadManifest of
              Some e \<Rightarrow> Inl e
            | None \<Rightarrow>
                (case map_of fs (roundDir rid) of
                   None \<Rightarrow> Inl (Sentinel (StdErr ErrNotExist))
                 | Some NonDir \<Rightarrow> Inl (Errorf ''not a directory'')
                 | Some (Directory d) \<Rightarrow>
                     (case rd_manifest d of
                        None \<Rightarrow> Inl (Sentinel (StdErr ErrNotExist))
                      | Some b \<Rightarrow> Inr b))) of
        Inl e \<Rightarrow>
          if errors_is e (StdErr ErrNotExist) then Inl (Wrapf ''round_id'' (Sentinel (ReplayErr ErrRoundMissing)))
          else Inl (Wrapf ''replay: read manifest'' e)
      | Inr b \<Rightarrow>
          (case (case b of JsonOf m \<Rightarrow> Inr m | RawDoc bs \<Rightarrow> parse bs) of
             Inl e \<Rightarrow> Inl (Wrapf ''replay: parse manifest'' e)
           | Inr m \<Rightarrow> Inr (m, roundDir rid @ ''/replay.bin'')))"

definition replay_bin :: "u64 \<Rightarrow> disk \<Rightarrow> byte list option" where
  "replay_bin rid fs =
     (case map_of fs (roundDir rid) of Some (Directory d) \<Rightarrow> rd_replay d | _ \<Rightarrow> None)"

definition hash_replay :: "(read_call \<Rightarrow> gerr option) \<Rightarrow> u64 \<Rightarrow> manifest \<Rightarrow> disk \<Rightarrow> gerr option" where
  "hash_replay rd rid m fs =
     (case (case rd OpenReplay of
              Some e \<Rightarrow> Inl e
            | None \<Rightarrow> (case replay_bin rid fs of
                 None \<Rightarrow> Inl (Sentinel (StdErr ErrNotExist)) | Some b \<Rightarrow> Inr b)) of
        Inl e \<Rightarrow> Some (Wrapf ''replay: open replay.bin'' e)
      | Inr b \<Rightarrow>
          (case rd HashReplay of
             Some e \<Rightarrow> Some (Wrapf ''replay: hash replay.bin'' e)
           | None \<Rightarrow>
               if hex_encode (sha256 b) \<noteq> mf_ReplaySHA256Hex m
               then Some (Wrapf ''round_id'' (Sentinel (ReplayErr ErrChecksumMismatch)))
               else None))"

definition Verify :: "(byte list \<Rightarrow> gerr + manifest) \<Rightarrow> (read_call \<Rightarrow> gerr option) \<Rightarrow> u64 \<Rightarrow> disk \<Rightarrow>
    gerr option" where
  "Verify parse rd rid fs =
     (case Load parse rd rid fs of
        Inl e \<Rightarrow> Some e
      | Inr (m, replayPath) \<Rightarrow> hash_replay rd rid m fs)"

fun list_entries :: "disk \<Rightarrow> u64 list" where
  "list_entries [] = []"
| "list_entries ((name, d) # es) =
     (if d = NonDir then list_entries es
      else (case parse_uint name of Inl e \<Rightarrow> list_entries es | Inr n \<Rightarrow> n # list_entries es))"

definition ListRounds :: "(read_call \<Rightarrow> gerr option) \<Rightarrow> disk \<Rightarrow> gerr + u64 list" where
  "ListRounds rd fs =
     (case rd ReadRoot of
        Some e \<Rightarrow> Inl (Wrapf ''replay: read root'' e)
      | None \<Rightarrow> Inr (sort (list_entries fs)))"

section \<open>One save\<close>

text \<open>The disks agree on every entry but one, and names stay unique.\<close>

definition same_but :: "string \<Rightarrow> disk \<Rightarrow> disk \<Rightarrow> bool" where
  "same_but n fs st \<longleftrightarrow> (\<forall>x. x \<noteq> n \<longrightarrow> map_of st x = map_of fs x) \<and>
     (distinct (map fst fs) \<longrightarrow> distinct (map fst st))"

lemma same_but_refl [simp, intro]: "same_but n fs fs"
  by (simp add: same_but_def)

lemma same_but_trans: "same_but n fs st \<Longrightarrow> same_but n st st' \<Longrightarrow> same_but n fs st'"
  by (simp add: same_but_def)

lemma map_of_in_dir:
  "map_of (in_dir f n fs) x = (if x = n then
     (case map_of fs n of Some (Directory d) \<Rightarrow> Some (Directory (f d)) | other \<Rightarrow> other) else map_of fs x)"
  by (auto simp: in_dir_def update_conv' split: option.split dirent.split)

lemma same_but_in_dir [simp]: "same_but n fs st \<Longrightarrow> same_but n fs (in_dir f n st)"
  unfolding same_but_def map_of_in_dir
  by (auto simp: in_dir_def distinct_update split: option.split dirent.split)

lemma same_but_remove [simp]: "same_but n fs st \<Longrightarrow> same_but n fs (os_remove_all env n st)"
  by (auto simp: same_but_def os_remove_all_def delete_conv' distinct_delete)

lemma os_mkdir_same: "os_mkdir env n fs = Inr st \<Longrightarrow> same_but n fs st"
  by (auto simp: os_mkdir_def same_but_def map_of_eq_None_iff split: option.splits if_splits)

text \<open>A piece of a run that touches nothing but the temporary entry.\<close>

definition quiet :: "string \<Rightarrow> disk \<Rightarrow> disk list \<Rightarrow> bool" where
  "quiet n fs tr \<longleftrightarrow> tr \<noteq> [] \<and> (\<forall>st \<in> set tr. same_but n fs st)"

lemma quiet_last: "quiet n fs tr \<Longrightarrow> same_but n fs (last tr)"
  by (simp add: quiet_def)

lemma quiet_append: "quiet n fs xs \<Longrightarrow> quiet n fs ys \<Longrightarrow> quiet n fs (xs @ ys)"
  by (auto simp: quiet_def)

lemma quiet_cleanup: "quiet n fs tr \<Longrightarrow> quiet n fs (cleanup_tmp env n tr)"
  by (auto simp: quiet_def cleanup_tmp_def)

lemma quiet_copy:
  assumes "copyWithSHA256 env src n st = (res, tr)" and "same_but n fs st"
  shows "quiet n fs tr"
  using assms by (auto simp: copyWithSHA256_def Let_def quiet_def split: option.splits)

lemma quiet_json:
  assumes "writeJSONFile env v n st = (res, tr)" and "same_but n fs st"
  shows "quiet n fs tr"
  using assms by (auto simp: writeJSONFile_def Let_def quiet_def split: option.splits)

lemma tmp_not_number: "tmp_name env rid \<noteq> format_uint k"
proof
  assume "tmp_name env rid = format_uint k"
  moreover have "is_digit c" if "c \<in> set (format_uint k)" for c
    using that by (simp add: format_uint_def format_nat_digits)
  moreover have "CHR ''p'' \<in> set (tmp_name env rid)" by (simp add: tmp_name_def)
  ultimately have "is_digit (CHR ''p'')" by metis
  then show False by (simp add: is_digit_def)
qed

lemma round_names [simp]:
  "tmp_name env rid \<noteq> roundDir k" "roundDir k \<noteq> tmp_name env rid"
  "roundDir j = roundDir k \<longleftrightarrow> j = k"
  using tmp_not_number [of env rid k] by (auto simp: roundDir_def)

text \<open>A round as the store promises it: both files, and the checksum in the manifest.\<close>

definition stored :: "manifest \<Rightarrow> byte list \<Rightarrow> dirent" where
  "stored m b = Directory \<lparr>rd_replay = Some b, rd_manifest = Some (JsonOf m)\<rparr>"

definition stamped :: "save_env \<Rightarrow> byte list \<Rightarrow> manifest \<Rightarrow> manifest" where
  "stamped env b m = m\<lparr>mf_ReplaySHA256Hex := hex_encode (sha256 b),
     mf_CreatedAt := (if mf_CreatedAt m = 0 then se_now env else mf_CreatedAt m)\<rparr>"

lemma stamped_fields [simp]:
  "mf_RoundID (stamped env b m) = mf_RoundID m"
  "mf_ReplaySHA256Hex (stamped env b m) = hex_encode (sha256 b)"
  by (simp_all add: stamped_def)

lemma stamp_steps:
  "(if mf_CreatedAt (m\<lparr>mf_ReplaySHA256Hex := h\<rparr>) = 0
    then (m\<lparr>mf_ReplaySHA256Hex := h\<rparr>)\<lparr>mf_CreatedAt := t\<rparr> else m\<lparr>mf_ReplaySHA256Hex := h\<rparr>) =
   m\<lparr>mf_ReplaySHA256Hex := h, mf_CreatedAt := (if mf_CreatedAt m = 0 then t else mf_CreatedAt m)\<rparr>"
  by (cases m) simp

text \<open>What each stage leaves in the temporary directory when it succeeds.\<close>

lemma mkdir_entry:
  "os_mkdir env n fs = Inr st \<Longrightarrow> map_of st n = Some (Directory \<lparr>rd_replay = None, rd_manifest = None\<rparr>)"
  by (auto simp: os_mkdir_def split: option.splits if_splits)

lemma copy_entry:
  assumes "copyWithSHA256 env src n st = (Inr digest, tr)" and "map_of st n = Some (Directory d)"
  shows "digest = sha256 src \<and> map_of (last tr) n = Some (Directory (d\<lparr>rd_replay := Some src\<rparr>))"
  using assms by (auto simp: copyWithSHA256_def Let_def map_of_in_dir split: option.splits)

lemma json_entry:
  assumes "writeJSONFile env v n st = (None, tr)" and "map_of st n = Some (Directory d)"
  shows "map_of (last tr) n = Some (Directory (d\<lparr>rd_manifest := Some (JsonOf v)\<rparr>))"
  using assms by (auto simp: writeJSONFile_def Let_def map_of_in_dir split: option.splits)

lemma rename_entry:
  assumes "os_rename env old new st = Inr st'" and "map_of st old = Some d"
  shows "map_of st new = None \<and>
    (\<forall>x. map_of st' x = (if x = new then Some d else if x = old then None else map_of st x)) \<and>
    (distinct (map fst st) \<longrightarrow> distinct (map fst st'))"
proof -
  from assms have new: "map_of st new = None" and st': "st' = (new, d) # AList.delete old st"
    by (auto simp: os_rename_def split: option.splits if_splits)
  have "new \<notin> fst ` set st" using new by (simp add: map_of_eq_None_iff)
  then have "new \<notin> fst ` set (AList.delete old st)"
    by (auto simp: AList.delete_eq)
  then show ?thesis
    using new by (auto simp: st' delete_conv' distinct_delete)
qed

text \<open>
  Every disk a save goes through differs from the first one only in the temporary entry,
  except the last one of a success, where the round has appeared, complete.
\<close>

definition published :: "save_env \<Rightarrow> manifest \<Rightarrow> byte list \<Rightarrow> disk \<Rightarrow> disk \<Rightarrow> bool" where
  "published env mf b fs st \<longleftrightarrow> map_of fs (roundDir (mf_RoundID mf)) = None \<and>
     (\<forall>x. map_of st x =
        (if x = roundDir (mf_RoundID mf) then Some (stored (stamped env b mf) b)
         else if x = tmp_name env (mf_RoundID mf) then None else map_of fs x)) \<and>
     (distinct (map fst fs) \<longrightarrow> distinct (map fst st))"

definition saved_run :: "save_env \<Rightarrow> manifest \<Rightarrow> byte list \<Rightarrow> disk \<Rightarrow>
    gerr option \<times> manifest option \<times> disk list \<Rightarrow> bool" where
  "saved_run env mf b fs run = (case run of (res, m', tr) \<Rightarrow>
     (case res of
        Some e \<Rightarrow> quiet (tmp_name env (mf_RoundID mf)) fs tr
      | None \<Rightarrow> \<exists>tr0 st. tr = tr0 @ [st] \<and> quiet (tmp_name env (mf_RoundID mf)) fs tr0 \<and>
          m' = Some (stamped env b mf) \<and> published env mf b fs st))"

text \<open>What a save does once its temporary directory is there.\<close>

lemma Save_after_mkdir:
  assumes "validateManifestForSave (Some mf) = None"
    and "os_stat env (roundDir (mf_RoundID mf)) fs = Some se" and "errors_is se (StdErr ErrNotExist)"
    and mk: "os_mkdir env (tmp_name env (mf_RoundID mf)) fs = Inr fs1"
    and cp: "copyWithSHA256 env b (tmp_name env (mf_RoundID mf)) fs1 = (r1, tr1)"
    and js: "writeJSONFile env (stamped env b mf) (tmp_name env (mf_RoundID mf)) (last tr1) = (r2, tr2)"
  shows "Save env (Some mf) b fs =
    (case r1 of
       Inl e \<Rightarrow> (Some (Wrapf ''replay: write replay.bin'' e), Some mf,
           cleanup_tmp env (tmp_name env (mf_RoundID mf)) ([fs, fs1] @ tr1))
     | Inr digest \<Rightarrow>
         (case r2 of
            Some e \<Rightarrow> (Some (Wrapf ''replay: write manifest'' e), Some (stamped env b mf),
                cleanup_tmp env (tmp_name env (mf_RoundID mf)) ([fs, fs1] @ tr1 @ tr2))
          | None \<Rightarrow>
              (case os_rename env (tmp_name env (mf_RoundID mf)) (roundDir (mf_RoundID mf)) (last tr2) of
                 Inl e \<Rightarrow> (Some (Wrapf ''replay: finalize round dir'' e), Some (stamped env b mf),
                     cleanup_tmp env (tmp_name env (mf_RoundID mf)) ([fs, fs1] @ tr1 @ tr2))
               | Inr fs2 \<Rightarrow> (None, Some (stamped env b mf), ([fs, fs1] @ tr1 @ tr2) @ [fs2]))))"
proof (cases r1)
  case (Inl e)
  with cp assms show ?thesis by (simp add: Save_def Let_def)
next
  case (Inr digest)
  with copy_entry [OF cp [unfolded Inr] mkdir_entry [OF mk]] have "digest = sha256 b" by simp
  with Inr cp assms js [unfolded stamped_def] show ?thesis
    by (cases "mf_CreatedAt mf = 0"; cases r2) (simp_all add: Save_def Let_def stamped_def split: sum.split)
qed

text \<open>The run from the temporary directory on.\<close>

lemma Save_files:
  assumes "validateManifestForSave (Some mf) = None"
    and "os_stat env (roundDir (mf_RoundID mf)) fs = Some se" and "errors_is se (StdErr ErrNotExist)"
    and mk: "os_mkdir env (tmp_name env (mf_RoundID mf)) fs = Inr fs1"
  shows "saved_run env mf b fs (Save env (Some mf) b fs)"
proof -
  define dir where "dir = roundDir (mf_RoundID mf)"
  define tmp where "tmp = tmp_name env (mf_RoundID mf)"
  define mf2 where "mf2 = stamped env b mf"
  note mk = mk [folded tmp_def]
  note defs = Save_def assms Let_def dir_def [symmetric] tmp_def [symmetric] saved_run_def
    stamped_def [symmetric]
  obtain r1 tr1 where cp: "copyWithSHA256 env b tmp fs1 = (r1, tr1)" by fastforce
  obtain r2 tr2 where js: "writeJSONFile env mf2 tmp (last tr1) = (r2, tr2)" by fastforce
  have s1: "same_but tmp fs fs1" by (rule os_mkdir_same [OF mk])
  have s2: "same_but tmp fs (last tr1)" by (rule quiet_last [OF quiet_copy [OF cp s1]])
  have s3: "same_but tmp fs (last tr2)" by (rule quiet_last [OF quiet_json [OF js s2]])
  have q1: "quiet tmp fs ([fs, fs1] @ tr1)"
    using s1 quiet_copy [OF cp s1] by (auto simp: quiet_def)
  have q2: "quiet tmp fs ([fs, fs1] @ tr1 @ tr2)"
    using quiet_append [OF q1 quiet_json [OF js s2]] by simp
  note run = Save_after_mkdir [OF assms(1-3) mk [unfolded tmp_def] cp [unfolded tmp_def] js [unfolded tmp_def mf2_def],
      folded tmp_def dir_def mf2_def]
  show ?thesis
  proof (cases "r1 = Inr (sha256 b) \<and> r2 = None \<and> (\<exists>fs2. os_rename env tmp dir (last tr2) = Inr fs2)")
    case False
    have dg: "digest = sha256 b" if "r1 = Inr digest" for digest
      using copy_entry [OF cp [unfolded that] mkdir_entry [OF mk]] by simp
    show ?thesis
      using False quiet_cleanup [OF q1] quiet_cleanup [OF q2] dg
      unfolding run saved_run_def tmp_def [symmetric] by (auto split: sum.splits option.splits)
  next
    case True
    then obtain fs2 where ok: "r1 = Inr (sha256 b)" "r2 = None" "os_rename env tmp dir (last tr2) = Inr fs2"
      by blast
    have d1: "map_of (last tr1) tmp = Some (Directory \<lparr>rd_replay = Some b, rd_manifest = None\<rparr>)"
      using copy_entry [OF cp [unfolded ok(1)] mkdir_entry [OF mk]] by simp
    have "dir \<noteq> tmp" by (simp add: dir_def tmp_def)
    then have "published env mf b fs fs2"
      using rename_entry [OF ok(3) json_entry [OF js [unfolded ok(2)] d1]] s3
      by (auto simp: published_def same_but_def stored_def mf2_def dir_def tmp_def)
    with ok q2 show ?thesis
      unfolding run saved_run_def tmp_def [symmetric] by (auto simp: mf2_def)
  qed
qed

text \<open>Every return of a save, with the disks it leaves behind.\<close>

lemma Save_run: "saved_run env mf b fs (Save env (Some mf) b fs)"
proof (cases "validateManifestForSave (Some mf)")
  case (Some e)
  then show ?thesis by (simp add: Save_def saved_run_def quiet_def)
next
  case None
  let ?mk = "os_mkdir env (tmp_name env (mf_RoundID mf)) fs"
  show ?thesis
  proof (cases "os_stat env (roundDir (mf_RoundID mf)) fs")
    case no_err: None
    with None show ?thesis by (simp add: Save_def Let_def saved_run_def quiet_def)
  next
    case (Some se)
    show ?thesis
    proof (cases "errors_is se (StdErr ErrNotExist) \<and> (\<exists>fs1. ?mk = Inr fs1)")
      case True
      with Some show ?thesis by (auto intro: Save_files [OF None])
    next
      case False
      then show ?thesis using None Some
        by (cases ?mk) (auto simp: Save_def Let_def saved_run_def quiet_def)
    qed
  qed
qed

text \<open>Whatever a save does, the rounds that are there stay.\<close>

definition keeps_rounds :: "disk \<Rightarrow> disk \<Rightarrow> bool" where
  "keeps_rounds fs fs' \<longleftrightarrow> (\<forall>k d. map_of fs (roundDir k) = Some d \<longrightarrow> map_of fs' (roundDir k) = Some d)"

lemma keeps_rounds_refl [simp]: "keeps_rounds fs fs"
  by (simp add: keeps_rounds_def)

lemma keeps_rounds_trans: "keeps_rounds fs gs \<Longrightarrow> keeps_rounds gs hs \<Longrightarrow> keeps_rounds fs hs"
  by (simp add: keeps_rounds_def)

lemma Save_keeps: "Save env (Some mf) b fs = (e, m', tr) \<Longrightarrow> keeps_rounds fs (last tr)"
  using Save_run [of env mf b fs] quiet_last [of "tmp_name env (mf_RoundID mf)" fs tr]
  by (auto simp: saved_run_def published_def keeps_rounds_def same_but_def split: option.splits)

section \<open>The store over time\<close>

text \<open>
  An event is one call of \<open>Save\<close> in any environment, left at any of its disks: the last one
  is the return, an earlier one is a crash of the process or the machine.
\<close>

type_synonym save_event = "save_env \<times> manifest option \<times> byte list \<times> nat"

fun store_step :: "disk \<Rightarrow> save_event \<Rightarrow> disk \<Rightarrow> bool" where
  "store_step fs (env, m, b, k) st =
     (case Save env m b fs of (_, _, tr) \<Rightarrow> k < length tr \<and> st = tr ! k)"

text \<open>
  Names are unique, and an entry is a complete round under its own number unless its name is no
  number: a temporary directory, or something of another program, as the \<open>.work\<close> directory that the
  daemons keep in the root of the store.
\<close>

lemma tmp_not_parsed:
  "parse_uint (tmp_name env rid) = Inl (Errorf ''invalid syntax'')"
  by (simp add: parse_uint_def tmp_name_def is_digit_def)

definition complete :: "u64 \<Rightarrow> dirent \<Rightarrow> bool" where
  "complete rid d \<longleftrightarrow> (\<exists>m b. d = stored m b \<and> mf_RoundID m = rid \<and> rid \<noteq> 0 \<and>
     mf_ReplaySHA256Hex m = hex_encode (sha256 b))"

definition store_inv :: "disk \<Rightarrow> bool" where
  "store_inv fs \<longleftrightarrow> distinct (map fst fs) \<and>
     (\<forall>(name, d) \<in> set fs. (\<exists>rid. name = roundDir rid \<and> complete rid d) \<or>
        (\<exists>e. parse_uint name = Inl e))"

lemma store_inv_map:
  assumes "distinct (map fst fs)"
  shows "store_inv fs \<longleftrightarrow> (\<forall>name d. map_of fs name = Some d \<longrightarrow>
    (\<exists>rid. name = roundDir rid \<and> complete rid d) \<or> (\<exists>e. parse_uint name = Inl e))"
  using assms by (fastforce simp: store_inv_def)

lemma store_inv_round:
  assumes "store_inv fs" and "map_of fs (roundDir rid) = Some d"
  shows "complete rid d"
proof -
  have "distinct (map fst fs)" using assms(1) by (simp add: store_inv_def)
  from assms(1) [unfolded store_inv_map [OF this]] assms(2)
  have "(\<exists>r. roundDir rid = roundDir r \<and> complete r d) \<or> (\<exists>e. parse_uint (roundDir rid) = Inl e)"
    by blast
  then show ?thesis by (auto simp: roundDir_def)
qed

lemma same_but_inv:
  assumes "store_inv fs" and "same_but (tmp_name env rid) fs st"
  shows "store_inv st"
proof -
  have d: "distinct (map fst fs)" using assms(1) by (simp add: store_inv_def)
  then have "distinct (map fst st)" using assms(2) by (simp add: same_but_def)
  with assms show ?thesis
    unfolding same_but_def store_inv_map [OF d] by (subst store_inv_map) (metis tmp_not_parsed)+
qed

lemma published_inv:
  assumes inv: "store_inv fs" and pub: "published env mf b fs st"
    and "validateManifestForSave (Some mf) = None"
  shows "store_inv st"
proof -
  have d: "distinct (map fst fs)" using inv by (simp add: store_inv_def)
  have "complete (mf_RoundID mf) (stored (stamped env b mf) b)"
    unfolding complete_def
    by (rule exI [of _ "stamped env b mf"], rule exI [of _ b])
      (use assms(3) in \<open>auto simp: validateManifestForSave_def split: if_splits\<close>)
  with inv pub d show ?thesis
    unfolding published_def store_inv_map [OF d] by (subst store_inv_map) auto
qed

lemma Save_trace_cases:
  assumes "Save env m b fs = (res, m', tr)" and "st \<in> set tr"
  shows "(\<exists>rid. same_but (tmp_name env rid) fs st) \<or>
    (\<exists>mf. m = Some mf \<and> validateManifestForSave m = None \<and> res = None \<and> st = last tr \<and>
       published env mf b fs st)"
proof (cases m)
  case None
  with assms show ?thesis by (auto simp: Save_def validateManifestForSave_def)
next
  case (Some mf)
  have "validateManifestForSave m = None" if "res = None"
    using assms(1) that by (auto simp: Save_def split: option.splits)
  moreover have "saved_run env mf b fs (res, m', tr)"
    using Save_run [of env mf b fs] assms(1) Some by simp
  ultimately show ?thesis
    using assms(2) Some by (auto simp: saved_run_def quiet_def split: option.splits)
qed

lemma store_step_inv:
  assumes "store_inv fs" and "store_step fs ev st"
  shows "store_inv st"
proof -
  obtain env m b k where ev: "ev = (env, m, b, k)" by (cases ev)
  obtain res m' tr where run: "Save env m b fs = (res, m', tr)" by (cases "Save env m b fs")
  with assms(2) ev have "st \<in> set tr" by auto
  from Save_trace_cases [OF run this] show ?thesis
    using assms(1) same_but_inv published_inv by blast
qed

interpretation store: invariant_system "\<lambda>fs. fs = []" store_step store_inv
proof (unfold_locales, goal_cases)
  case (1 fs)
  then show ?case by (simp add: store_inv_def)
next
  case (2 fs ev st)
  then show ?case by (rule store_step_inv)
qed

text \<open>A returned save is one of its events.\<close>

lemma Save_returns: "Save env (Some mf) b fs = (e, m', tr) \<Longrightarrow> last tr \<in> set tr"
  using Save_run [of env mf b fs] by (auto simp: saved_run_def quiet_def split: option.splits)

lemma Save_reach:
  assumes "reach (\<lambda>fs. fs = []) store_step fs" and "Save env (Some mf) b fs = (e, m', tr)"
  shows "reach (\<lambda>fs. fs = []) store_step (last tr)"
proof -
  obtain k where "k < length tr" "tr ! k = last tr" using Save_returns [OF assms(2)] by (metis in_set_conv_nth)
  with assms(2) show ?thesis
    by (intro reach_step [OF assms(1), where e = "(env, Some mf, b, k)"]) simp
qed

section \<open>Reading what was saved\<close>

abbreviation no_read_fault :: "read_call \<Rightarrow> gerr option" where
  "no_read_fault \<equiv> (\<lambda>_. None)"

lemma Load_stored:
  assumes "map_of fs (roundDir rid) = Some (stored m b)"
  shows "Load parse no_read_fault rid fs = Inr (m, roundDir rid @ ''/replay.bin'')"
  using assms by (simp add: Load_def stored_def)

lemma Verify_replay:
  assumes "map_of fs (roundDir rid) = Some (Directory \<lparr>rd_replay = Some b, rd_manifest = Some (JsonOf m)\<rparr>)"
  shows "Verify parse no_read_fault rid fs =
    (if hex_encode (sha256 b) = mf_ReplaySHA256Hex m then None
     else Some (Wrapf ''round_id'' (Sentinel (ReplayErr ErrChecksumMismatch))))"
  using assms by (simp add: Verify_def hash_replay_def Load_def replay_bin_def)

lemma list_entries_inv:
  assumes "store_inv fs"
  shows "distinct (list_entries fs) \<and> set (list_entries fs) = {rid. map_of fs (roundDir rid) \<noteq> None}"
  using assms
proof (induction fs)
  case Nil
  then show ?case by simp
next
  case (Cons e fs)
  obtain name d where e: "e = (name, d)" by (cases e)
  have inv: "store_inv fs" using Cons.prems by (simp add: store_inv_def)
  have new: "map_of fs name = None"
    using Cons.prems e by (auto simp: store_inv_def map_of_eq_None_iff)
  note IH = Cons.IH [OF inv]
  consider (round) rid where "name = roundDir rid" "complete rid d" | (other) err where "parse_uint name = Inl err"
    using Cons.prems e by (auto simp: store_inv_def)
  then show ?case
  proof cases
    case round
    then have "list_entries (e # fs) = rid # list_entries fs"
      using e by (auto simp: roundDir_def complete_def stored_def)
    moreover have "map_of (e # fs) (roundDir k) \<noteq> None \<longleftrightarrow> k = rid \<or> map_of fs (roundDir k) \<noteq> None" for k
      using e round by auto
    ultimately show ?thesis using IH new round by (simp del: map_of.simps) blast
  next
    case other
    then have "list_entries (e # fs) = list_entries fs" using e by simp
    moreover have "name \<noteq> roundDir k" for k using other by (auto simp: roundDir_def)
    ultimately show ?thesis using IH e by auto
  qed
qed

text \<open>What a store with the invariant shows: whole rounds, each once, in order.\<close>

lemma store_inv_shows:
  assumes inv: "store_inv fs"
  shows "\<exists>ids. ListRounds no_read_fault fs = Inr ids \<and> sorted ids \<and> distinct ids \<and>
    (\<forall>rid. (rid \<in> set ids) = (\<exists>m. Load parse no_read_fault rid fs = Inr m)) \<and>
    (\<forall>rid. rid \<in> set ids \<longrightarrow> Verify parse no_read_fault rid fs = None)"
proof -
  have ids: "set (list_entries fs) = {rid. map_of fs (roundDir rid) \<noteq> None}"
    using list_entries_inv [OF inv] by simp
  have visible: "(\<exists>m. Load parse no_read_fault rid fs = Inr m) \<and> Verify parse no_read_fault rid fs = None"
    if shown: "rid \<in> set (list_entries fs)" for rid
  proof -
    obtain d where d: "map_of fs (roundDir rid) = Some d" using shown ids by auto
    from store_inv_round [OF inv d] obtain m b where mb: "d = stored m b"
      "mf_ReplaySHA256Hex m = hex_encode (sha256 b)" by (auto simp: complete_def)
    show ?thesis
      using Load_stored [of fs rid m b parse] Verify_replay [of fs rid b m parse] d mb
      by (auto simp: stored_def)
  qed
  moreover have "Load parse no_read_fault rid fs \<noteq> Inr m" if "rid \<notin> set (list_entries fs)" for rid m
    using that ids by (simp add: Load_def)
  ultimately have "\<forall>rid. (rid \<in> set (list_entries fs)) = (\<exists>m. Load parse no_read_fault rid fs = Inr m)"
    and "\<forall>rid. rid \<in> set (list_entries fs) \<longrightarrow> Verify parse no_read_fault rid fs = None"
    by blast+
  with list_entries_inv [OF inv] show ?thesis
    by (intro exI [of _ "sort (list_entries fs)"]) (simp add: ListRounds_def)
qed

section \<open>Properties\<close>

text \<open>
  However many saves ran, failed at whatever system call or were cut off by a crash at
  whatever point, every round the store shows is complete: \<open>List\<close> names exactly the rounds
  that \<open>Load\<close> finds, in ascending order without repetition, and each of them loads under
  its own id and passes \<open>Verify\<close>.
\<close>

theorem store_crash_safe:
  assumes "reach (\<lambda>fs. fs = []) store_step fs"
  shows "\<exists>ids. ListRounds no_read_fault fs = Inr ids \<and> sorted ids \<and> distinct ids \<and>
    (\<forall>rid. (rid \<in> set ids) = (\<exists>m. Load parse no_read_fault rid fs = Inr m)) \<and>
    (\<forall>rid. rid \<in> set ids \<longrightarrow> Verify parse no_read_fault rid fs = None)"
  by (rule store_inv_shows [OF store.reach_inv [OF assms]])

text \<open>
  The store is append-only at every step of every save: a round that is there stays,
  with the same files, through any later save, also one that fails or crashes; the save of
  an id that is there is refused with \<open>ErrRoundExists\<close> and touches nothing.
\<close>

theorem store_append_only:
  assumes "map_of fs (roundDir rid) = Some d"
  shows "(store_step fs ev st \<longrightarrow> map_of st (roundDir rid) = Some d) \<and>
    (validateManifestForSave m = None \<and> mf_RoundID (the m) = rid \<and> se_fault env StatDir = None \<longrightarrow>
       Save env m b fs = (Some (Wrapf ''round_id'' (Sentinel (ReplayErr ErrReplayRoundExists))), m, [fs]))"
proof -
  have "map_of st (roundDir rid) = Some d" if step: "store_step fs ev st"
  proof -
    obtain env m b k where ev: "ev = (env, m, b, k)" by (cases ev)
    obtain res m' tr where run: "Save env m b fs = (res, m', tr)" by (cases "Save env m b fs")
    with step ev have "st \<in> set tr" by auto
    from Save_trace_cases [OF run this] show ?thesis
    proof (elim disjE exE conjE)
      fix r assume "same_but (tmp_name env r) fs st"
      with assms show ?thesis by (simp add: same_but_def)
    next
      fix mf assume "published env mf b fs st"
      with assms show ?thesis unfolding published_def by (metis option.distinct(1) round_names(2))
    qed
  qed
  with assms show ?thesis by (auto simp: Save_def os_stat_def Let_def)
qed

text \<open>
  \<open>Save\<close> succeeds exactly when no system call fails, the manifest is complete, the id is
  free and the temporary name is; it then stores the caller's manifest with the checksum and
  the creation time filled in, under its id, leaves no temporary directory and no other
  entry changed, and \<open>Load\<close> and \<open>Verify\<close> agree with what was saved.
\<close>

theorem save_load_roundtrip:
  assumes "Save env m b fs = (None, m', tr)"
  shows "\<exists>mf. m = Some mf \<and> m' = Some (stamped env b mf) \<and>
    Load parse no_read_fault (mf_RoundID mf) (last tr) =
      Inr (stamped env b mf, roundDir (mf_RoundID mf) @ ''/replay.bin'') \<and>
    replay_bin (mf_RoundID mf) (last tr) = Some b \<and>
    Verify parse no_read_fault (mf_RoundID mf) (last tr) = None \<and>
    (\<forall>x. x \<noteq> roundDir (mf_RoundID mf) \<and> x \<noteq> tmp_name env (mf_RoundID mf) \<longrightarrow>
       map_of (last tr) x = map_of fs x)"
proof -
  from assms obtain mf where mf: "m = Some mf"
    by (auto simp: Save_def validateManifestForSave_def split: option.splits)
  from assms Save_run [of env mf b fs] mf obtain tr0 st where
    tr: "tr = tr0 @ [st]" "m' = Some (stamped env b mf)" "published env mf b fs st"
    by (auto simp: saved_run_def)
  have st: "map_of st (roundDir (mf_RoundID mf)) = Some (stored (stamped env b mf) b)"
    using tr(3) by (simp add: published_def)
  have "map_of st x = map_of fs x"
    if "x \<noteq> roundDir (mf_RoundID mf) \<and> x \<noteq> tmp_name env (mf_RoundID mf)" for x
    using tr(3) that by (simp add: published_def)
  with mf tr(1,2) Load_stored [OF st] Verify_replay [OF st [unfolded stored_def]] st show ?thesis
    by (simp add: replay_bin_def stored_def)
qed

definition demo_manifest :: manifest where
  "demo_manifest = \<lparr>mf_RoundID = 7, mf_CreatedAt = 0, mf_ProtocolVersion = 3, mf_TickRateHz = 60,
     mf_TrackID = 2, mf_ServerSeedHashHex = ''ab'', mf_ServerSeedHex = ''cd'',
     mf_Participants = [\<lparr>mp_MarbleIndex = 0, mp_Name = ''alice'', mp_ClientSeed = []\<rparr>],
     mf_Winner = \<lparr>mw_MarbleIndex = 0, mw_FinishTick = 900\<rparr>, mf_ReplaySHA256Hex = []\<rparr>"

definition demo_env :: save_env where
  "demo_env = \<lparr>se_fault = (\<lambda>_. None), se_suffix = ''123'', se_partial = [], se_partial_doc = [], se_now = 5\<rparr>"

abbreviation demo_save :: "gerr option \<times> manifest option \<times> disk list" where
  "demo_save \<equiv> Save demo_env (Some demo_manifest) [1, 2, 3] []"

text \<open>The conditions under which a save goes through.\<close>

lemma save_no_fault:
  assumes "\<forall>c. c \<noteq> RemoveTmp \<longrightarrow> se_fault env c = None" and "validateManifestForSave (Some mf) = None"
    and "map_of fs (roundDir (mf_RoundID mf)) = None" and "map_of fs (tmp_name env (mf_RoundID mf)) = None"
  shows "fst (Save env (Some mf) b fs) = None"
  using assms
  by (simp add: Save_def Let_def os_stat_def os_mkdir_def copyWithSHA256_def writeJSONFile_def
      os_rename_def map_of_in_dir split: option.split)

lemma demo_save_eq: "demo_save = (None, fst (snd demo_save), snd (snd demo_save))"
proof -
  have "fst demo_save = None"
    by (rule save_no_fault) (simp_all add: demo_env_def demo_manifest_def validateManifestForSave_def)
  then show ?thesis by (metis prod.collapse)
qed

theorem save_load_roundtrip_witness:
  "Load (\<lambda>_. Inl (Errorf ''bad'')) no_read_fault 7 (last (snd (snd demo_save))) =
    Inr (stamped demo_env [1, 2, 3] demo_manifest, roundDir 7 @ ''/replay.bin'')"
  using save_load_roundtrip [OF demo_save_eq] by (simp add: demo_manifest_def)

text \<open>
  A save reports success exactly when the manifest is complete, the id is free, the
  temporary name is free and no system call before the last one fails; whether the clean-up
  of a temporary directory would have failed does not matter.
\<close>

theorem save_succeeds_iff:
  assumes "\<forall>e. se_fault env StatDir = Some e \<longrightarrow> \<not> errors_is e (StdErr ErrNotExist)"
  shows "fst (Save env (Some mf) b fs) = None \<longleftrightarrow>
    validateManifestForSave (Some mf) = None \<and> (\<forall>c. c \<noteq> RemoveTmp \<longrightarrow> se_fault env c = None) \<and>
    map_of fs (roundDir (mf_RoundID mf)) = None \<and> map_of fs (tmp_name env (mf_RoundID mf)) = None"
  (is "?ok \<longleftrightarrow> ?cond")
proof
  assume ?cond
  then show ?ok by (intro save_no_fault) auto
next
  assume ?ok
  have valid: "validateManifestForSave (Some mf) = None"
    using \<open>?ok\<close> by (auto simp: Save_def split: option.splits)
  have free: "map_of fs (roundDir (mf_RoundID mf)) = None"
    using \<open>?ok\<close> Save_run [of env mf b fs]
    by (auto simp: saved_run_def published_def split: prod.splits option.splits)
  have tmp: "se_fault env MkdirTemp = None \<and> map_of fs (tmp_name env (mf_RoundID mf)) = None \<and>
      se_fault env StatDir = None"
    using \<open>?ok\<close> valid free assms
    by (auto simp: Save_def Let_def os_stat_def os_mkdir_def split: option.splits if_splits)
  have "se_fault env c = None"
    if "c \<in> {CreateReplay, CopyReplay, SyncReplay, CreateManifest, EncodeManifest, SyncManifest, RenameDir}" for c
    using \<open>?ok\<close> valid free tmp that
    by (auto simp: Save_def Let_def os_stat_def os_mkdir_def copyWithSHA256_def writeJSONFile_def
        os_rename_def split: option.splits if_splits)
  with tmp have "se_fault env c = None" if "c \<noteq> RemoveTmp" for c
    using that by (cases c) auto
  with valid free tmp show ?cond by blast
qed

theorem save_succeeds_iff_witness: "fst demo_save = None"
proof -
  have "\<forall>e. se_fault demo_env StatDir = Some e \<longrightarrow> \<not> errors_is e (StdErr ErrNotExist)"
    by (simp add: demo_env_def)
  from save_succeeds_iff [OF this, of demo_manifest "[1, 2, 3]" "[]"] show ?thesis
    by (simp add: demo_env_def demo_manifest_def validateManifestForSave_def)
qed

text \<open>
  C28: tampering and bit-rot are detected: once \<open>replay.bin\<close> of a round that the store saved
  holds other bytes, \<open>Verify\<close> reports the checksum mismatch, unless the new bytes have the
  same SHA-256, and a lost file is reported too.
\<close>

theorem verify_detects_tampering:
  assumes "map_of fs (roundDir rid) = Some (stored m b)" and "complete rid (stored m b)"
    and "map_of st (roundDir rid) = Some (Directory \<lparr>rd_replay = r, rd_manifest = Some (JsonOf m)\<rparr>)"
  shows "Verify parse no_read_fault rid st =
    (case r of
       None \<Rightarrow> Some (Wrapf ''replay: open replay.bin'' (Sentinel (StdErr ErrNotExist)))
     | Some b' \<Rightarrow> if sha256 b' = sha256 b then None
                 else Some (Wrapf ''round_id'' (Sentinel (ReplayErr ErrChecksumMismatch))))"
proof -
  have sha: "mf_ReplaySHA256Hex m = hex_encode (sha256 b)"
    using assms(2) by (auto simp: complete_def stored_def)
  show ?thesis
  proof (cases r)
    case None
    then show ?thesis using assms(3) by (simp add: Verify_def hash_replay_def Load_def replay_bin_def)
  next
    case (Some b')
    with Verify_replay [of st rid b' m parse] assms(3) sha show ?thesis by simp
  qed
qed

definition demo_sealed :: manifest where
  "demo_sealed = stamped demo_env [1, 2, 3] demo_manifest"

theorem verify_detects_tampering_witness:
  "Verify (\<lambda>_. Inl (Errorf ''bad'')) no_read_fault 7
     [(roundDir 7, Directory \<lparr>rd_replay = None, rd_manifest = Some (JsonOf demo_sealed)\<rparr>)] =
   Some (Wrapf ''replay: open replay.bin'' (Sentinel (StdErr ErrNotExist)))"
proof -
  have "complete 7 (stored demo_sealed [1, 2, 3])"
    unfolding complete_def demo_sealed_def
    by (rule exI [of _ "stamped demo_env [1, 2, 3] demo_manifest"], rule exI [of _ "[1, 2, 3]"])
      (simp add: demo_manifest_def)
  from verify_detects_tampering [of "[(roundDir 7, stored demo_sealed [1, 2, 3])]", OF _ this,
      of "[(roundDir 7, Directory \<lparr>rd_replay = None, rd_manifest = Some (JsonOf demo_sealed)\<rparr>)]" None]
  show ?thesis by simp
qed

text \<open>A store after one complete save, for the two theorems about histories.\<close>

definition demo_disk :: disk where
  "demo_disk = last (snd (snd demo_save))"

lemma demo_disk_reachable: "reach (\<lambda>fs. fs = []) store_step demo_disk"
proof (rule reach_step)
  show "reach (\<lambda>fs. fs = []) store_step []" by (rule reach_init) simp
  have "snd (snd demo_save) \<noteq> []"
    using Save_run [of demo_env demo_manifest "[1, 2, 3]" "[]"] demo_save_eq
    by (auto simp: saved_run_def split: prod.splits option.splits)
  then show "store_step [] (demo_env, Some demo_manifest, [1, 2, 3], length (snd (snd demo_save)) - 1) demo_disk"
    by (auto simp: demo_disk_def last_conv_nth split: prod.splits)
qed

lemma demo_disk_entry:
  "map_of demo_disk (roundDir 7) = Some (stored (stamped demo_env [1, 2, 3] demo_manifest) [1, 2, 3])"
  using Save_run [of demo_env demo_manifest "[1, 2, 3]" "[]"] demo_save_eq
  by (auto simp: saved_run_def published_def demo_disk_def demo_manifest_def split: prod.splits option.splits)

theorem store_crash_safe_witness:
  "\<exists>ids. ListRounds no_read_fault demo_disk = Inr ids \<and> 7 \<in> set ids"
proof -
  from store_crash_safe [OF demo_disk_reachable, of "\<lambda>_. Inl (Errorf ''bad'')"]
  obtain ids where "ListRounds no_read_fault demo_disk = Inr ids"
    and "\<forall>rid. (rid \<in> set ids) = (\<exists>m. Load (\<lambda>_. Inl (Errorf ''bad'')) no_read_fault rid demo_disk = Inr m)"
    by blast
  with Load_stored [OF demo_disk_entry, of "\<lambda>_. Inl (Errorf ''bad'')"] show ?thesis by blast
qed

theorem store_append_only_witness:
  "Save demo_env (Some demo_manifest) [9] demo_disk =
    (Some (Wrapf ''round_id'' (Sentinel (ReplayErr ErrReplayRoundExists))), Some demo_manifest, [demo_disk])"
  using store_append_only [OF demo_disk_entry, of _ _ "Some demo_manifest" demo_env "[9]"]
  by (simp add: demo_env_def demo_manifest_def validateManifestForSave_def)

end
