(* ===== verification/Sim.thy ===== *)
theory Sim
  imports Go_Bytes
begin

text \<open>
  Package \<open>sim\<close> (server/sim/invoker.go): one run of the headless Godot simulator.  The
  simulator is not Go code of the repository, so it is a parameter, a function that reads
  and writes the files of the work directory; its command line is an argument of it.
  Failing system calls come from an oracle.  JSON files written by the package are kept as
  the documents they encode; how any other status bytes parse is a parameter, as are the
  path functions of \<open>path/filepath\<close>, which depend on the operating system.
\<close>

section \<open>Data\<close>

record sim_request =
  sr_GodotBin :: string
  sr_ProjectPath :: string
  sr_WorkDir :: string
  sr_RoundID :: u64
  sr_ServerSeed :: "byte list"
  sr_ClientSeeds :: "string list"
  sr_TrackID :: u8
  sr_Timeout :: int
  sr_LiveStreamAddr :: string

record sim_result =
  sim_RoundID :: u64
  sim_WinnerMarbleIndex :: int
  sim_FinishTick :: int
  sim_ReplayPath :: string
  sim_ServerSeedHashHex :: string
  sim_TickRateHz :: int

record status_file =
  stf_RoundID :: u64
  stf_OK :: bool
  stf_WinnerMarbleIndex :: int
  stf_FinishTick :: int
  stf_ReplayPath :: string
  stf_ServerSeedHashHex :: string
  stf_TickRateHz :: int

record spec_file =
  spf_RoundID :: u64
  spf_ServerSeedHex :: string
  spf_ClientSeeds :: "string list"
  spf_TrackID :: u8
  spf_ReplayPath :: string
  spf_StatusPath :: string
  spf_LiveStreamAddr :: string

datatype status_doc = StatusJson status_file | RawStatus "byte list"

text \<open>The three files of a work directory; a spec that was cut off while writing is lost.\<close>

record work_dir =
  wd_spec :: "spec_file option"
  wd_status :: "status_doc option"
  wd_replay :: "byte list option"

datatype sim_call =
  MkdirWorkDir | RemoveStatus | RemoveReplay | CreateSpec | EncodeSpec | ReadStatus

record sim_env =
  sv_fault :: "sim_call \<Rightarrow> gerr option"
  sv_join :: "string \<Rightarrow> string \<Rightarrow> string"
  sv_to_slash :: "string \<Rightarrow> string"
  sv_parse :: "byte list \<Rightarrow> gerr + status_file"
  sv_godot :: "string \<Rightarrow> string list \<Rightarrow> int option \<Rightarrow> work_dir \<Rightarrow> gerr option \<times> work_dir"

section \<open>The run\<close>

definition writeJSON_spec :: "sim_env \<Rightarrow> spec_file \<Rightarrow> work_dir \<Rightarrow> gerr option \<times> work_dir" where
  "writeJSON_spec env v wd =
     (case sv_fault env CreateSpec of
        Some e \<Rightarrow> (Some e, wd)
      | None \<Rightarrow>
          (case sv_fault env EncodeSpec of
             Some e \<Rightarrow> (Some e, wd\<lparr>wd_spec := None\<rparr>)
           | None \<Rightarrow> (None, wd\<lparr>wd_spec := Some v\<rparr>)))"

definition readStatus :: "sim_env \<Rightarrow> work_dir \<Rightarrow> gerr + status_file" where
  "readStatus env wd =
     (case (case sv_fault env ReadStatus of
              Some e \<Rightarrow> Inl e
            | None \<Rightarrow> (case wd_status wd of
                None \<Rightarrow> Inl (Sentinel (StdErr ErrNotExist)) | Some b \<Rightarrow> Inr b)) of
        Inl e \<Rightarrow>
          if errors_is e (StdErr ErrNotExist) then Inl (Sentinel (SimErr ErrNoStatus))
          else Inl (Wrapf ''sim: read status'' e)
      | Inr b \<Rightarrow>
          (case (case b of StatusJson s \<Rightarrow> Inr s | RawStatus bs \<Rightarrow> sv_parse env bs) of
             Inl e \<Rightarrow> Inl (Wrapf ''sim: parse status'' e)
           | Inr s \<Rightarrow> Inr s))"

definition remove_stale :: "sim_env \<Rightarrow> work_dir \<Rightarrow> work_dir" where
  "remove_stale env wd =
     (let wd1 = (if sv_fault env RemoveStatus = None then wd\<lparr>wd_status := None\<rparr> else wd)
      in if sv_fault env RemoveReplay = None then wd1\<lparr>wd_replay := None\<rparr> else wd1)"

definition spec_of :: "sim_env \<Rightarrow> sim_request \<Rightarrow> spec_file" where
  "spec_of env req =
     \<lparr>spf_RoundID = sr_RoundID req, spf_ServerSeedHex = hex_encode (sr_ServerSeed req),
      spf_ClientSeeds = sr_ClientSeeds req, spf_TrackID = sr_TrackID req,
      spf_ReplayPath = sv_to_slash env (sv_join env (sr_WorkDir req) ''replay.bin''),
      spf_StatusPath = sv_to_slash env (sv_join env (sr_WorkDir req) ''status.json''),
      spf_LiveStreamAddr = sr_LiveStreamAddr req\<rparr>"

definition godot_args :: "sim_env \<Rightarrow> sim_request \<Rightarrow> string list" where
  "godot_args env req =
     [''--headless'', ''--path'', sr_ProjectPath req, ''res://main.tscn'', ''++'',
      ''--round-spec='' @ sv_to_slash env (sv_join env (sr_WorkDir req) ''spec.json'')]"

text \<open>The deadline of \<open>runCtx\<close>; a timeout that is not positive means none.\<close>

definition run_timeout :: "sim_request \<Rightarrow> int option" where
  "run_timeout req = (if 0 < sr_Timeout req then Some (sr_Timeout req) else None)"

definition sim_Run :: "sim_env \<Rightarrow> sim_request \<Rightarrow> work_dir \<Rightarrow> (gerr + sim_result) \<times> work_dir" where
  "sim_Run env req wd =
     (if sr_GodotBin req = [] \<or> sr_ProjectPath req = [] \<or> sr_WorkDir req = []
        then (Inl (Wrapf ''GodotBin, ProjectPath, and WorkDir are required'' (Sentinel (SimErr ErrMissingField))), wd)
      else if length (sr_ClientSeeds req) = 0
        then (Inl (Wrapf ''ClientSeeds must be non-empty'' (Sentinel (SimErr ErrMissingField))), wd)
      else
     (case sv_fault env MkdirWorkDir of
        Some e \<Rightarrow> (Inl (Wrapf ''sim: mkdir workdir'' e), wd)
      | None \<Rightarrow>
     (case writeJSON_spec env (spec_of env req) (remove_stale env wd) of
        (Some e, wd1) \<Rightarrow> (Inl (Wrapf ''sim: write spec'' e), wd1)
      | (None, wd1) \<Rightarrow>
     (case sv_godot env (sr_GodotBin req) (godot_args env req)
             (run_timeout req) wd1 of
        (Some e, wd2) \<Rightarrow> (Inl (Wrapf ''godot'' (Sentinel (SimErr ErrGodotExit))), wd2)
      | (None, wd2) \<Rightarrow>
     (case readStatus env wd2 of
        Inl e \<Rightarrow> (Inl e, wd2)
      | Inr st \<Rightarrow>
          if \<not> stf_OK st then (Inl (Sentinel (SimErr ErrStatusNotOK)), wd2)
          else (Inr \<lparr>sim_RoundID = stf_RoundID st, sim_WinnerMarbleIndex = stf_WinnerMarbleIndex st,
                     sim_FinishTick = stf_FinishTick st, sim_ReplayPath = stf_ReplayPath st,
                     sim_ServerSeedHashHex = stf_ServerSeedHashHex st,
                     sim_TickRateHz = stf_TickRateHz st\<rparr>, wd2))))))"

section \<open>What a run depends on\<close>

definition request_ok :: "sim_request \<Rightarrow> bool" where
  "request_ok req \<longleftrightarrow> sr_GodotBin req \<noteq> [] \<and> sr_ProjectPath req \<noteq> [] \<and> sr_WorkDir req \<noteq> [] \<and>
     sr_ClientSeeds req \<noteq> []"

definition no_sim_fault :: "sim_env \<Rightarrow> bool" where
  "no_sim_fault env \<longleftrightarrow> (\<forall>c. sv_fault env c = None)"

definition result_of :: "status_file \<Rightarrow> sim_result" where
  "result_of st = \<lparr>sim_RoundID = stf_RoundID st, sim_WinnerMarbleIndex = stf_WinnerMarbleIndex st,
     sim_FinishTick = stf_FinishTick st, sim_ReplayPath = stf_ReplayPath st,
     sim_ServerSeedHashHex = stf_ServerSeedHashHex st, sim_TickRateHz = stf_TickRateHz st\<rparr>"

text \<open>The directory the simulator starts on: its spec, and nothing of an earlier run.\<close>

definition launch_dir :: "sim_env \<Rightarrow> sim_request \<Rightarrow> work_dir" where
  "launch_dir env req = \<lparr>wd_spec = Some (spec_of env req), wd_status = None, wd_replay = None\<rparr>"

abbreviation godot_run :: "sim_env \<Rightarrow> sim_request \<Rightarrow> gerr option \<times> work_dir" where
  "godot_run env req \<equiv> sv_godot env (sr_GodotBin req) (godot_args env req)
     (run_timeout req) (launch_dir env req)"

lemma sim_Run_launch:
  assumes "request_ok req" and "no_sim_fault env"
  shows "sim_Run env req wd =
    (case godot_run env req of
       (Some e, wd2) \<Rightarrow> (Inl (Wrapf ''godot'' (Sentinel (SimErr ErrGodotExit))), wd2)
     | (None, wd2) \<Rightarrow>
         (case readStatus env wd2 of
            Inl e \<Rightarrow> (Inl e, wd2)
          | Inr st \<Rightarrow> (if stf_OK st then Inr (result_of st) else Inl (Sentinel (SimErr ErrStatusNotOK)), wd2)))"
proof -
  have launch: "writeJSON_spec env (spec_of env req) (remove_stale env wd) = (None, launch_dir env req)"
    using assms(2) by (cases wd)
      (simp add: no_sim_fault_def writeJSON_spec_def remove_stale_def launch_dir_def)
  obtain e wd2 where g: "godot_run env req = (e, wd2)" by fastforce
  have "sv_fault env MkdirWorkDir = None" using assms(2) by (simp add: no_sim_fault_def)
  then show ?thesis
    using assms(1) g
    by (cases e; cases "readStatus env wd2") (simp_all add: sim_Run_def launch request_ok_def result_of_def)
qed

section \<open>Properties\<close>

text \<open>
  What a run of the simulator returns depends on the request and on what this run of
  Godot wrote, never on files a previous run left in the work directory: with no system call
  failing, two work directories give the same result, and a Godot that exits cleanly without
  writing a status is reported as \<open>ErrNoStatus\<close> even where an old status says OK.
\<close>

theorem sim_run_ignores_stale:
  assumes "no_sim_fault env"
  shows "fst (sim_Run env req wd) = fst (sim_Run env req wd') \<and>
    (request_ok req \<and> fst (godot_run env req) = None \<and> wd_status (snd (godot_run env req)) = None \<longrightarrow>
       fst (sim_Run env req wd) = Inl (Sentinel (SimErr ErrNoStatus)))"
proof -
  have "fst (sim_Run env req wd) = fst (sim_Run env req wd')"
  proof (cases "request_ok req")
    case True
    then show ?thesis by (simp add: sim_Run_launch assms)
  next
    case False
    then show ?thesis by (auto simp: sim_Run_def request_ok_def)
  qed
  moreover have "readStatus env wd2 = Inl (Sentinel (SimErr ErrNoStatus))" if "wd_status wd2 = None" for wd2
    using that assms by (simp add: readStatus_def no_sim_fault_def)
  ultimately show ?thesis
    by (auto simp: sim_Run_launch assms split: prod.splits)
qed

definition demo_sim_env :: sim_env where
  "demo_sim_env = \<lparr>sv_fault = (\<lambda>_. None), sv_join = (\<lambda>d n. d @ ''/'' @ n), sv_to_slash = (\<lambda>p. p),
     sv_parse = (\<lambda>_. Inl (Errorf ''bad'')), sv_godot = (\<lambda>bin args tmo wd. (None, wd))\<rparr>"

definition demo_request :: sim_request where
  "demo_request = \<lparr>sr_GodotBin = ''godot'', sr_ProjectPath = ''game'', sr_WorkDir = ''w'', sr_RoundID = 5,
     sr_ServerSeed = [1], sr_ClientSeeds = [[]], sr_TrackID = 2, sr_Timeout = 0, sr_LiveStreamAddr = []\<rparr>"

definition stale_dir :: work_dir where
  "stale_dir = \<lparr>wd_spec = None, wd_status = Some (StatusJson
     \<lparr>stf_RoundID = 4, stf_OK = True, stf_WinnerMarbleIndex = 3, stf_FinishTick = 9, stf_ReplayPath = ''old'',
      stf_ServerSeedHashHex = [], stf_TickRateHz = 60\<rparr>), wd_replay = Some [1]\<rparr>"

theorem sim_run_ignores_stale_witness:
  "fst (sim_Run demo_sim_env demo_request stale_dir) = Inl (Sentinel (SimErr ErrNoStatus))"
proof -
  have "no_sim_fault demo_sim_env" by (simp add: no_sim_fault_def demo_sim_env_def)
  from sim_run_ignores_stale [OF this, of demo_request stale_dir] show ?thesis
    by (simp add: request_ok_def demo_request_def demo_sim_env_def launch_dir_def)
qed

text \<open>
  The directory Godot really starts on: the new spec, and the status and replay of an earlier run
  wherever removing them failed, since \<open>Run\<close> drops those two errors.
\<close>

definition start_dir :: "sim_env \<Rightarrow> sim_request \<Rightarrow> work_dir \<Rightarrow> work_dir" where
  "start_dir env req wd = \<lparr>wd_spec = Some (spec_of env req),
     wd_status = (if sv_fault env RemoveStatus = None then None else wd_status wd),
     wd_replay = (if sv_fault env RemoveReplay = None then None else wd_replay wd)\<rparr>"

lemma spec_written:
  assumes "sv_fault env CreateSpec = None" and "sv_fault env EncodeSpec = None"
  shows "writeJSON_spec env (spec_of env req) (remove_stale env wd) = (None, start_dir env req wd)"
  using assms by (cases wd) (simp add: writeJSON_spec_def remove_stale_def start_dir_def Let_def)

text \<open>
  C37: a result is returned exactly when the request is complete, the work directory and the spec were
  written, Godot, started on a spec with the request's round, seed, client seeds and track, exited
  cleanly, and the status then in the directory can be read, parses and says OK; the result is that
  status.  Whether the files of an earlier run could be removed does not matter for this, so where
  the removal failed the status may be theirs.
\<close>

theorem sim_run_success_iff:
  "fst (sim_Run env req wd) = Inr res \<longleftrightarrow>
    request_ok req \<and> sv_fault env MkdirWorkDir = None \<and> sv_fault env CreateSpec = None \<and> sv_fault env EncodeSpec = None \<and>
    (\<exists>wd2 st. sv_godot env (sr_GodotBin req) (godot_args env req) (run_timeout req) (start_dir env req wd) = (None, wd2) \<and>
       readStatus env wd2 = Inr st \<and> stf_OK st \<and> res = result_of st)"
proof (cases "request_ok req \<and> sv_fault env MkdirWorkDir = None \<and> sv_fault env CreateSpec = None \<and>
    sv_fault env EncodeSpec = None")
  case True
  then have "writeJSON_spec env (spec_of env req) (remove_stale env wd) = (None, start_dir env req wd)"
    by (simp add: spec_written)
  with True show ?thesis
    by (auto simp: sim_Run_def request_ok_def result_of_def split: option.splits prod.splits sum.splits if_splits)
next
  case False
  then have "fst (sim_Run env req wd) \<noteq> Inr res"
    by (auto simp: sim_Run_def request_ok_def writeJSON_spec_def split: option.splits prod.splits if_splits)
  with False show ?thesis by blast
qed

text \<open>
  A stale result: when the old status cannot be removed and Godot exits cleanly without writing one,
  the run succeeds with the winner of the earlier round.
\<close>

lemma stale_status_returned:
  "fst (sim_Run (demo_sim_env\<lparr>sv_fault := \<lambda>c. if c = RemoveStatus then Some (Errorf ''permission denied'') else None\<rparr>)
      demo_request stale_dir) =
   Inr \<lparr>sim_RoundID = 4, sim_WinnerMarbleIndex = 3, sim_FinishTick = 9, sim_ReplayPath = ''old'',
        sim_ServerSeedHashHex = [], sim_TickRateHz = 60\<rparr>"
  by (simp add: sim_Run_def demo_sim_env_def demo_request_def stale_dir_def writeJSON_spec_def remove_stale_def
      readStatus_def Let_def)

end
