(* ===== verification/Float64.thy ===== *)
theory Float64
  imports Prelude
begin

text \<open>
  The part of Go's \<open>float64\<close> that the code computes with (IEEE 754 binary64, round to
  nearest, ties to even): multiplication, division by 100, the conversions from and to
  \<open>uint64\<close>.  A finite value is \<open>m * 2^e\<close>; the sign of a zero is not kept, nothing in the
  code depends on it.  The result of converting a value outside the range of \<open>uint64\<close> is
  implementation-defined in Go and a parameter here.
\<close>

datatype f64 = Fin int int | PInf | NInf | NaN

fun bits :: "nat \<Rightarrow> nat" where
  "bits n = (if n = 0 then 0 else Suc (bits (n div 2)))"

declare bits.simps [simp del]

text \<open>How many low bits of \<open>a * 2^e\<close> do not fit: 53 bits of precision, least exponent -1074.\<close>

definition excess :: "nat \<Rightarrow> int \<Rightarrow> nat" where
  "excess a e = nat (max (int (bits a) - 53) (- 1074 - e))"

definition round_shift :: "nat \<Rightarrow> nat \<Rightarrow> nat" where
  "round_shift a s =
     (let q = a div 2 ^ s; r = a mod 2 ^ s; half = 2 ^ s div 2 in
      if 0 < s \<and> (half < r \<or> (r = half \<and> odd q)) then Suc q else q)"

definition f64_round :: "int \<Rightarrow> int \<Rightarrow> f64" where
  "f64_round m e =
     (let a = nat \<bar>m\<bar>; s = excess a e; q = round_shift a s in
      if q = 0 then Fin 0 0
      else if 1024 < int (bits q) + (e + int s) then (if 0 < m then PInf else NInf)
      else Fin (sgn m * int q) (e + int s))"

definition f64_sign :: "f64 \<Rightarrow> int" where
  "f64_sign x = (case x of Fin m e \<Rightarrow> sgn m | PInf \<Rightarrow> 1 | NInf \<Rightarrow> - 1 | NaN \<Rightarrow> 0)"

definition f64_mult :: "f64 \<Rightarrow> f64 \<Rightarrow> f64" where
  "f64_mult x y =
     (case (x, y) of
        (Fin m e, Fin n f) \<Rightarrow> f64_round (m * n) (e + f)
      | _ \<Rightarrow> if f64_sign x * f64_sign y = 0 then NaN
            else if 0 < f64_sign x * f64_sign y then PInf else NInf)"

text \<open>
  \<open>x / 100.0\<close>: 64 more quotient bits than the dividend has, and a last bit that says whether
  anything is left, decide the rounding.
\<close>

definition f64_div100 :: "f64 \<Rightarrow> f64" where
  "f64_div100 x =
     (case x of
        Fin m e \<Rightarrow>
          (let a = nat \<bar>m\<bar> * 2 ^ 64;
               q = 2 * (a div 100) + (if a mod 100 = 0 then 0 else 1)
           in f64_round (sgn m * int q) (e - 65))
      | _ \<Rightarrow> x)"

definition f64_of_u64 :: "u64 \<Rightarrow> f64" where
  "f64_of_u64 w = f64_round (uint w) 0"

text \<open>The comparison with the constant 0; every comparison with NaN is false.\<close>

definition f64_le0 :: "f64 \<Rightarrow> bool" where
  "f64_le0 x = (case x of Fin m e \<Rightarrow> m \<le> 0 | PInf \<Rightarrow> False | NInf \<Rightarrow> True | NaN \<Rightarrow> False)"

text \<open>Comparison and addition, both at the smaller of the two exponents.\<close>

definition scaled :: "int \<Rightarrow> int \<Rightarrow> int \<Rightarrow> int" where
  "scaled k m e = m * 2 ^ nat (e - k)"

fun f64_le :: "f64 \<Rightarrow> f64 \<Rightarrow> bool" where
  "f64_le (Fin m e) (Fin n f) = (scaled (min e f) m e \<le> scaled (min e f) n f)"
| "f64_le NaN y = False"
| "f64_le x NaN = False"
| "f64_le NInf y = True"
| "f64_le x PInf = True"
| "f64_le x y = False"

fun f64_add :: "f64 \<Rightarrow> f64 \<Rightarrow> f64" where
  "f64_add (Fin m e) (Fin n f) = f64_round (scaled (min e f) m e + scaled (min e f) n f) (min e f)"
| "f64_add NaN y = NaN"
| "f64_add x NaN = NaN"
| "f64_add PInf NInf = NaN"
| "f64_add NInf PInf = NaN"
| "f64_add PInf y = PInf"
| "f64_add NInf y = NInf"
| "f64_add x PInf = PInf"
| "f64_add x NInf = NInf"

definition f64_trunc :: "int \<Rightarrow> int \<Rightarrow> int" where
  "f64_trunc m e = (if 0 \<le> e then m * 2 ^ nat e else sgn m * (\<bar>m\<bar> div 2 ^ nat (- e)))"

definition f64_to_u64 :: "(f64 \<Rightarrow> u64) \<Rightarrow> f64 \<Rightarrow> u64" where
  "f64_to_u64 oor x =
     (case x of
        Fin m e \<Rightarrow> if 0 \<le> f64_trunc m e \<and> f64_trunc m e < 18446744073709551616
                   then of_int (f64_trunc m e) else oor x
      | _ \<Rightarrow> oor x)"

definition f64_int :: "int \<Rightarrow> f64" where
  "f64_int n = Fin n 0"

section \<open>Rounding\<close>

lemma bits_bounds: "0 < n \<Longrightarrow> 2 ^ (bits n - 1) \<le> n \<and> n < 2 ^ bits n \<and> 0 < bits n"
proof (induction n rule: bits.induct)
  case (1 n)
  show ?case
  proof (cases "n = 1")
    case True
    have "bits 1 = 1" by (simp add: bits.simps [of "Suc 0"] bits.simps [of 0])
    with True show ?thesis by simp
  next
    case False
    with 1 have d: "2 ^ (bits (n div 2) - 1) \<le> n div 2" "n div 2 < 2 ^ bits (n div 2)" "0 < bits (n div 2)"
      by auto
    from d(2) have "n < 2 * 2 ^ bits (n div 2)" by (simp add: div_less_iff_less_mult mult.commute)
    moreover have "2 * 2 ^ (bits (n div 2) - 1) \<le> n"
      using d(1) by linarith
    ultimately show ?thesis
      using 1(2) d(3) by (cases "bits (n div 2)") (simp_all add: bits.simps [of n])
  qed
qed

lemma bits_le: "n < 2 ^ k \<Longrightarrow> bits n \<le> k"
proof (cases "n = 0")
  case False
  assume "n < 2 ^ k"
  with False bits_bounds [of n] have "(2::nat) ^ (bits n - 1) < 2 ^ k"
    using le_less_trans by blast
  then have "bits n - 1 < k" by (simp only: power_strict_increasing_iff)
  then show ?thesis by simp
qed (simp add: bits.simps)

text \<open>The rounded significand is at most half a unit away.\<close>

lemma round_shift_error:
  "\<bar>2 * int (round_shift a s * 2 ^ s) - 2 * int a\<bar> \<le> 2 ^ s"
proof (cases "s = 0")
  case True
  then show ?thesis by (simp add: round_shift_def)
next
  case False
  then obtain k where k: "s = Suc k" by (cases s) auto
  obtain h :: nat where h: "2 ^ s = 2 * h" "2 ^ s div 2 = h" using k by simp
  define q where "q = a div 2 ^ s"
  define r where "r = a mod 2 ^ s"
  have "0 < h" using h(2) k by auto
  have s: "(2 :: int) ^ s = 2 * int h" using arg_cong [OF h(1), of int] by simp
  have a: "a = q * (2 * h) + r" and r: "r < 2 * h"
    using \<open>0 < h\<close> unfolding q_def r_def h(1) by (simp_all only: div_mult_mod_eq, simp)
  have "round_shift a s = (if h < r \<or> r = h \<and> odd q then Suc q else q)"
    using False unfolding round_shift_def Let_def q_def [symmetric] r_def [symmetric] h(2) by simp
  moreover have "int (round_shift a s * 2 ^ s) = 2 * (int (round_shift a s) * int h)"
    unfolding h(1) by simp
  moreover have "int a = 2 * (int q * int h) + int r" unfolding a by simp
  ultimately have "\<bar>2 * (2 * (int (round_shift a s) * int h)) - 2 * int a\<bar> \<le> 2 * int h"
    using r by (cases "h < r"; cases "r = h \<and> odd q") (auto simp: algebra_simps)
  then show ?thesis unfolding s h(1) by (simp add: algebra_simps)
qed

text \<open>A value that fits is its own rounding.\<close>

lemma f64_round_exact:
  assumes "\<bar>m\<bar> < 2 ^ 53" and "- 1074 \<le> e" and "e \<le> 970"
  shows "f64_round m e = (if m = 0 then Fin 0 0 else Fin m e)"
proof -
  have b: "bits (nat \<bar>m\<bar>) \<le> 53"
    using assms(1) by (intro bits_le) (simp add: nat_less_iff)
  then have "excess (nat \<bar>m\<bar>) e = 0" using assms(2) by (simp add: excess_def)
  with b assms(3) show ?thesis
    by (simp add: f64_round_def Let_def round_shift_def mult_sgn_abs)
qed

lemma f64_to_u64_int:
  assumes "0 \<le> n" and "n < 2 ^ 53"
  shows "f64_to_u64 oor (f64_round n 0) = of_int n" and "f64_round n 0 = Fin n 0"
  using assms by (simp_all add: f64_round_exact f64_to_u64_def f64_trunc_def)

text \<open>Whole amounts below \<open>2^53\<close> are computed without rounding.\<close>

lemma f64_mult_int:
  assumes "\<bar>m * n\<bar> < 2 ^ 53"
  shows "f64_mult (f64_int m) (f64_int n) = f64_int (m * n)"
  using assms by (auto simp: f64_mult_def f64_int_def f64_round_exact)

section \<open>The order\<close>

lemma scaled_le:
  assumes "k \<le> min e f"
  shows "scaled k m e \<le> scaled k n f \<longleftrightarrow> scaled (min e f) m e \<le> scaled (min e f) n f"
proof -
  have s: "scaled k x g = scaled (min e f) x g * 2 ^ nat (min e f - k)" if "min e f \<le> g" for x g
  proof -
    have "nat ((g - min e f) + (min e f - k)) = nat (g - min e f) + nat (min e f - k)"
      using assms that by (intro nat_add_distrib) linarith+
    then have "nat (g - k) = nat (g - min e f) + nat (min e f - k)" by simp
    then show ?thesis by (simp add: scaled_def power_add)
  qed
  have "(0 :: int) < 2 ^ nat (min e f - k)" by simp
  then show ?thesis using s [of e m] s [of f n] by simp
qed

lemma f64_le_trans: "f64_le x y \<Longrightarrow> f64_le y z \<Longrightarrow> f64_le x z"
proof (cases x; cases y; cases z)
  fix m e n f l g
  assume xyz: "x = Fin m e" "y = Fin n f" "z = Fin l g" and le: "f64_le x y" "f64_le y z"
  define k where "k = min e (min f g)"
  have k: "k \<le> min e f" "k \<le> min f g" "k \<le> min e g" unfolding k_def by linarith+
  have "scaled k m e \<le> scaled k n f" using le(1) scaled_le [OF k(1), of m n] xyz(1,2) by simp
  also have "scaled k n f \<le> scaled k l g" using le(2) scaled_le [OF k(2), of n l] xyz(2,3) by simp
  finally show "f64_le x z" using scaled_le [OF k(3), of m l] xyz(1,3) by simp
qed auto

lemma f64_le_total: "x \<noteq> NaN \<Longrightarrow> y \<noteq> NaN \<Longrightarrow> f64_le x y \<or> f64_le y x"
  by (cases x; cases y) (auto simp: min.commute)

end
