(* ===== verification/Manager.thy ===== *)
theory Manager
  imports Session Wallet Round Rtp Track_Select Replay_Store Sim Float64
begin

text \<open>
  The coordinator of package \<open>rgs\<close> (server/rgs/manager.go): session table, queue of bets,
  pre-minted rounds with the bets placed on them, and the run of one round.  Sessions and
  pending rounds are pointers into heaps, because the queue, the table and a call in
  progress share them.  The wallet is the interface record of \<open>Wallet\<close> over a state \<^typ>\<open>'w\<close>,
  the simulator a function, the audit store the disk of \<open>Replay_Store\<close>; random bytes, clock
  readings and the file the simulator names are inputs of each call.  A run-time panic is
  \<^term>\<open>None\<close>.
\<close>

section \<open>Data\<close>

record round_spec =
  sp_RoundID :: u64
  sp_ServerSeedHex :: string
  sp_TrackID :: u8
  sp_ClientSeeds :: "string list"

record round_bet =
  rb_BetID :: string
  rb_PlayerID :: string
  rb_RoundID :: u64
  rb_MarbleIdx :: int
  rb_Amount :: f64
  rb_PlacedAt :: gtime

record round_bet_outcome =
  ro_BetID :: string
  ro_PlayerID :: string
  ro_MarbleIdx :: int
  ro_Amount :: f64
  ro_Won :: bool
  ro_Payout :: f64
  ro_WinnerIndex :: int

record pending_round =
  pr_spec :: round_spec
  pr_bets :: "round_bet list"

definition PayoutMultiplier :: f64 where
  "PayoutMultiplier = f64_int 19"

text \<open>The configuration; \<open>cfg_oor\<close> is what an out-of-range \<open>uint64(f)\<close> gives on the platform.\<close>

record 'w mgr_config =
  cfg_Wallet :: "'w wallet"
  cfg_GodotBin :: string
  cfg_ProjectPath :: string
  cfg_WorkRoot :: string
  cfg_BuyIn :: u64
  cfg_RTPBps :: u32
  cfg_MaxMarbles :: int
  cfg_SimTimeout :: int
  cfg_TrackPool :: "u8 list"
  cfg_oor :: "f64 \<Rightarrow> u64"

record 'w mgr =
  mg_wallet :: 'w
  mg_disk :: disk
  mg_heap :: "nat \<Rightarrow> session"
  mg_next :: nat
  mg_sessions :: "string \<Rightarrow> nat option"
  mg_pending :: "nat list"
  mg_prevTrack :: int
  mg_rounds :: "nat \<Rightarrow> pending_round"
  mg_nextRound :: nat
  mg_pendingRounds :: "nat list"
  mg_roundBets :: "u64 \<Rightarrow> round_bet list option"

text \<open>
  \<open>NewManager\<close> refuses a nil wallet, store or simulator (the three flags say which are
  there) and fills in the defaults.
\<close>

definition default_config :: "'w mgr_config \<Rightarrow> 'w mgr_config" where
  "default_config cfg = cfg
     \<lparr>cfg_MaxMarbles := (if cfg_MaxMarbles cfg \<le> 0 then 20 else cfg_MaxMarbles cfg),
      cfg_SimTimeout := (if cfg_SimTimeout cfg = 0 then 60000000000 else cfg_SimTimeout cfg),
      cfg_TrackPool := (if length (cfg_TrackPool cfg) = 0 then [0, 1, 2, 3, 4, 5] else cfg_TrackPool cfg)\<rparr>"

definition blank_mgr :: "'w \<Rightarrow> disk \<Rightarrow> 'w mgr" where
  "blank_mgr w fs =
     \<lparr>mg_wallet = w, mg_disk = fs, mg_heap = (\<lambda>_. new_session [] [] 0), mg_next = 0,
      mg_sessions = (\<lambda>_. None), mg_pending = [], mg_prevTrack = - 1,
      mg_rounds = (\<lambda>_. \<lparr>pr_spec = \<lparr>sp_RoundID = 0, sp_ServerSeedHex = [], sp_TrackID = 0,
        sp_ClientSeeds = []\<rparr>, pr_bets = []\<rparr>),
      mg_nextRound = 0, mg_pendingRounds = [], mg_roundBets = (\<lambda>_. None)\<rparr>"

definition NewManager :: "bool \<Rightarrow> bool \<Rightarrow> bool \<Rightarrow> 'w mgr_config \<Rightarrow> 'w \<Rightarrow> disk \<Rightarrow>
    gerr + ('w mgr_config \<times> 'w mgr)" where
  "NewManager hasWallet hasStore hasSim cfg w fs =
     (if \<not> hasWallet then Inl (Errorf ''rgs: ManagerConfig.Wallet required'')
      else if \<not> hasStore then Inl (Errorf ''rgs: ManagerConfig.Store required'')
      else if \<not> hasSim then Inl (Errorf ''rgs: ManagerConfig.Sim required'')
      else Inr (default_config cfg, blank_mgr w fs))"

definition newID :: "string \<Rightarrow> byte list \<Rightarrow> string" where
  "newID pre b = pre @ hex_encode b"

section \<open>Sessions and their bets\<close>

definition OpenSession :: "byte list \<Rightarrow> gtime \<Rightarrow> string \<Rightarrow> 'w mgr \<Rightarrow> (gerr + nat) \<times> 'w mgr" where
  "OpenSession rnd now playerID m =
     (if playerID = [] then (Inl (Errorf ''rgs: empty playerID''), m)
      else (let sid = newID ''sess_'' rnd; p = mg_next m in
            (Inr p, m\<lparr>mg_heap := (mg_heap m)(p := new_session sid playerID now),
                      mg_next := Suc p, mg_sessions := (mg_sessions m)(sid \<mapsto> p)\<rparr>)))"

definition lookup_session :: "string \<Rightarrow> 'w mgr \<Rightarrow> nat option" where
  "lookup_session sid m = mg_sessions m sid"

definition PlaceBet :: "'w mgr_config \<Rightarrow> byte list \<Rightarrow> gtime \<Rightarrow> gtime \<Rightarrow> string \<Rightarrow> u64 \<Rightarrow> 'w mgr \<Rightarrow>
    (gerr + bet) \<times> 'w mgr" where
  "PlaceBet cfg rnd placedAt now sessionID amount m =
     (case mg_sessions m sessionID of
        None \<Rightarrow> (Inl (Errorf ''rgs: unknown session''), m)
      | Some p \<Rightarrow>
          if amount = 0 then (Inl (Errorf ''rgs: bet amount must be > 0''), m)
          else
     (let s = mg_heap m p; betID = newID ''bet_'' rnd in
      case w_Debit (cfg_Wallet cfg) (ses_PlayerID s) amount betID (mg_wallet m) of
        (Some e, w1) \<Rightarrow> (Inl (Wrapf ''rgs: wallet debit'' e), m\<lparr>mg_wallet := w1\<rparr>)
      | (None, w1) \<Rightarrow>
     (let b = \<lparr>bet_BetID = betID, bet_Amount = amount, bet_PlayerID = ses_PlayerID s,
               bet_PlacedAt = placedAt, bet_MarbleIndex = 0\<rparr> in
      case session_place_bet now b s of
        (Some e, s1) \<Rightarrow>
          (Inl (Wrapf ''rgs: session refused bet'' e),
           m\<lparr>mg_wallet := snd (w_Credit (cfg_Wallet cfg) (ses_PlayerID s) amount (betID @ '':refund'') w1)\<rparr>)
      | (None, s1) \<Rightarrow>
          (Inr b, m\<lparr>mg_wallet := w1, mg_heap := (mg_heap m)(p := s1), mg_pending := mg_pending m @ [p]\<rparr>))))"

definition CloseSession :: "gtime \<Rightarrow> string \<Rightarrow> 'w mgr \<Rightarrow> gerr option \<times> 'w mgr" where
  "CloseSession now sessionID m =
     (case mg_sessions m sessionID of
        None \<Rightarrow> (Some (Errorf ''rgs: unknown session''), m)
      | Some p \<Rightarrow>
          (case session_close now (mg_heap m p) of
             (e, s1) \<Rightarrow> (e, m\<lparr>mg_heap := (mg_heap m)(p := s1)\<rparr>)))"

section \<open>Rounds and their bets\<close>

text \<open>\<open>rand.Read\<close> fails or gives the 32 bytes of the seed.\<close>

definition GenerateRoundSpec :: "'w mgr_config \<Rightarrow> gerr + byte list \<Rightarrow> u64 \<Rightarrow> 'w mgr \<Rightarrow>
    ((gerr + round_spec) \<times> 'w mgr) option" where
  "GenerateRoundSpec cfg rnd roundID m =
     (case rnd of
        Inl e \<Rightarrow> Some (Inl (Wrapf ''rgs: GenerateRoundSpec seed'' e), m)
      | Inr seed \<Rightarrow>
          (case mgr_select_track (cfg_TrackPool cfg) roundID (mg_prevTrack m) of
             None \<Rightarrow> None
           | Some trackID \<Rightarrow>
               (let spec = \<lparr>sp_RoundID = roundID, sp_ServerSeedHex = hex_encode seed, sp_TrackID = trackID,
                            sp_ClientSeeds = replicate (nat (cfg_MaxMarbles cfg)) []\<rparr>;
                    p = mg_nextRound m
                in Some (Inr spec,
                     m\<lparr>mg_prevTrack := uint trackID,
                       mg_rounds := (mg_rounds m)(p := \<lparr>pr_spec = spec, pr_bets = []\<rparr>),
                       mg_nextRound := Suc p, mg_pendingRounds := mg_pendingRounds m @ [p],
                       mg_roundBets := (mg_roundBets m)(roundID \<mapsto> [])\<rparr>))))"

definition findPendingRound :: "u64 \<Rightarrow> 'w mgr \<Rightarrow> nat option" where
  "findPendingRound roundID m =
     List.find (\<lambda>p. sp_RoundID (pr_spec (mg_rounds m p)) = roundID) (mg_pendingRounds m)"

text \<open>
  \<open>PlaceBetOnRound\<close> takes the lock three times.  Its three atomic parts: the checks that find
  the round; the wallet calls; and the recording, which re-validates and refunds when
  \<open>RunNextRound\<close> has taken the round in between.
\<close>

definition round_bet_check :: "'w mgr_config \<Rightarrow> u64 \<Rightarrow> int \<Rightarrow> f64 \<Rightarrow> 'w mgr \<Rightarrow> gerr + nat \<times> u64" where
  "round_bet_check cfg roundID marbleIdx amount m =
     (if marbleIdx < 0 \<or> cfg_MaxMarbles cfg \<le> marbleIdx
        then Inl (Wrapf ''marble_idx'' (Sentinel (SessionErr ErrInvalidMarbleIdx)))
      else if f64_le0 amount then Inl (Wrapf ''amount must be > 0'' (Sentinel (SessionErr ErrInvalidBetAmount)))
      else (case findPendingRound roundID m of
          None \<Rightarrow> if mg_roundBets m roundID \<noteq> None then Inl (Sentinel (SessionErr ErrRoundAlreadyRun))
                  else Inl (Sentinel (SessionErr ErrUnknownRound))
        | Some pr \<Rightarrow>
            (let amountUnits = f64_to_u64 (cfg_oor cfg) (f64_mult amount (f64_int 100)) in
             if amountUnits = 0 then Inl (Wrapf ''amount rounds to zero'' (Sentinel (SessionErr ErrInvalidBetAmount)))
             else Inr (pr, amountUnits))))"

definition round_bet_debit :: "'w mgr_config \<Rightarrow> string \<Rightarrow> u64 \<Rightarrow> string \<Rightarrow> 'w mgr \<Rightarrow> (gerr + f64) \<times> 'w mgr" where
  "round_bet_debit cfg playerID amountUnits betID m =
     (case w_Debit (cfg_Wallet cfg) playerID amountUnits betID (mg_wallet m) of
        (Some e, w1) \<Rightarrow> (Inl (Wrapf ''rgs: wallet debit'' e), m\<lparr>mg_wallet := w1\<rparr>)
      | (None, w1) \<Rightarrow>
          (Inr (case w_Balance (cfg_Wallet cfg) playerID w1 of
                  Inl e \<Rightarrow> f64_int 0 | Inr balUnits \<Rightarrow> f64_div100 (f64_of_u64 balUnits)),
           m\<lparr>mg_wallet := w1\<rparr>))"

definition round_bet_record :: "'w mgr_config \<Rightarrow> nat \<Rightarrow> u64 \<Rightarrow> round_bet \<Rightarrow> 'w mgr \<Rightarrow> gerr option \<times> 'w mgr" where
  "round_bet_record cfg pr amountUnits b m =
     (if findPendingRound (rb_RoundID b) m = None then
        (Some (Sentinel (SessionErr ErrRoundAlreadyRun)),
         m\<lparr>mg_wallet := snd (w_Credit (cfg_Wallet cfg) (rb_PlayerID b) amountUnits
             (rb_BetID b @ '':refund'') (mg_wallet m))\<rparr>)
      else (None, m\<lparr>mg_rounds := (mg_rounds m)(pr := (mg_rounds m pr)\<lparr>pr_bets := pr_bets (mg_rounds m pr) @ [b]\<rparr>),
             mg_roundBets := (mg_roundBets m)(rb_RoundID b \<mapsto>
               (case mg_roundBets m (rb_RoundID b) of None \<Rightarrow> [] | Some bs \<Rightarrow> bs) @ [b])\<rparr>))"

text \<open>\<open>mid\<close> is what other calls do to the manager between the debit and the recording.\<close>

definition PlaceBetOnRound :: "'w mgr_config \<Rightarrow> byte list \<Rightarrow> gtime \<Rightarrow> ('w mgr \<Rightarrow> 'w mgr) \<Rightarrow>
    u64 \<Rightarrow> string \<Rightarrow> int \<Rightarrow> f64 \<Rightarrow> 'w mgr \<Rightarrow> (gerr + (round_bet \<times> f64)) \<times> 'w mgr" where
  "PlaceBetOnRound cfg rnd now mid roundID playerID marbleIdx amount m =
     (case round_bet_check cfg roundID marbleIdx amount m of
        Inl e \<Rightarrow> (Inl e, m)
      | Inr (pr, amountUnits) \<Rightarrow>
     (let betID = newID ''rbet_'' rnd in
      case round_bet_debit cfg playerID amountUnits betID m of
        (Inl e, m1) \<Rightarrow> (Inl e, m1)
      | (Inr balAfter, m1) \<Rightarrow>
     (let b = \<lparr>rb_BetID = betID, rb_PlayerID = playerID, rb_RoundID = roundID, rb_MarbleIdx = marbleIdx,
               rb_Amount = amount, rb_PlacedAt = now\<rparr> in
      case round_bet_record cfg pr amountUnits b (mid m1) of
        (Some e, m2) \<Rightarrow> (Inl e, m2)
      | (None, m2) \<Rightarrow> (Inr (b, balAfter), m2))))"

definition BetsForRound :: "u64 \<Rightarrow> string \<Rightarrow> 'w mgr \<Rightarrow> gerr + round_bet list" where
  "BetsForRound roundID playerID m =
     (case mg_roundBets m roundID of
        None \<Rightarrow> Inl (Sentinel (SessionErr ErrUnknownRound))
      | Some bets \<Rightarrow> if playerID = [] then Inr bets
                     else Inr (filter (\<lambda>b. rb_PlayerID b = playerID) bets))"

end
