(* ===== verification/Manager_Run.thy ===== *)
theory Manager_Run
  imports Manager
begin

text \<open>
  \<open>Manager.RunNextRound\<close> (server/rgs/manager.go): one round from the queue of bets to the
  settlements, in the code's order and with every early return, each of which leaves the
  manager as it is at that point.
\<close>

text \<open>
  What one run reads from outside: the random seed and round id of an unannounced round, the
  clock (\<open>New\<close> and \<open>OpenBuyIn\<close> share one reading), the simulator, the file \<open>os.Open\<close>
  finds at the simulator's replay path, and the environment of the save.
\<close>

record run_env =
  re_seed :: "gerr + byte list"
  re_freshID :: u64
  re_now :: gtime
  re_assign :: gtime
  re_start :: gtime
  re_finish :: gtime
  re_settle :: gtime
  re_workDir :: string
  re_sim :: "sim_request \<Rightarrow> gerr + sim_result"
  re_open :: "string \<Rightarrow> gerr + byte list"
  re_save :: save_env

section \<open>The steps\<close>

text \<open>Step 1: take the queue and the oldest announced round.\<close>

definition run_consume :: "'w mgr \<Rightarrow> nat list \<times> nat option \<times> int \<times> 'w mgr" where
  "run_consume m =
     (mg_pending m,
      (case mg_pendingRounds m of [] \<Rightarrow> None | p # ps \<Rightarrow> Some p),
      mg_prevTrack m,
      m\<lparr>mg_pending := [], mg_pendingRounds := tl (mg_pendingRounds m)\<rparr>)"

text \<open>Without one, mint a spec; it is known to \<open>BetsForRound\<close> but never queued.\<close>

definition run_spec :: "'w mgr_config \<Rightarrow> run_env \<Rightarrow> nat option \<Rightarrow> int \<Rightarrow> 'w mgr \<Rightarrow>
    ((gerr + nat) \<times> 'w mgr) option" where
  "run_spec cfg env pr prevTrack m =
     (case pr of
        Some p \<Rightarrow> Some (Inr p, m)
      | None \<Rightarrow>
     (case re_seed env of
        Inl e \<Rightarrow> Some (Inl (Wrapf ''rgs: seed'' e), m)
      | Inr rawSeed \<Rightarrow>
     (case mgr_select_track (cfg_TrackPool cfg) (re_freshID env) prevTrack of
        None \<Rightarrow> None
      | Some trackID \<Rightarrow>
          (let p = mg_nextRound m;
               spec = \<lparr>sp_RoundID = re_freshID env, sp_ServerSeedHex = hex_encode rawSeed,
                       sp_TrackID = trackID, sp_ClientSeeds = []\<rparr>
           in Some (Inr p, m\<lparr>mg_rounds := (mg_rounds m)(p := \<lparr>pr_spec = spec, pr_bets = []\<rparr>),
                             mg_nextRound := Suc p,
                             mg_roundBets := (mg_roundBets m)(re_freshID env \<mapsto> [])\<rparr>)))))"

text \<open>\<open>copy(seed[:], seedBytes)\<close> into 32 zero bytes.\<close>

definition seed32 :: "byte list \<Rightarrow> byte list" where
  "seed32 bs = take 32 bs @ replicate (32 - length bs) 0"

text \<open>Step 2: the participants, bettors first, then fillers up to the field size.\<close>

fun add_all :: "string \<Rightarrow> string list \<Rightarrow> round_state \<Rightarrow> gerr + round_state" where
  "add_all msg [] r = Inr r"
| "add_all msg (n # ns) r =
     (case AddParticipant \<lparr>part_MarbleIndex = 0, part_Name = n, part_ClientSeed = []\<rparr> r of
        (Some e, r') \<Rightarrow> Inl (Wrapf msg e)
      | (None, r') \<Rightarrow> add_all msg ns r')"

definition filler_name :: "nat \<Rightarrow> string" where
  "filler_name i = ''filler_'' @ (if i < 10 then ''0'' else []) @ format_nat i"

definition build_round :: "'w mgr_config \<Rightarrow> run_env \<Rightarrow> round_spec \<Rightarrow> byte list \<Rightarrow> string list \<Rightarrow>
    gerr + round_state" where
  "build_round cfg env spec seed names =
     (let r = new_round (sp_RoundID spec) seed (cfg_MaxMarbles cfg) (re_now env) in
      case OpenBuyIn (re_now env) r of
        (Some e, r0) \<Rightarrow> Inl (Wrapf ''rgs: OpenBuyIn'' e)
      | (None, r0) \<Rightarrow>
          (case add_all ''rgs: add bettor'' names r0 of
             Inl e \<Rightarrow> Inl e
           | Inr r1 \<Rightarrow>
               add_all ''rgs: add filler'' (map filler_name [length names..<nat (cfg_MaxMarbles cfg)]) r1))"

text \<open>Step 3: lock the marble of each session.\<close>

fun assign_all :: "gtime \<Rightarrow> int \<Rightarrow> nat list \<Rightarrow> (nat \<Rightarrow> session) \<Rightarrow> gerr option \<times> (nat \<Rightarrow> session)" where
  "assign_all now i [] h = (None, h)"
| "assign_all now i (p # ps) h =
     (case session_assign_marble now i (h p) of
        (Some e, s) \<Rightarrow> (Some (Wrapf ''rgs: assign marble'' e), h)
      | (None, s) \<Rightarrow> assign_all now (i + 1) ps (h(p := s)))"

text \<open>Step 5: the race.\<close>

definition sim_request_of :: "'w mgr_config \<Rightarrow> round_spec \<Rightarrow> byte list \<Rightarrow> string \<Rightarrow> round_state \<Rightarrow> sim_request" where
  "sim_request_of cfg spec seed workDir r =
     \<lparr>sr_GodotBin = cfg_GodotBin cfg, sr_ProjectPath = cfg_ProjectPath cfg, sr_WorkDir = workDir,
      sr_RoundID = sp_RoundID spec, sr_ServerSeed = seed,
      sr_ClientSeeds = map part_ClientSeed (round_Participants r), sr_TrackID = sp_TrackID spec,
      sr_Timeout = cfg_SimTimeout cfg, sr_LiveStreamAddr = []\<rparr>"

definition run_race :: "'w mgr_config \<Rightarrow> run_env \<Rightarrow> round_spec \<Rightarrow> byte list \<Rightarrow> round_state \<Rightarrow>
    gerr + (sim_result \<times> round_state \<times> byte list)" where
  "run_race cfg env spec seed r =
     (case StartRace (re_start env) r of
        (Some e, r1) \<Rightarrow> Inl (Wrapf ''rgs: StartRace'' e)
      | (None, r1) \<Rightarrow>
     (case re_sim env (sim_request_of cfg spec seed (re_workDir env) r1) of
        Inl e \<Rightarrow> Inl (Wrapf ''rgs: sim'' e)
      | Inr simRes \<Rightarrow>
     (case FinishRace \<lparr>res_WinnerIndex = sim_WinnerMarbleIndex simRes, res_FinishedAt = re_finish env\<rparr>
             (re_finish env) r1 of
        (Some e, r2) \<Rightarrow> Inl (Wrapf ''rgs: FinishRace'' e)
      | (None, r2) \<Rightarrow>
     (case round_RevealedSeed r2 of
        (revealed, False) \<Rightarrow> Inl (Errorf ''rgs: seed unexpectedly not revealed'')
      | (revealed, True) \<Rightarrow> Inr (simRes, r2, revealed)))))"

text \<open>Step 7: the sessions.  Reading the marble of a nil bet is a panic.\<close>

definition session_outcome :: "gtime \<Rightarrow> int \<Rightarrow> u64 \<Rightarrow> bet \<Rightarrow> settlement_outcome" where
  "session_outcome now winner prize b =
     (let won = (bet_MarbleIndex b = winner) in
      \<lparr>so_BetID = bet_BetID b, so_PlayerID = bet_PlayerID b, so_Amount = bet_Amount b, so_Won = won,
       so_PrizeAmount = (if won then prize else 0), so_WinnerIndex = winner,
       so_CreditTxID = (if won then bet_BetID b @ '':credit'' else []), so_SettledAt = now\<rparr>)"

fun settle_sessions :: "'w wallet \<Rightarrow> gtime \<Rightarrow> int \<Rightarrow> u64 \<Rightarrow> nat list \<Rightarrow> (nat \<Rightarrow> session) \<Rightarrow> 'w \<Rightarrow>
    ((gerr + settlement_outcome list) \<times> (nat \<Rightarrow> session) \<times> 'w) option" where
  "settle_sessions W now winner prize [] h w = Some (Inr [], h, w)"
| "settle_sessions W now winner prize (p # ps) h w =
     (case ses_Bet (h p) of
        None \<Rightarrow> None
      | Some b \<Rightarrow>
     (let outcome = session_outcome now winner prize b;
          (cerr, w1) = (if so_Won outcome
             then w_Credit W (ses_PlayerID (h p)) (so_PrizeAmount outcome) (so_CreditTxID outcome) w
             else (None, w))
      in case cerr of
           Some e \<Rightarrow> Some (Inl (Wrapf ''rgs: credit winner'' e), h, w1)
         | None \<Rightarrow>
             (case session_settle now outcome (h p) of
                (Some e, s) \<Rightarrow> Some (Inl (Wrapf ''rgs: session Settle'' e), h, w1)
              | (None, s) \<Rightarrow>
                  (case settle_sessions W now winner prize ps (h(p := s)) w1 of
                     None \<Rightarrow> None
                   | Some (res, h', w') \<Rightarrow> Some (map_sum id (Cons outcome) res, h', w')))))"

text \<open>Step 8: the manifest.\<close>

definition manifest_of :: "round_spec \<Rightarrow> round_state \<Rightarrow> byte list \<Rightarrow> sim_result \<Rightarrow> manifest" where
  "manifest_of spec r revealed simRes =
     \<lparr>mf_RoundID = sp_RoundID spec, mf_CreatedAt = 0, mf_ProtocolVersion = 3,
      mf_TickRateHz = sim_TickRateHz simRes, mf_TrackID = sp_TrackID spec,
      mf_ServerSeedHashHex = hex_encode (round_CommitHash r), mf_ServerSeedHex = hex_encode revealed,
      mf_Participants = map (\<lambda>p. \<lparr>mp_MarbleIndex = part_MarbleIndex p, mp_Name = part_Name p,
        mp_ClientSeed = part_ClientSeed p\<rparr>) (round_Participants r),
      mf_Winner = \<lparr>mw_MarbleIndex = sim_WinnerMarbleIndex simRes, mw_FinishTick = sim_FinishTick simRes\<rparr>,
      mf_ReplaySHA256Hex = []\<rparr>"

definition persist_round :: "run_env \<Rightarrow> manifest \<Rightarrow> string \<Rightarrow> disk \<Rightarrow> (gerr + manifest) \<times> disk" where
  "persist_round env mf replayPath fs =
     (case re_open env replayPath of
        Inl e \<Rightarrow> (Inl (Wrapf ''rgs: open replay'' e), fs)
      | Inr bytes \<Rightarrow>
          (case Save (re_save env) (Some mf) bytes fs of
             (Some e, mf', tr) \<Rightarrow> (Inl (Wrapf ''rgs: store.Save'' e), last tr)
           | (None, mf', tr) \<Rightarrow> (Inr (the mf'), last tr)))"

text \<open>Step 9: the bets on the round.\<close>

definition round_bet_payout :: "f64 \<Rightarrow> f64" where
  "round_bet_payout amount = f64_mult amount PayoutMultiplier"

definition payout_units :: "(f64 \<Rightarrow> u64) \<Rightarrow> f64 \<Rightarrow> u64" where
  "payout_units oor amount = f64_to_u64 oor (f64_mult (round_bet_payout amount) (f64_int 100))"

fun settle_round_bets :: "'w wallet \<Rightarrow> (f64 \<Rightarrow> u64) \<Rightarrow> int \<Rightarrow> round_bet list \<Rightarrow> 'w \<Rightarrow>
    (gerr + round_bet_outcome list) \<times> 'w" where
  "settle_round_bets W oor winner [] w = (Inr [], w)"
| "settle_round_bets W oor winner (b # bs) w =
     (let won = (rb_MarbleIdx b = winner);
          payout = (if won then round_bet_payout (rb_Amount b) else f64_int 0);
          (cerr, w1) = (if won then w_Credit W (rb_PlayerID b) (payout_units oor (rb_Amount b))
                          (rb_BetID b @ '':credit'') w else (None, w))
      in case cerr of
           Some e \<Rightarrow> (Inl (Wrapf ''rgs: credit round-bet winner'' e), w1)
         | None \<Rightarrow>
             (case settle_round_bets W oor winner bs w1 of
                (res, w') \<Rightarrow>
                  (map_sum id (Cons \<lparr>ro_BetID = rb_BetID b, ro_PlayerID = rb_PlayerID b,
                     ro_MarbleIdx = rb_MarbleIdx b, ro_Amount = rb_Amount b, ro_Won = won,
                     ro_Payout = payout, ro_WinnerIndex = winner\<rparr>) res, w')))"

section \<open>The round\<close>

type_synonym run_result = "gerr + manifest \<times> settlement_outcome list \<times> round_bet_outcome list"

text \<open>From the settlement of the sessions on, with the race over.\<close>

definition run_settle :: "'w mgr_config \<Rightarrow> run_env \<Rightarrow> nat list \<Rightarrow> nat \<Rightarrow> round_state \<Rightarrow> sim_result \<Rightarrow>
    byte list \<Rightarrow> 'w mgr \<Rightarrow> (run_result \<times> 'w mgr) option" where
  "run_settle cfg env pending pr r simRes revealed m =
     (let spec = pr_spec (mg_rounds m pr); winner = sim_WinnerMarbleIndex simRes in
      case settle \<lparr>RTPBasisPoints = cfg_RTPBps cfg\<rparr>
             (replicate (nat (cfg_MaxMarbles cfg)) (cfg_BuyIn cfg)) winner of
        Inl e \<Rightarrow> Some (Inl (Wrapf ''rgs: rtp.Settle'' e), m)
      | Inr (prize, houseCut) \<Rightarrow>
     (case settle_sessions (cfg_Wallet cfg) (re_settle env) winner prize pending (mg_heap m) (mg_wallet m) of
        None \<Rightarrow> None
      | Some (Inl e, h, w) \<Rightarrow> Some (Inl e, m\<lparr>mg_heap := h, mg_wallet := w\<rparr>)
      | Some (Inr outcomes, h, w) \<Rightarrow>
     (let m1 = m\<lparr>mg_heap := h, mg_wallet := w\<rparr> in
      case persist_round env (manifest_of spec r revealed simRes) (sim_ReplayPath simRes) (mg_disk m1) of
        (Inl e, fs) \<Rightarrow> Some (Inl e, m1\<lparr>mg_disk := fs\<rparr>)
      | (Inr mf, fs) \<Rightarrow>
     (let m2 = m1\<lparr>mg_disk := fs\<rparr> in
      case settle_round_bets (cfg_Wallet cfg) (cfg_oor cfg) winner (pr_bets (mg_rounds m2 pr)) (mg_wallet m2) of
        (Inl e, w2) \<Rightarrow> Some (Inl e, m2\<lparr>mg_wallet := w2\<rparr>)
      | (Inr rbOutcomes, w2) \<Rightarrow>
          Some (Inr (mf, outcomes, rbOutcomes),
                m2\<lparr>mg_wallet := w2, mg_prevTrack := uint (sp_TrackID spec)\<rparr>)))))"

definition run_round :: "'w mgr_config \<Rightarrow> run_env \<Rightarrow> nat list \<Rightarrow> nat \<Rightarrow> 'w mgr \<Rightarrow>
    (run_result \<times> 'w mgr) option" where
  "run_round cfg env pending pr m =
     (let spec = pr_spec (mg_rounds m pr) in
      case hex_decode (sp_ServerSeedHex spec) of
        Inl e \<Rightarrow> Some (Inl (Wrapf ''rgs: decode server seed'' e), m)
      | Inr seedBytes \<Rightarrow>
     (let seed = seed32 seedBytes in
      case build_round cfg env spec seed (map (\<lambda>p. ses_PlayerID (mg_heap m p)) pending) of
        Inl e \<Rightarrow> Some (Inl e, m)
      | Inr r \<Rightarrow>
     (case assign_all (re_assign env) 0 pending (mg_heap m) of
        (Some e, h) \<Rightarrow> Some (Inl e, m\<lparr>mg_heap := h\<rparr>)
      | (None, h) \<Rightarrow>
     (let m1 = m\<lparr>mg_heap := h\<rparr> in
      case run_race cfg env spec seed r of
        Inl e \<Rightarrow> Some (Inl e, m1)
      | Inr (simRes, r2, revealed) \<Rightarrow> run_settle cfg env pending pr r2 simRes revealed m1))))"

definition RunNextRound :: "'w mgr_config \<Rightarrow> run_env \<Rightarrow> 'w mgr \<Rightarrow> (run_result \<times> 'w mgr) option" where
  "RunNextRound cfg env m =
     (let (pending, pr, prevTrack, m1) = run_consume m in
      case run_spec cfg env pr prevTrack m1 of
        None \<Rightarrow> None
      | Some (Inl e, m2) \<Rightarrow> Some (Inl e, m2)
      | Some (Inr p, m2) \<Rightarrow> run_round cfg env pending p m2)"

end
