(* ===== verification/Manager_Steps.thy ===== *)
theory Manager_Steps
  imports Manager_Run
begin

text \<open>
  What the loops of \<open>RunNextRound\<close> compute (server/rgs/manager.go): the participants a field
  is filled with, the marbles the sessions get, the settlements, and the effect of each on
  the wallet.
\<close>

section \<open>The field\<close>

definition entrant :: "nat \<Rightarrow> string \<Rightarrow> participant" where
  "entrant i n = \<lparr>part_MarbleIndex = int i, part_Name = n, part_ClientSeed = []\<rparr>"

definition entrants :: "nat \<Rightarrow> string list \<Rightarrow> participant list" where
  "entrants i ns = map (\<lambda>(k, n). entrant k n) (enumerate i ns)"

lemma entrants_simps [simp]:
  "entrants i [] = []" "entrants i (n # ns) = entrant i n # entrants (Suc i) ns"
  by (simp_all add: entrants_def)

lemma length_entrants [simp]: "length (entrants i ns) = length ns"
  by (simp add: entrants_def)

lemma entrants_append: "entrants i (xs @ ys) = entrants i xs @ entrants (i + length xs) ys"
  by (induction xs arbitrary: i) simp_all

lemma nth_entrants: "k < length ns \<Longrightarrow> entrants i ns ! k = entrant (i + k) (ns ! k)"
  by (simp add: entrants_def nth_enumerate_eq)

text \<open>Adding goes through exactly while there is room and every name is filled in.\<close>

lemma add_all_ok:
  assumes "rnd_phase r = PhaseBuyIn" and "[] \<notin> set ns"
    and "int (length (rnd_participants r) + length ns) \<le> rnd_maxMarbles r"
  shows "add_all msg ns r = Inr (r\<lparr>rnd_participants := rnd_participants r @
    entrants (length (rnd_participants r)) ns\<rparr>)"
  using assms
proof (induction ns arbitrary: r)
  case Nil
  then show ?case by simp
next
  case (Cons n ns)
  let ?r = "r\<lparr>rnd_participants := rnd_participants r @ [entrant (length (rnd_participants r)) n]\<rparr>"
  have "AddParticipant \<lparr>part_MarbleIndex = 0, part_Name = n, part_ClientSeed = []\<rparr> r = (None, ?r)"
    using Cons.prems by (auto simp: AddParticipant_def entrant_def)
  with Cons.IH [of ?r] Cons.prems show ?case by simp
qed

lemma add_all_full:
  assumes "rnd_phase r = PhaseBuyIn" and "[] \<notin> set ns"
    and "rnd_maxMarbles r < int (length (rnd_participants r) + length ns)"
    and "int (length (rnd_participants r)) \<le> rnd_maxMarbles r"
  shows "add_all msg ns r = Inl (Wrapf msg (Sentinel (RoundErr ErrRoundFull)))"
  using assms
proof (induction ns arbitrary: r)
  case Nil
  then show ?case by simp
next
  case (Cons n ns)
  let ?p = "\<lparr>part_MarbleIndex = 0, part_Name = n, part_ClientSeed = []\<rparr>"
  let ?r = "r\<lparr>rnd_participants := rnd_participants r @ [entrant (length (rnd_participants r)) n]\<rparr>"
  show ?case
  proof (cases "int (length (rnd_participants r)) = rnd_maxMarbles r")
    case True
    with Cons.prems have "AddParticipant ?p r = (Some (Sentinel (RoundErr ErrRoundFull)), r)"
      by (simp add: AddParticipant_def)
    then show ?thesis by simp
  next
    case False
    with Cons.prems have "AddParticipant ?p r = (None, ?r)"
      by (auto simp: AddParticipant_def entrant_def)
    with Cons.IH [of ?r] Cons.prems False show ?thesis by simp
  qed
qed

definition field_names :: "int \<Rightarrow> string list \<Rightarrow> string list" where
  "field_names n names = names @ map filler_name [length names..<nat n]"

text \<open>A round with its field, ready to race.\<close>

definition field_round :: "'w mgr_config \<Rightarrow> run_env \<Rightarrow> round_spec \<Rightarrow> byte list \<Rightarrow> string list \<Rightarrow> round_state" where
  "field_round cfg env spec seed names =
     (new_round (sp_RoundID spec) seed (cfg_MaxMarbles cfg) (re_now env))
       \<lparr>rnd_phase := PhaseBuyIn, rnd_participants := entrants 0 (field_names (cfg_MaxMarbles cfg) names)\<rparr>"

lemma build_round_eq:
  assumes "[] \<notin> set names" and "0 \<le> cfg_MaxMarbles cfg"
  shows "build_round cfg env spec seed names =
    (if int (length names) \<le> cfg_MaxMarbles cfg then Inr (field_round cfg env spec seed names)
     else Inl (Wrapf ''rgs: add bettor'' (Sentinel (RoundErr ErrRoundFull))))"
proof -
  define r0 where "r0 = (new_round (sp_RoundID spec) seed (cfg_MaxMarbles cfg) (re_now env))\<lparr>rnd_phase := PhaseBuyIn\<rparr>"
  have r0: "rnd_phase r0 = PhaseBuyIn" "rnd_participants r0 = []" "rnd_maxMarbles r0 = cfg_MaxMarbles cfg"
    by (simp_all add: r0_def new_round_def)
  have open_ok: "OpenBuyIn (re_now env) (new_round (sp_RoundID spec) seed (cfg_MaxMarbles cfg) (re_now env)) = (None, r0)"
    by (simp add: OpenBuyIn_def round_advance_def r0_def new_round_def)
  show ?thesis
  proof (cases "int (length names) \<le> cfg_MaxMarbles cfg")
    case False
    then have "add_all ''rgs: add bettor'' names r0 = Inl (Wrapf ''rgs: add bettor'' (Sentinel (RoundErr ErrRoundFull)))"
      using assms r0 by (intro add_all_full) auto
    with False open_ok show ?thesis by (simp add: build_round_def Let_def)
  next
    case True
    let ?r1 = "r0\<lparr>rnd_participants := entrants 0 names\<rparr>"
    let ?fill = "map filler_name [length names..<nat (cfg_MaxMarbles cfg)]"
    have "add_all ''rgs: add bettor'' names r0 = Inr ?r1"
      using add_all_ok [of r0 names] assms r0 True by simp
    moreover have "[] \<notin> set ?fill" by (auto simp: filler_name_def)
    then have "add_all ''rgs: add filler'' ?fill ?r1 = Inr (?r1\<lparr>rnd_participants := entrants 0 names @ entrants (length names) ?fill\<rparr>)"
      using add_all_ok [of ?r1 ?fill] r0 True by simp
    ultimately show ?thesis
      using True open_ok
      by (simp add: build_round_def Let_def field_round_def field_names_def entrants_append r0_def)
  qed
qed

lemma length_field_names:
  "int (length names) \<le> n \<Longrightarrow> length (field_names n names) = nat n"
  by (simp add: field_names_def)

section \<open>The race\<close>

text \<open>A race that goes through reveals the round's own seed.\<close>

lemma run_race_Inr:
  assumes "run_race cfg env spec seed r = Inr (simRes, r2, revealed)"
  shows "re_sim env (sim_request_of cfg spec seed (re_workDir env) r) = Inr simRes \<and>
    revealed = rnd_serverSeed r \<and> round_CommitHash r2 = round_CommitHash r \<and>
    round_Participants r2 = round_Participants r"
  using assms
  by (auto simp: run_race_def StartRace_def FinishRace_def round_advance_def round_RevealedSeed_def
      sim_request_of_def round_Participants_def round_CommitHash_def
      split: prod.splits option.splits sum.splits bool.splits if_splits)

definition clock_ok :: "run_env \<Rightarrow> bool" where
  "clock_ok env \<longleftrightarrow> re_now env \<le> re_start env \<and> re_start env \<le> re_finish env \<and> re_finish env \<noteq> 0"

lemma run_race_ok:
  assumes "clock_ok env" and "rnd_phase r = PhaseBuyIn" and "rnd_phaseStart r = re_now env"
  shows "run_race cfg env spec seed r =
    (case re_sim env (sim_request_of cfg spec seed (re_workDir env) r) of
       Inl e \<Rightarrow> Inl (Wrapf ''rgs: sim'' e)
     | Inr simRes \<Rightarrow> Inr (simRes,
         r\<lparr>rnd_phase := PhaseSettle, rnd_phaseStart := re_finish env, rnd_hasResult := True,
           rnd_result := \<lparr>res_WinnerIndex = sim_WinnerMarbleIndex simRes, res_FinishedAt = re_finish env\<rparr>\<rparr>,
         rnd_serverSeed r))"
  using assms
  by (simp add: run_race_def clock_ok_def StartRace_def FinishRace_def round_advance_def
      round_RevealedSeed_def sim_request_of_def round_Participants_def split: sum.split)

section \<open>The marbles\<close>

definition raced :: "gtime \<Rightarrow> int \<Rightarrow> session \<Rightarrow> session" where
  "raced now i s = s\<lparr>ses_Bet := map_option (\<lambda>b. b\<lparr>bet_MarbleIndex := i\<rparr>) (ses_Bet s),
     ses_State := SessionRacing, ses_UpdatedAt := now\<rparr>"

lemma raced_sel [simp]:
  "ses_PlayerID (raced now i s) = ses_PlayerID s" "ses_State (raced now i s) = SessionRacing"
  "ses_Bet (raced now i s) = map_option (\<lambda>b. b\<lparr>bet_MarbleIndex := i\<rparr>) (ses_Bet s)"
  "ses_ID (raced now i s) = ses_ID s"
  by (simp_all add: raced_def)

text \<open>A session with a bet that waits for its race.\<close>

definition waiting :: "session \<Rightarrow> bool" where
  "waiting s \<longleftrightarrow> ses_State s = SessionBet \<and> ses_Bet s \<noteq> None"

lemma assign_all_ok:
  assumes "distinct ps" and "\<forall>p \<in> set ps. waiting (h p)"
  shows "\<exists>h'. assign_all now i ps h = (None, h') \<and> (\<forall>p. p \<notin> set ps \<longrightarrow> h' p = h p) \<and>
    (\<forall>k < length ps. h' (ps ! k) = raced now (i + int k) (h (ps ! k)))"
  using assms
proof (induction ps arbitrary: i h)
  case Nil
  then show ?case by simp
next
  case (Cons p ps)
  let ?h = "h(p := raced now i (h p))"
  have step: "session_assign_marble now i (h p) = (None, raced now i (h p))"
    using Cons.prems(2) by (auto simp: session_assign_marble_def raced_def waiting_def split: option.split)
  have "\<forall>q \<in> set ps. waiting (?h q)" using Cons.prems by auto
  moreover have "distinct ps" using Cons.prems by simp
  ultimately obtain h' where
    h': "assign_all now (i + 1) ps ?h = (None, h')" "\<forall>q. q \<notin> set ps \<longrightarrow> h' q = ?h q"
      "\<forall>k < length ps. h' (ps ! k) = raced now (i + 1 + int k) (?h (ps ! k))"
    using Cons.IH [of ?h "i + 1"] by blast
  have "h' ((p # ps) ! k) = raced now (i + int k) (h ((p # ps) ! k))" if "k < length (p # ps)" for k
  proof (cases k)
    case 0
    with h'(2) Cons.prems(1) show ?thesis by simp
  next
    case (Suc j)
    with that h'(3) Cons.prems(1) show ?thesis by (auto simp: algebra_simps)
  qed
  moreover have "assign_all now i (p # ps) h = (None, h')" using step h'(1) by simp
  ultimately show ?case using h'(2) by auto
qed

text \<open>Whatever happens, an assignment never breaks a session.\<close>

definition heap_ok :: "nat \<Rightarrow> (nat \<Rightarrow> session) \<Rightarrow> bool" where
  "heap_ok n h \<longleftrightarrow> (\<forall>p < n. session_inv (h p) \<and> ses_PlayerID (h p) \<noteq> [])"

lemma heap_ok_upd [inv_intros]:
  "heap_ok n h \<Longrightarrow> session_inv s \<Longrightarrow> ses_PlayerID s \<noteq> [] \<Longrightarrow> heap_ok n (h(p := s))"
  by (simp add: heap_ok_def)

lemma assign_all_heap_ok:
  assumes "heap_ok n h" and "\<forall>p \<in> set ps. p < n"
  shows "heap_ok n (snd (assign_all now i ps h))"
  using assms
proof (induction ps arbitrary: i h)
  case Nil
  then show ?case by simp
next
  case (Cons p ps)
  obtain e s where st: "session_assign_marble now i (h p) = (e, s)" by fastforce
  then have ap: "session_apply (EvAssignMarble now i) (h p) = (e, s)" by simp
  have "session_inv s" and "ses_PlayerID s \<noteq> []"
    using Cons.prems session_apply_inv [OF _ ap] session_apply_frame [OF ap] by (auto simp: heap_ok_def)
  then have "heap_ok n (h(p := s))" using Cons.prems(1) by (intro heap_ok_upd)
  with Cons st show ?case by (cases e) auto
qed

section \<open>The settlement of the sessions\<close>

definition settled :: "gtime \<Rightarrow> int \<Rightarrow> u64 \<Rightarrow> session \<Rightarrow> session" where
  "settled now winner prize s = s\<lparr>ses_LastResult := Some (session_outcome now winner prize (the (ses_Bet s))),
     ses_Bet := None, ses_State := SessionSettled, ses_UpdatedAt := now\<rparr>"

lemma settled_sel [simp]:
  "ses_PlayerID (settled now winner prize s) = ses_PlayerID s"
  "ses_State (settled now winner prize s) = SessionSettled" "ses_Bet (settled now winner prize s) = None"
  "ses_LastResult (settled now winner prize s) = Some (session_outcome now winner prize (the (ses_Bet s)))"
  by (simp_all add: settled_def)

text \<open>A session in the race with a bet, and on which marble it is.\<close>

definition racing :: "session \<Rightarrow> bool" where
  "racing s \<longleftrightarrow> ses_State s = SessionRacing \<and> ses_Bet s \<noteq> None"

definition marble_of :: "session \<Rightarrow> int" where
  "marble_of s = bet_MarbleIndex (the (ses_Bet s))"

definition settle_heap :: "gtime \<Rightarrow> int \<Rightarrow> u64 \<Rightarrow> nat list \<Rightarrow> (nat \<Rightarrow> session) \<Rightarrow> nat \<Rightarrow> session" where
  "settle_heap now winner prize ps h = (\<lambda>p. if p \<in> set ps then settled now winner prize (h p) else h p)"

text \<open>The credits of a settlement, one after the other, as long as they succeed.\<close>

fun credit_winners :: "'w wallet \<Rightarrow> int \<Rightarrow> u64 \<Rightarrow> session list \<Rightarrow> 'w \<Rightarrow> gerr option \<times> 'w" where
  "credit_winners W winner prize [] w = (None, w)"
| "credit_winners W winner prize (s # ss) w =
     (if marble_of s = winner then
        (case w_Credit W (ses_PlayerID s) prize (bet_BetID (the (ses_Bet s)) @ '':credit'') w of
           (None, w1) \<Rightarrow> credit_winners W winner prize ss w1
         | (Some e, w1) \<Rightarrow> (Some e, w1))
      else credit_winners W winner prize ss w)"

lemma settle_sessions_eq:
  assumes "distinct ps" and "\<forall>p \<in> set ps. racing (h p)"
  shows "\<exists>h'. settle_sessions W now winner prize ps h w =
    (case credit_winners W winner prize (map h ps) w of
       (None, w') \<Rightarrow> Some (Inr (map (\<lambda>p. session_outcome now winner prize (the (ses_Bet (h p)))) ps),
                         settle_heap now winner prize ps h, w')
     | (Some e, w') \<Rightarrow> Some (Inl (Wrapf ''rgs: credit winner'' e), h', w'))"
  using assms
proof (induction ps arbitrary: h w)
  case Nil
  then show ?case by (simp add: settle_heap_def)
next
  case (Cons p ps)
  obtain b where b: "ses_Bet (h p) = Some b" and st: "ses_State (h p) = SessionRacing"
    using Cons.prems(2) by (auto simp: racing_def)
  let ?out = "session_outcome now winner prize b"
  let ?h = "h(p := settled now winner prize (h p))"
  have step: "session_settle now ?out (h p) = (None, settled now winner prize (h p))"
    using b st by (simp add: session_settle_def settled_def)
  have rest: "\<forall>q \<in> set ps. racing (?h q)" and d: "distinct ps" and p: "p \<notin> set ps"
    using Cons.prems by auto
  have maps: "map ?h ps = map h ps"
      "map (\<lambda>q. session_outcome now winner prize (the (ses_Bet (?h q)))) ps =
       map (\<lambda>q. session_outcome now winner prize (the (ses_Bet (h q)))) ps"
    using p by auto
  have heap: "settle_heap now winner prize ps ?h = settle_heap now winner prize (p # ps) h"
    using p by (auto simp: settle_heap_def)
  note IH = Cons.IH [OF d rest, unfolded maps heap]
  show ?case
  proof (cases "bet_MarbleIndex b = winner")
    case False
    obtain h' where "settle_sessions W now winner prize ps ?h w =
      (case credit_winners W winner prize (map h ps) w of
         (None, w') \<Rightarrow> Some (Inr (map (\<lambda>p. session_outcome now winner prize (the (ses_Bet (h p)))) ps),
                           settle_heap now winner prize (p # ps) h, w')
       | (Some e, w') \<Rightarrow> Some (Inl (Wrapf ''rgs: credit winner'' e), h', w'))"
      using IH [of w] by blast
    with False b step show ?thesis
      by (auto simp: session_outcome_def marble_of_def Let_def split: option.splits prod.splits)
  next
    case True
    obtain e w1 where cr: "w_Credit W (ses_PlayerID (h p)) prize (bet_BetID b @ '':credit'') w = (e, w1)"
      by fastforce
    obtain h' where "settle_sessions W now winner prize ps ?h w1 =
      (case credit_winners W winner prize (map h ps) w1 of
         (None, w') \<Rightarrow> Some (Inr (map (\<lambda>p. session_outcome now winner prize (the (ses_Bet (h p)))) ps),
                           settle_heap now winner prize (p # ps) h, w')
       | (Some e, w') \<Rightarrow> Some (Inl (Wrapf ''rgs: credit winner'' e), h', w'))"
      using IH [of w1] by blast
    with True b step cr show ?thesis
      by (cases e) (auto simp: session_outcome_def marble_of_def Let_def split: option.splits prod.splits)
  qed
qed

text \<open>With one session per marble there is at most one credit.\<close>

lemma credit_winners_marbles:
  assumes "\<forall>k < length ss. marble_of (ss ! k) = i + int k"
  shows "credit_winners W winner prize ss w =
    (if i \<le> winner \<and> winner < i + int (length ss)
     then (let s = ss ! nat (winner - i) in
           w_Credit W (ses_PlayerID s) prize (bet_BetID (the (ses_Bet s)) @ '':credit'') w)
     else (None, w))"
  using assms
proof (induction ss arbitrary: i w)
  case Nil
  then show ?case by auto
next
  case (Cons s ss)
  have tl: "\<forall>k < length ss. marble_of (ss ! k) = i + 1 + int k"
  proof (intro allI impI)
    fix k assume "k < length ss"
    then show "marble_of (ss ! k) = i + 1 + int k" using Cons.prems [rule_format, of "Suc k"] by simp
  qed
  have hd: "marble_of s = i" using Cons.prems [rule_format, of 0] by simp
  note IH = Cons.IH [OF tl]
  show ?case
  proof (cases "winner = i")
    case True
    then show ?thesis using hd IH by (simp add: Let_def split: prod.split option.split)
  next
    case False
    have "(s # ss) ! nat (winner - i) = ss ! nat (winner - (i + 1))" if "i \<le> winner"
    proof -
      have "nat (winner - i) = Suc (nat (winner - (i + 1)))" using that False by simp
      then show ?thesis by simp
    qed
    with False hd IH [of w] show ?thesis by (auto simp: Let_def)
  qed
qed

lemma settle_sessions_heap_ok:
  assumes "settle_sessions W now winner prize ps h w = Some (res, h', w')"
    and "heap_ok n h" and "\<forall>p \<in> set ps. p < n"
  shows "heap_ok n h'"
  using assms
proof (induction ps arbitrary: h w res)
  case Nil
  then show ?case by simp
next
  case (Cons p ps)
  obtain b where b: "ses_Bet (h p) = Some b"
    using Cons.prems(1) by (auto split: option.splits)
  let ?out = "session_outcome now winner prize b"
  obtain cerr w1 where cr: "(if so_Won ?out then w_Credit W (ses_PlayerID (h p)) (so_PrizeAmount ?out) (so_CreditTxID ?out) w
      else (None, w)) = (cerr, w1)" by fastforce
  obtain e s where st: "session_settle now ?out (h p) = (e, s)" by fastforce
  then have ap: "session_apply (EvSettle now ?out) (h p) = (e, s)" by simp
  have "heap_ok n (h(p := s))"
    using Cons.prems(2,3) session_apply_inv [OF _ ap] session_apply_frame [OF ap]
    by (intro heap_ok_upd) (auto simp: heap_ok_def)
  with Cons b cr st show ?case
    by (cases cerr; cases e) (auto simp: Let_def split: option.splits prod.splits)
qed

section \<open>The bets on the round\<close>

definition round_outcome :: "int \<Rightarrow> round_bet \<Rightarrow> round_bet_outcome" where
  "round_outcome winner b =
     \<lparr>ro_BetID = rb_BetID b, ro_PlayerID = rb_PlayerID b, ro_MarbleIdx = rb_MarbleIdx b,
      ro_Amount = rb_Amount b, ro_Won = (rb_MarbleIdx b = winner),
      ro_Payout = (if rb_MarbleIdx b = winner then round_bet_payout (rb_Amount b) else f64_int 0),
      ro_WinnerIndex = winner\<rparr>"

lemma settle_round_bets_Inr:
  "settle_round_bets W oor winner bs w = (Inr outs, w') \<Longrightarrow> outs = map (round_outcome winner) bs"
proof (induction bs arbitrary: w outs)
  case Nil
  then show ?case by simp
next
  case (Cons b bs)
  obtain res w2 where "(if rb_MarbleIdx b = winner then w_Credit W (rb_PlayerID b)
      (payout_units oor (rb_Amount b)) (rb_BetID b @ '':credit'') w else (None, w)) = (None, w2)"
    and rest: "settle_round_bets W oor winner bs w2 = (res, w')"
    and "Inr outs = map_sum id (Cons (round_outcome winner b)) res"
    using Cons.prems by (auto simp: Let_def round_outcome_def split: prod.splits option.splits)
  then obtain outs' where "res = Inr outs'" "outs = round_outcome winner b # outs'"
    by (cases res) auto
  with Cons.IH [of w2 outs'] rest show ?case by simp
qed

end
