(* ===== verification/Manager_Spec.thy ===== *)
theory Manager_Spec
  imports Manager_Steps
begin

text \<open>
  The manager over time (server/rgs/manager.go): its calls as events, the invariant that
  ties queue, session table, announced rounds and their bets together, and what follows for
  the run of a round.
\<close>

section \<open>Calls as events\<close>

datatype mgr_event =
    EvOpen "byte list" gtime string
  | EvBet "byte list" gtime gtime string u64
  | EvCloseSession gtime string
  | EvMint "gerr + byte list" u64
  | EvRoundBet "byte list" gtime u64 string int f64
  | EvRun run_env

text \<open>What the randomness source delivers is 32 bytes, or an error.\<close>

definition seed_ok :: "gerr + byte list \<Rightarrow> bool" where
  "seed_ok r = (case r of Inl e \<Rightarrow> True | Inr s \<Rightarrow> length s = 32)"

fun mgr_enabled :: "mgr_event \<Rightarrow> bool" where
  "mgr_enabled (EvMint r rid) = seed_ok r"
| "mgr_enabled (EvRun env) = seed_ok (re_seed env)"
| "mgr_enabled _ = True"

fun mgr_apply :: "'w mgr_config \<Rightarrow> mgr_event \<Rightarrow> 'w mgr \<Rightarrow> 'w mgr option" where
  "mgr_apply cfg (EvOpen rnd now pl) m = Some (snd (OpenSession rnd now pl m))"
| "mgr_apply cfg (EvBet rnd t now sid a) m = Some (snd (PlaceBet cfg rnd t now sid a m))"
| "mgr_apply cfg (EvCloseSession now sid) m = Some (snd (CloseSession now sid m))"
| "mgr_apply cfg (EvMint r rid) m = map_option snd (GenerateRoundSpec cfg r rid m)"
| "mgr_apply cfg (EvRoundBet rnd now rid pl i a) m = Some (snd (PlaceBetOnRound cfg rnd now id rid pl i a m))"
| "mgr_apply cfg (EvRun env) m = map_option snd (RunNextRound cfg env m)"

definition mgr_step :: "'w mgr_config \<Rightarrow> 'w mgr \<Rightarrow> mgr_event \<Rightarrow> 'w mgr \<Rightarrow> bool" where
  "mgr_step cfg m ev m' \<longleftrightarrow> mgr_enabled ev \<and> mgr_apply cfg ev m = Some m'"

text \<open>The state \<open>NewManager\<close> returns, under a configuration it returns.\<close>

definition cfg_ok :: "'w mgr_config \<Rightarrow> bool" where
  "cfg_ok cfg \<longleftrightarrow> 0 < cfg_MaxMarbles cfg \<and> cfg_TrackPool cfg \<noteq> [] \<and> length (cfg_TrackPool cfg) < two64"

definition fresh_mgr :: "'w mgr \<Rightarrow> bool" where
  "fresh_mgr m \<longleftrightarrow> (\<exists>w fs. m = blank_mgr w fs)"

section \<open>The invariant\<close>

definition queue_ok :: "'w mgr \<Rightarrow> bool" where
  "queue_ok m \<longleftrightarrow> distinct (mg_pending m) \<and>
     (\<forall>p \<in> set (mg_pending m). p < mg_next m \<and> ses_State (mg_heap m p) = SessionBet)"

definition table_ok :: "'w mgr \<Rightarrow> bool" where
  "table_ok m \<longleftrightarrow> (\<forall>sid p. mg_sessions m sid = Some p \<longrightarrow> p < mg_next m)"

text \<open>
  An announced round is known to \<open>BetsForRound\<close>, has a full seed, and carries only bets on
  its own id and on marbles of the field.
\<close>

definition round_entry_ok :: "'w mgr_config \<Rightarrow> 'w mgr \<Rightarrow> nat \<Rightarrow> bool" where
  "round_entry_ok cfg m p \<longleftrightarrow> p < mg_nextRound m \<and>
     mg_roundBets m (sp_RoundID (pr_spec (mg_rounds m p))) \<noteq> None \<and>
     (\<exists>seed. length seed = 32 \<and> sp_ServerSeedHex (pr_spec (mg_rounds m p)) = hex_encode seed) \<and>
     (\<forall>b \<in> set (pr_bets (mg_rounds m p)). rb_RoundID b = sp_RoundID (pr_spec (mg_rounds m p)) \<and>
        0 \<le> rb_MarbleIdx b \<and> rb_MarbleIdx b < cfg_MaxMarbles cfg)"

definition rounds_ok :: "'w mgr_config \<Rightarrow> 'w mgr \<Rightarrow> bool" where
  "rounds_ok cfg m \<longleftrightarrow> distinct (mg_pendingRounds m) \<and> (\<forall>p \<in> set (mg_pendingRounds m). round_entry_ok cfg m p)"

definition mgr_inv :: "'w mgr_config \<Rightarrow> 'w mgr \<Rightarrow> bool" where
  "mgr_inv cfg m \<longleftrightarrow> heap_ok (mg_next m) (mg_heap m) \<and> queue_ok m \<and> table_ok m \<and> rounds_ok cfg m"

lemma blank_mgr_inv [inv_intros]: "mgr_inv cfg (blank_mgr w fs)"
  by (simp add: mgr_inv_def blank_mgr_def heap_ok_def queue_ok_def table_ok_def rounds_ok_def)

lemma OpenSession_inv [inv_intros]:
  assumes "mgr_inv cfg m"
  shows "mgr_inv cfg (snd (OpenSession rnd now pl m))"
  using assms
  by (auto simp: OpenSession_def Let_def mgr_inv_def heap_ok_def queue_ok_def table_ok_def rounds_ok_def
      round_entry_ok_def new_session_def session_inv_def less_Suc_eq)

lemma PlaceBet_inv [inv_intros]:
  assumes inv: "mgr_inv cfg m"
  shows "mgr_inv cfg (snd (PlaceBet cfg' rnd t now sid a m))"
proof -
  have wallet: "mgr_inv cfg (m\<lparr>mg_wallet := w\<rparr>)" for w
    using inv by (simp add: mgr_inv_def queue_ok_def table_ok_def rounds_ok_def round_entry_ok_def)
  show ?thesis
  proof (cases "fst (PlaceBet cfg' rnd t now sid a m)")
    case (Inl e)
    then show ?thesis
      using inv wallet by (auto simp: PlaceBet_def Let_def split: option.splits prod.splits if_splits)
  next
    case (Inr b)
    then obtain p w s where ok: "mg_sessions m sid = Some p"
      "session_place_bet now b (mg_heap m p) = (None, s)"
      "snd (PlaceBet cfg' rnd t now sid a m) =
         m\<lparr>mg_wallet := w, mg_heap := (mg_heap m)(p := s), mg_pending := mg_pending m @ [p]\<rparr>"
      by (auto simp: PlaceBet_def Let_def split: option.splits prod.splits if_splits)
    have p: "p < mg_next m" using inv ok(1) by (simp add: mgr_inv_def table_ok_def)
    have ap: "session_apply (EvPlaceBet now b) (mg_heap m p) = (None, s)" using ok(2) by simp
    have s: "session_inv s" "ses_PlayerID s \<noteq> []"
      using inv p session_apply_inv [OF _ ap] session_apply_frame [OF ap]
      by (auto simp: mgr_inv_def heap_ok_def)
    have "ses_State s = SessionBet" "ses_State (mg_heap m p) \<noteq> SessionBet"
      using ok(2) by (auto simp: session_place_bet_def split: if_splits)
    with inv p s show ?thesis
      unfolding ok(3) by (auto simp: mgr_inv_def heap_ok_def queue_ok_def table_ok_def rounds_ok_def round_entry_ok_def)
  qed
qed

lemma CloseSession_inv [inv_intros]:
  assumes inv: "mgr_inv cfg m"
  shows "mgr_inv cfg (snd (CloseSession now sid m))"
proof (cases "mg_sessions m sid")
  case None
  with inv show ?thesis by (simp add: CloseSession_def)
next
  case (Some p)
  obtain e s where cl: "session_close now (mg_heap m p) = (e, s)" by fastforce
  then have ap: "session_apply (EvClose now) (mg_heap m p) = (e, s)" by simp
  have "p < mg_next m" using inv Some by (simp add: mgr_inv_def table_ok_def)
  then have "session_inv s" "ses_PlayerID s \<noteq> []"
    using inv session_apply_inv [OF _ ap] session_apply_frame [OF ap]
    by (auto simp: mgr_inv_def heap_ok_def)
  moreover have "ses_State (mg_heap m p) = SessionBet \<Longrightarrow> ses_State s = SessionBet"
    using cl by (auto simp: session_close_def split: if_splits)
  ultimately show ?thesis
    using inv Some cl
    by (auto simp: CloseSession_def mgr_inv_def heap_ok_def queue_ok_def table_ok_def rounds_ok_def round_entry_ok_def)
qed

text \<open>A fresh entry at the end of the heap of announced rounds.\<close>

lemma round_entry_ok_new:
  assumes "round_entry_ok cfg m p"
  shows "round_entry_ok cfg (m\<lparr>mg_prevTrack := t, mg_rounds := (mg_rounds m)(mg_nextRound m := r),
    mg_nextRound := Suc (mg_nextRound m), mg_pendingRounds := q,
    mg_roundBets := (mg_roundBets m)(rid \<mapsto> bs)\<rparr>) p"
proof -
  have "p \<noteq> mg_nextRound m" using assms by (simp add: round_entry_ok_def)
  with assms show ?thesis by (simp add: round_entry_ok_def)
qed

lemma GenerateRoundSpec_inv [inv_intros]:
  assumes inv: "mgr_inv cfg m" and "seed_ok r" and "GenerateRoundSpec cfg r rid m = Some (res, m')"
  shows "mgr_inv cfg m'"
proof (cases r)
  case (Inl e)
  with assms show ?thesis by (simp add: GenerateRoundSpec_def)
next
  case (Inr seed)
  define spec where "spec t = \<lparr>sp_RoundID = rid, sp_ServerSeedHex = hex_encode seed, sp_TrackID = t,
      sp_ClientSeeds = replicate (nat (cfg_MaxMarbles cfg)) []\<rparr>" for t
  from assms(3) Inr obtain t where m': "m' = m\<lparr>mg_prevTrack := uint t,
      mg_rounds := (mg_rounds m)(mg_nextRound m := \<lparr>pr_spec = spec t, pr_bets = []\<rparr>),
      mg_nextRound := Suc (mg_nextRound m), mg_pendingRounds := mg_pendingRounds m @ [mg_nextRound m],
      mg_roundBets := (mg_roundBets m)(rid \<mapsto> [])\<rparr>"
    by (auto simp: GenerateRoundSpec_def Let_def spec_def split: option.splits)
  have "round_entry_ok cfg m' (mg_nextRound m)"
    using assms(2) Inr by (auto simp: m' spec_def round_entry_ok_def seed_ok_def)
  moreover have "\<forall>p \<in> set (mg_pendingRounds m). round_entry_ok cfg m' p \<and> p \<noteq> mg_nextRound m"
    using inv round_entry_ok_new unfolding m' by (auto simp: mgr_inv_def rounds_ok_def round_entry_ok_def)
  ultimately have "rounds_ok cfg m'"
    using inv by (auto simp: m' mgr_inv_def rounds_ok_def)
  with inv show ?thesis by (simp add: m' mgr_inv_def heap_ok_def queue_ok_def table_ok_def)
qed

lemma findPendingRound_Some:
  "findPendingRound rid m = Some p \<Longrightarrow>
    p \<in> set (mg_pendingRounds m) \<and> sp_RoundID (pr_spec (mg_rounds m p)) = rid"
  by (auto simp: findPendingRound_def find_Some_iff)

lemma wallet_frame:
  "mgr_inv cfg (m\<lparr>mg_wallet := w\<rparr>) = mgr_inv cfg m"
  "findPendingRound rid (m\<lparr>mg_wallet := w\<rparr>) = findPendingRound rid m"
  by (simp_all add: mgr_inv_def queue_ok_def table_ok_def rounds_ok_def round_entry_ok_def findPendingRound_def)

lemma round_bet_record_inv:
  assumes inv: "mgr_inv cfg m" and p: "p \<in> set (mg_pendingRounds m)"
    and "sp_RoundID (pr_spec (mg_rounds m p)) = rb_RoundID b"
    and "0 \<le> rb_MarbleIdx b" and "rb_MarbleIdx b < cfg_MaxMarbles cfg"
  shows "mgr_inv cfg (snd (round_bet_record cfg p u b m))"
proof (cases "findPendingRound (rb_RoundID b) m")
  case None
  with inv show ?thesis by (simp add: round_bet_record_def wallet_frame)
next
  case (Some q)
  have "round_entry_ok cfg (snd (round_bet_record cfg p u b m)) q" if "q \<in> set (mg_pendingRounds m)" for q
    using that assms Some by (auto simp: round_bet_record_def mgr_inv_def rounds_ok_def round_entry_ok_def)
  with inv Some show ?thesis
    by (simp add: mgr_inv_def heap_ok_def queue_ok_def table_ok_def rounds_ok_def round_bet_record_def)
qed

lemma PlaceBetOnRound_inv [inv_intros]:
  assumes inv: "mgr_inv cfg m"
  shows "mgr_inv cfg (snd (PlaceBetOnRound cfg rnd now id rid pl i a m))"
proof (cases "round_bet_check cfg rid i a m")
  case (Inl e)
  with inv show ?thesis by (simp add: PlaceBetOnRound_def)
next
  case (Inr pu)
  obtain p u where pu: "pu = (p, u)" by (cases pu)
  have i: "0 \<le> i" "i < cfg_MaxMarbles cfg" and f: "findPendingRound rid m = Some p"
    using Inr pu by (auto simp: round_bet_check_def Let_def split: if_splits option.splits)
  obtain res m1 where d: "round_bet_debit cfg pl u (newID ''rbet_'' rnd) m = (res, m1)" by fastforce
  then obtain w where m1: "m1 = m\<lparr>mg_wallet := w\<rparr>"
    by (auto simp: round_bet_debit_def split: prod.splits option.splits)
  have "mgr_inv cfg m1" using inv by (simp add: m1 wallet_frame)
  moreover have "p \<in> set (mg_pendingRounds m1)" "sp_RoundID (pr_spec (mg_rounds m1 p)) = rid"
    using findPendingRound_Some [OF f] by (simp_all add: m1)
  ultimately have "mgr_inv cfg (snd (round_bet_record cfg p u \<lparr>rb_BetID = newID ''rbet_'' rnd, rb_PlayerID = pl,
      rb_RoundID = rid, rb_MarbleIdx = i, rb_Amount = a, rb_PlacedAt = now\<rparr> m1))"
    using i by (intro round_bet_record_inv) auto
  with Inr pu d \<open>mgr_inv cfg m1\<close> show ?thesis
    by (auto simp: PlaceBetOnRound_def Let_def split: sum.splits prod.splits option.splits)
qed

section \<open>The run of a round\<close>

text \<open>What every exit of a run leaves: other sessions, another wallet, disk and last track.\<close>

lemma run_frame_inv:
  assumes "mgr_inv cfg m" and "mg_pending m = []" and "heap_ok (mg_next m) h"
  shows "mgr_inv cfg (m\<lparr>mg_heap := h\<rparr>)" and "mgr_inv cfg (m\<lparr>mg_heap := h, mg_wallet := w\<rparr>)"
    and "mgr_inv cfg (m\<lparr>mg_heap := h, mg_wallet := w, mg_disk := fs\<rparr>)"
    and "mgr_inv cfg (m\<lparr>mg_heap := h, mg_disk := fs, mg_wallet := w\<rparr>)"
    and "mgr_inv cfg (m\<lparr>mg_heap := h, mg_disk := fs, mg_wallet := w, mg_prevTrack := t\<rparr>)"
  using assms
  by (simp_all add: mgr_inv_def queue_ok_def table_ok_def rounds_ok_def round_entry_ok_def)

definition consumed :: "'w mgr \<Rightarrow> 'w mgr" where
  "consumed m = m\<lparr>mg_pending := [], mg_pendingRounds := tl (mg_pendingRounds m)\<rparr>"

lemma consumed_sel [simp]:
  "mg_heap (consumed m) = mg_heap m" "mg_wallet (consumed m) = mg_wallet m" "mg_disk (consumed m) = mg_disk m"
  "mg_pending (consumed m) = []" "mg_next (consumed m) = mg_next m" "mg_rounds (consumed m) = mg_rounds m"
  "mg_pendingRounds (consumed m) = tl (mg_pendingRounds m)" "mg_roundBets (consumed m) = mg_roundBets m"
  "mg_nextRound (consumed m) = mg_nextRound m" "mg_sessions (consumed m) = mg_sessions m"
  by (simp_all add: consumed_def)

lemma consumed_inv: "mgr_inv cfg m \<Longrightarrow> mgr_inv cfg (consumed m)"
  by (cases "mg_pendingRounds m")
    (simp_all add: mgr_inv_def queue_ok_def table_ok_def rounds_ok_def round_entry_ok_def)

lemma run_announced:
  assumes "mg_pendingRounds m = p # ps"
  shows "RunNextRound cfg env m = run_round cfg env (mg_pending m) p (consumed m)"
  using assms by (simp add: RunNextRound_def run_consume_def run_spec_def consumed_def)

lemma select_track_defined: "pool \<noteq> [] \<Longrightarrow> \<exists>t. mgr_select_track pool rid prev = Some t"
  by (cases pool) (auto simp: mgr_select_track_def Let_def)

text \<open>The round a run without announcement makes up.\<close>

definition fresh_spec :: "run_env \<Rightarrow> byte list \<Rightarrow> u8 \<Rightarrow> round_spec" where
  "fresh_spec env seed t = \<lparr>sp_RoundID = re_freshID env, sp_ServerSeedHex = hex_encode seed, sp_TrackID = t,
     sp_ClientSeeds = []\<rparr>"

definition with_fresh :: "run_env \<Rightarrow> byte list \<Rightarrow> u8 \<Rightarrow> 'w mgr \<Rightarrow> 'w mgr" where
  "with_fresh env seed t m = m
     \<lparr>mg_rounds := (mg_rounds m)(mg_nextRound m := \<lparr>pr_spec = fresh_spec env seed t, pr_bets = []\<rparr>),
      mg_nextRound := Suc (mg_nextRound m), mg_roundBets := (mg_roundBets m)(re_freshID env \<mapsto> [])\<rparr>"

lemma run_unannounced:
  assumes "mg_pendingRounds m = []" and "cfg_ok cfg"
  shows "\<exists>t. RunNextRound cfg env m = (case re_seed env of
      Inl e \<Rightarrow> Some (Inl (Wrapf ''rgs: seed'' e), consumed m)
    | Inr seed \<Rightarrow> run_round cfg env (mg_pending m) (mg_nextRound m) (with_fresh env seed t (consumed m)))"
proof -
  obtain t where "mgr_select_track (cfg_TrackPool cfg) (re_freshID env) (mg_prevTrack m) = Some t"
    using select_track_defined [of "cfg_TrackPool cfg"] assms(2) unfolding cfg_ok_def by blast
  with assms(1) have "RunNextRound cfg env m = (case re_seed env of
      Inl e \<Rightarrow> Some (Inl (Wrapf ''rgs: seed'' e), consumed m)
    | Inr seed \<Rightarrow> run_round cfg env (mg_pending m) (mg_nextRound m) (with_fresh env seed t (consumed m)))"
    by (simp add: RunNextRound_def run_consume_def run_spec_def Let_def consumed_def with_fresh_def
        fresh_spec_def split: sum.split)
  then show ?thesis by blast
qed

lemma with_fresh_inv:
  assumes "mgr_inv cfg m" and "length seed = 32"
  shows "mgr_inv cfg (with_fresh env seed t m)"
    and "round_entry_ok cfg (with_fresh env seed t m) (mg_nextRound m)"
proof -
  have "round_entry_ok cfg (with_fresh env seed t m) p" if "p \<in> set (mg_pendingRounds m)" for p
    using that assms(1) by (auto simp: mgr_inv_def rounds_ok_def round_entry_ok_def with_fresh_def)
  with assms(1) show "mgr_inv cfg (with_fresh env seed t m)"
    by (auto simp: mgr_inv_def heap_ok_def queue_ok_def table_ok_def rounds_ok_def with_fresh_def)
  show "round_entry_ok cfg (with_fresh env seed t m) (mg_nextRound m)"
    using assms(2) by (auto simp: round_entry_ok_def with_fresh_def fresh_spec_def)
qed

text \<open>Whatever the environment answers, the part after the race returns.\<close>

lemma run_settle_total:
  assumes inv: "mgr_inv cfg m" and emp: "mg_pending m = []" and ps: "distinct ps"
    "\<forall>p \<in> set ps. p < mg_next m" "\<forall>p \<in> set ps. racing (mg_heap m p)"
  shows "\<exists>res m'. run_settle cfg env ps pr r simRes revealed m = Some (res, m') \<and> mgr_inv cfg m'"
proof -
  let ?w = "sim_WinnerMarbleIndex simRes"
  obtain st where st: "settle \<lparr>RTPBasisPoints = cfg_RTPBps cfg\<rparr>
      (replicate (nat (cfg_MaxMarbles cfg)) (cfg_BuyIn cfg)) ?w = st" by blast
  show ?thesis
  proof (cases st)
    case (Inl e)
    with st inv show ?thesis by (simp add: run_settle_def Let_def)
  next
    case (Inr ph)
    obtain prize cut where ph: "ph = (prize, cut)" by (cases ph)
    obtain h' where eq: "settle_sessions (cfg_Wallet cfg) (re_settle env) ?w prize ps (mg_heap m) (mg_wallet m) =
      (case credit_winners (cfg_Wallet cfg) ?w prize (map (mg_heap m) ps) (mg_wallet m) of
       (None, w') \<Rightarrow> Some (Inr (map (\<lambda>p. session_outcome (re_settle env) ?w prize (the (ses_Bet (mg_heap m p)))) ps),
                         settle_heap (re_settle env) ?w prize ps (mg_heap m), w')
     | (Some e, w') \<Rightarrow> Some (Inl (Wrapf ''rgs: credit winner'' e), h', w'))"
      using settle_sessions_eq [OF ps(1,3), of "cfg_Wallet cfg" "re_settle env" ?w prize "mg_wallet m"] by blast
    obtain sres h w where ss: "settle_sessions (cfg_Wallet cfg) (re_settle env) ?w prize ps (mg_heap m) (mg_wallet m)
        = Some (sres, h, w)"
    proof -
      obtain e w' where "credit_winners (cfg_Wallet cfg) ?w prize (map (mg_heap m) ps) (mg_wallet m) = (e, w')"
        by fastforce
      with eq that show thesis by (cases e) auto
    qed
    have h: "heap_ok (mg_next m) h"
      using settle_sessions_heap_ok [OF ss] inv ps(2) by (simp add: mgr_inv_def)
    note frames = run_frame_inv [OF inv emp h]
    show ?thesis
      using st Inr ph ss frames
      by (cases sres) (auto simp: run_settle_def Let_def split: sum.split prod.split)
  qed
qed

text \<open>The sessions that reach the race.\<close>

lemma queue_waiting:
  assumes "mgr_inv cfg m"
  shows "distinct (mg_pending m)" and "\<forall>p \<in> set (mg_pending m). p < mg_next m \<and> waiting (mg_heap m p)"
    and "[] \<notin> set (map (\<lambda>p. ses_PlayerID (mg_heap m p)) (mg_pending m))"
  using assms by (auto simp: mgr_inv_def queue_ok_def heap_ok_def waiting_def session_inv_def)

lemma hex_decode_seed: "round_entry_ok cfg m p \<Longrightarrow>
    \<exists>seed. hex_decode (sp_ServerSeedHex (pr_spec (mg_rounds m p))) = Inr seed \<and> length seed = 32 \<and>
      sp_ServerSeedHex (pr_spec (mg_rounds m p)) = hex_encode seed"
  by (auto simp: round_entry_ok_def)

lemma seed32_id: "length s = 32 \<Longrightarrow> seed32 s = s"
  by (simp add: seed32_def)

lemma run_round_total:
  assumes inv: "mgr_inv cfg m" and emp: "mg_pending m = []" and cfg: "cfg_ok cfg"
    and entry: "round_entry_ok cfg m pr" and ps: "distinct ps"
    "\<forall>p \<in> set ps. p < mg_next m \<and> waiting (mg_heap m p)"
    "[] \<notin> set (map (\<lambda>p. ses_PlayerID (mg_heap m p)) ps)"
  shows "\<exists>res m'. run_round cfg env ps pr m = Some (res, m') \<and> mgr_inv cfg m'"
proof -
  let ?names = "map (\<lambda>p. ses_PlayerID (mg_heap m p)) ps"
  let ?spec = "pr_spec (mg_rounds m pr)"
  obtain seed where seed: "hex_decode (sp_ServerSeedHex ?spec) = Inr seed" "seed32 seed = seed"
    using hex_decode_seed [OF entry] seed32_id by blast
  have bld: "build_round cfg env ?spec seed ?names = (if int (length ?names) \<le> cfg_MaxMarbles cfg
      then Inr (field_round cfg env ?spec seed ?names)
      else Inl (Wrapf ''rgs: add bettor'' (Sentinel (RoundErr ErrRoundFull))))"
    using cfg ps(3) by (intro build_round_eq) (auto simp: cfg_ok_def)
  show ?thesis
  proof (cases "int (length ?names) \<le> cfg_MaxMarbles cfg")
    case False
    with seed bld inv show ?thesis by (simp add: run_round_def Let_def)
  next
    case True
    obtain h where h: "assign_all (re_assign env) 0 ps (mg_heap m) = (None, h)"
      "\<forall>k < length ps. h (ps ! k) = raced (re_assign env) (0 + int k) (mg_heap m (ps ! k))"
      using assign_all_ok [OF ps(1), of "mg_heap m" "re_assign env" 0] ps(2) by blast
    have racing: "\<forall>p \<in> set ps. racing (h p)"
    proof
      fix p assume "p \<in> set ps"
      moreover then obtain k where "k < length ps" "p = ps ! k" by (auto simp: in_set_conv_nth)
      ultimately show "racing (h p)" using h(2) ps(2) by (simp add: racing_def waiting_def)
    qed
    have hok: "heap_ok (mg_next m) h"
      using assign_all_heap_ok [of "mg_next m" "mg_heap m" ps "re_assign env" 0] h(1) inv ps(2)
      by (simp add: mgr_inv_def)
    note inv1 = run_frame_inv(1) [OF inv emp hok]
    have total: "\<exists>res m'. run_settle cfg env ps pr r simRes revealed (m\<lparr>mg_heap := h\<rparr>) = Some (res, m') \<and> mgr_inv cfg m'"
      for r simRes revealed
      using inv1 emp ps(1,2) racing by (intro run_settle_total) auto
    show ?thesis
      using seed bld True h(1) inv1 total
      by (auto simp: run_round_def Let_def split: sum.split prod.split)
  qed
qed

lemma RunNextRound_total:
  assumes inv: "mgr_inv cfg m" and cfg: "cfg_ok cfg" and "seed_ok (re_seed env)"
  shows "\<exists>res m'. RunNextRound cfg env m = Some (res, m') \<and> mgr_inv cfg m'"
proof (cases "mg_pendingRounds m")
  case (Cons p ps)
  then have "round_entry_ok cfg (consumed m) p"
    using inv by (simp add: mgr_inv_def rounds_ok_def round_entry_ok_def)
  then show ?thesis
    unfolding run_announced [OF Cons] using inv queue_waiting [OF inv] cfg
    by (intro run_round_total consumed_inv) auto
next
  case Nil
  obtain t where run: "RunNextRound cfg env m = (case re_seed env of
      Inl e \<Rightarrow> Some (Inl (Wrapf ''rgs: seed'' e), consumed m)
    | Inr seed \<Rightarrow> run_round cfg env (mg_pending m) (mg_nextRound m) (with_fresh env seed t (consumed m)))"
    using run_unannounced [OF Nil cfg] by blast
  show ?thesis
  proof (cases "re_seed env")
    case (Inl e)
    with run consumed_inv [OF inv] show ?thesis by simp
  next
    case (Inr seed)
    then have "length seed = 32" using assms(3) by (simp add: seed_ok_def)
    from with_fresh_inv [OF consumed_inv [OF inv] this, of env t] queue_waiting [OF inv] cfg
    have "\<exists>res m'. run_round cfg env (mg_pending m) (mg_nextRound m) (with_fresh env seed t (consumed m)) =
        Some (res, m') \<and> mgr_inv cfg m'"
      by (intro run_round_total) (simp_all add: with_fresh_def)
    with run Inr show ?thesis by simp
  qed
qed

lemma mgr_apply_total:
  assumes "mgr_inv cfg m" and "cfg_ok cfg" and "mgr_enabled ev"
  shows "\<exists>m'. mgr_apply cfg ev m = Some m' \<and> mgr_inv cfg m'"
proof (cases ev)
  case (EvMint r rid)
  obtain t where "mgr_select_track (cfg_TrackPool cfg) rid (mg_prevTrack m) = Some t"
    using select_track_defined [of "cfg_TrackPool cfg"] assms(2) unfolding cfg_ok_def by blast
  then have "\<exists>res m'. GenerateRoundSpec cfg r rid m = Some (res, m')"
    by (auto simp: GenerateRoundSpec_def Let_def split: sum.split)
  with EvMint assms GenerateRoundSpec_inv show ?thesis by fastforce
next
  case (EvRun env)
  with RunNextRound_total [of cfg m env] assms show ?thesis by fastforce
qed (use assms in \<open>auto intro: inv_intros\<close>)

interpretation mgr: invariant_system fresh_mgr "mgr_step cfg" "\<lambda>m. cfg_ok cfg \<longrightarrow> mgr_inv cfg m"
  for cfg :: "'w mgr_config"
proof (unfold_locales, goal_cases)
  case (1 m)
  then show ?case by (auto simp: fresh_mgr_def intro: blank_mgr_inv)
next
  case (2 m ev m')
  then show ?case using mgr_apply_total [of cfg m ev] by (auto simp: mgr_step_def)
qed

end
