(* ===== verification/Manager_Props.thy ===== *)
theory Manager_Props
  imports Manager_Spec
begin

text \<open>
  What a run of a round does when it goes through, what it leaves when it does not, and what
  the calls do with the players' money (server/rgs/manager.go), on top of the invariant of
  \<open>Manager_Spec\<close>.
\<close>

section \<open>A run that succeeds\<close>

text \<open>Everything the successful path went through, from the race on.\<close>

lemma run_settle_Inr:
  assumes run: "run_settle cfg env ps pr r simRes revealed m = Some (Inr (mf, outs, rbs), m')"
    and ps: "distinct ps" "\<forall>p \<in> set ps. racing (mg_heap m p)"
  shows "\<exists>prize cut w1 w2 fs.
    settle \<lparr>RTPBasisPoints = cfg_RTPBps cfg\<rparr> (replicate (nat (cfg_MaxMarbles cfg)) (cfg_BuyIn cfg))
      (sim_WinnerMarbleIndex simRes) = Inr (prize, cut) \<and>
    credit_winners (cfg_Wallet cfg) (sim_WinnerMarbleIndex simRes) prize (map (mg_heap m) ps) (mg_wallet m) = (None, w1) \<and>
    outs = map (\<lambda>p. session_outcome (re_settle env) (sim_WinnerMarbleIndex simRes) prize (the (ses_Bet (mg_heap m p)))) ps \<and>
    persist_round env (manifest_of (pr_spec (mg_rounds m pr)) r revealed simRes) (sim_ReplayPath simRes) (mg_disk m) =
      (Inr mf, fs) \<and>
    settle_round_bets (cfg_Wallet cfg) (cfg_oor cfg) (sim_WinnerMarbleIndex simRes) (pr_bets (mg_rounds m pr)) w1 =
      (Inr rbs, w2) \<and>
    m' = m\<lparr>mg_heap := settle_heap (re_settle env) (sim_WinnerMarbleIndex simRes) prize ps (mg_heap m),
           mg_wallet := w2, mg_disk := fs, mg_prevTrack := uint (sp_TrackID (pr_spec (mg_rounds m pr)))\<rparr>"
proof -
  let ?w = "sim_WinnerMarbleIndex simRes"
  obtain prize cut where st: "settle \<lparr>RTPBasisPoints = cfg_RTPBps cfg\<rparr>
      (replicate (nat (cfg_MaxMarbles cfg)) (cfg_BuyIn cfg)) ?w = Inr (prize, cut)"
    using run by (auto simp: run_settle_def Let_def split: sum.splits prod.splits)
  obtain h' where eq: "settle_sessions (cfg_Wallet cfg) (re_settle env) ?w prize ps (mg_heap m) (mg_wallet m) =
      (case credit_winners (cfg_Wallet cfg) ?w prize (map (mg_heap m) ps) (mg_wallet m) of
       (None, w') \<Rightarrow> Some (Inr (map (\<lambda>p. session_outcome (re_settle env) ?w prize (the (ses_Bet (mg_heap m p)))) ps),
                         settle_heap (re_settle env) ?w prize ps (mg_heap m), w')
     | (Some e, w') \<Rightarrow> Some (Inl (Wrapf ''rgs: credit winner'' e), h', w'))"
    using settle_sessions_eq [OF ps, of "cfg_Wallet cfg" "re_settle env" ?w prize "mg_wallet m"] by blast
  obtain e w1 where cr: "credit_winners (cfg_Wallet cfg) ?w prize (map (mg_heap m) ps) (mg_wallet m) = (e, w1)"
    by fastforce
  with run st eq have e: "e = None"
    by (cases e) (auto simp: run_settle_def Let_def)
  note ss = eq [unfolded cr e, simplified]
  from run st ss have "\<exists>fs w2. outs = map (\<lambda>p. session_outcome (re_settle env) ?w prize (the (ses_Bet (mg_heap m p)))) ps \<and>
    persist_round env (manifest_of (pr_spec (mg_rounds m pr)) r revealed simRes) (sim_ReplayPath simRes) (mg_disk m) =
      (Inr mf, fs) \<and>
    settle_round_bets (cfg_Wallet cfg) (cfg_oor cfg) ?w (pr_bets (mg_rounds m pr)) w1 = (Inr rbs, w2) \<and>
    m' = m\<lparr>mg_heap := settle_heap (re_settle env) ?w prize ps (mg_heap m), mg_wallet := w2, mg_disk := fs,
           mg_prevTrack := uint (sp_TrackID (pr_spec (mg_rounds m pr)))\<rparr>"
    by (auto simp: run_settle_def Let_def split: sum.splits prod.splits)
  with st cr e show ?thesis by blast
qed

text \<open>The whole round: who raced, on which marble, under which seed, and what it left.\<close>

definition won_prize :: "int \<Rightarrow> u64 \<Rightarrow> nat \<Rightarrow> u64" where
  "won_prize winner prize k = (if int k = winner then prize else 0)"

definition bet_result :: "run_env \<Rightarrow> int \<Rightarrow> u64 \<Rightarrow> nat \<Rightarrow> session \<Rightarrow> settlement_outcome" where
  "bet_result env winner prize k s =
     session_outcome (re_settle env) winner prize ((the (ses_Bet s))\<lparr>bet_MarbleIndex := int k\<rparr>)"

text \<open>
  The account of a successful run: the simulator was asked for this round, seed and track; it
  named the winner; at most the session on the winner's marble was credited, with the prize;
  then the bets on the round were settled.
\<close>

definition round_account :: "'w mgr_config \<Rightarrow> run_env \<Rightarrow> round_spec \<Rightarrow> byte list \<Rightarrow> round_bet list \<Rightarrow> nat list \<Rightarrow>
    'w mgr \<Rightarrow> manifest \<Rightarrow> settlement_outcome list \<Rightarrow> round_bet_outcome list \<Rightarrow> 'w mgr \<Rightarrow> bool" where
  "round_account cfg env spec seed bets ps m mf outs rbs m' \<longleftrightarrow>
     (\<exists>simRes prize cut w1.
        let winner = sim_WinnerMarbleIndex simRes; names = map (\<lambda>p. ses_PlayerID (mg_heap m p)) ps;
            r = field_round cfg env spec seed names in
        re_sim env (sim_request_of cfg spec seed (re_workDir env) r) = Inr simRes \<and>
        int (length ps) \<le> cfg_MaxMarbles cfg \<and>
        settle \<lparr>RTPBasisPoints = cfg_RTPBps cfg\<rparr> (replicate (nat (cfg_MaxMarbles cfg)) (cfg_BuyIn cfg)) winner =
          Inr (prize, cut) \<and>
        (if 0 \<le> winner \<and> winner < int (length ps)
         then (let s = mg_heap m (ps ! nat winner) in
               w_Credit (cfg_Wallet cfg) (ses_PlayerID s) prize (bet_BetID (the (ses_Bet s)) @ '':credit'') (mg_wallet m)
               = (None, w1))
         else w1 = mg_wallet m) \<and>
        outs = map (\<lambda>k. bet_result env winner prize k (mg_heap m (ps ! k))) [0..<length ps] \<and>
        (\<forall>k < length ps. ses_State (mg_heap m' (ps ! k)) = SessionSettled \<and> ses_Bet (mg_heap m' (ps ! k)) = None \<and>
           ses_LastResult (mg_heap m' (ps ! k)) = Some (outs ! k)) \<and>
        (\<forall>p. p \<notin> set ps \<longrightarrow> mg_heap m' p = mg_heap m p) \<and>
        persist_round env (manifest_of spec r seed simRes) (sim_ReplayPath simRes) (mg_disk m) = (Inr mf, mg_disk m') \<and>
        settle_round_bets (cfg_Wallet cfg) (cfg_oor cfg) winner bets w1 = (Inr rbs, mg_wallet m') \<and>
        mg_prevTrack m' = uint (sp_TrackID spec))"

lemma run_race_manifest:
  assumes "run_race cfg env spec seed (field_round cfg env spec seed names) = Inr (simRes, r2, revealed)"
  shows "re_sim env (sim_request_of cfg spec seed (re_workDir env) (field_round cfg env spec seed names)) = Inr simRes"
    and "manifest_of spec r2 revealed simRes = manifest_of spec (field_round cfg env spec seed names) seed simRes"
  using run_race_Inr [OF assms]
  by (simp_all add: manifest_of_def field_round_def new_round_def round_Participants_def round_CommitHash_def)

lemma run_round_Inr:
  assumes run: "run_round cfg env ps pr m = Some (Inr (mf, outs, rbs), m')"
    and cfg: "cfg_ok cfg" and entry: "round_entry_ok cfg m pr" and ps: "distinct ps"
    "\<forall>p \<in> set ps. p < mg_next m \<and> waiting (mg_heap m p)"
    "[] \<notin> set (map (\<lambda>p. ses_PlayerID (mg_heap m p)) ps)"
  shows "\<exists>seed. length seed = 32 \<and> sp_ServerSeedHex (pr_spec (mg_rounds m pr)) = hex_encode seed \<and>
    round_account cfg env (pr_spec (mg_rounds m pr)) seed (pr_bets (mg_rounds m pr)) ps m mf outs rbs m' \<and>
    mg_pending m' = mg_pending m \<and> mg_pendingRounds m' = mg_pendingRounds m \<and> mg_sessions m' = mg_sessions m"
proof -
  let ?names = "map (\<lambda>p. ses_PlayerID (mg_heap m p)) ps"
  let ?spec = "pr_spec (mg_rounds m pr)"
  obtain seed where seed: "hex_decode (sp_ServerSeedHex ?spec) = Inr seed" "seed32 seed = seed"
    "length seed = 32" "sp_ServerSeedHex ?spec = hex_encode seed"
    using hex_decode_seed [OF entry] seed32_id by blast
  let ?r = "field_round cfg env ?spec seed ?names"
  have bld: "build_round cfg env ?spec seed ?names = (if int (length ps) \<le> cfg_MaxMarbles cfg
      then Inr ?r else Inl (Wrapf ''rgs: add bettor'' (Sentinel (RoundErr ErrRoundFull))))"
    using cfg ps(3) build_round_eq [of ?names cfg env ?spec seed] by (simp add: cfg_ok_def)
  then have fits: "int (length ps) \<le> cfg_MaxMarbles cfg" and b: "build_round cfg env ?spec seed ?names = Inr ?r"
    using run seed(1,2) by (auto simp: run_round_def Let_def split: if_splits)
  obtain h where h: "assign_all (re_assign env) 0 ps (mg_heap m) = (None, h)"
      "\<forall>p. p \<notin> set ps \<longrightarrow> h p = mg_heap m p"
      "\<forall>k < length ps. h (ps ! k) = raced (re_assign env) (int k) (mg_heap m (ps ! k))"
    using assign_all_ok [OF ps(1), of "mg_heap m" "re_assign env" 0] ps(2) by auto
  obtain simRes r2 revealed where race: "run_race cfg env ?spec seed ?r = Inr (simRes, r2, revealed)"
    and rest: "run_settle cfg env ps pr r2 simRes revealed (m\<lparr>mg_heap := h\<rparr>) = Some (Inr (mf, outs, rbs), m')"
    using run seed(1,2) b h(1) by (auto simp: run_round_def Let_def split: sum.splits)
  have racing: "\<forall>p \<in> set ps. racing (h p)"
  proof
    fix p assume "p \<in> set ps"
    moreover then obtain k where "k < length ps" "p = ps ! k" by (auto simp: in_set_conv_nth)
    ultimately show "racing (h p)" using h(3) ps(2) by (simp add: racing_def waiting_def)
  qed
  let ?w = "sim_WinnerMarbleIndex simRes"
  obtain prize cut w1 w2 fs where
    st: "settle \<lparr>RTPBasisPoints = cfg_RTPBps cfg\<rparr> (replicate (nat (cfg_MaxMarbles cfg)) (cfg_BuyIn cfg)) ?w = Inr (prize, cut)"
    and cr: "credit_winners (cfg_Wallet cfg) ?w prize (map h ps) (mg_wallet m) = (None, w1)"
    and outs: "outs = map (\<lambda>p. session_outcome (re_settle env) ?w prize (the (ses_Bet (h p)))) ps"
    and pe: "persist_round env (manifest_of ?spec r2 revealed simRes) (sim_ReplayPath simRes) (mg_disk m) = (Inr mf, fs)"
    and rb: "settle_round_bets (cfg_Wallet cfg) (cfg_oor cfg) ?w (pr_bets (mg_rounds m pr)) w1 = (Inr rbs, w2)"
    and m': "m' = m\<lparr>mg_heap := settle_heap (re_settle env) ?w prize ps h, mg_wallet := w2, mg_disk := fs,
      mg_prevTrack := uint (sp_TrackID ?spec)\<rparr>"
    using run_settle_Inr [OF rest ps(1)] racing by auto
  have bets: "the (ses_Bet (h (ps ! k))) = (the (ses_Bet (mg_heap m (ps ! k))))\<lparr>bet_MarbleIndex := int k\<rparr> \<and>
      ses_PlayerID (h (ps ! k)) = ses_PlayerID (mg_heap m (ps ! k))" if "k < length ps" for k
  proof -
    have "ses_Bet (mg_heap m (ps ! k)) \<noteq> None"
      using that ps(2) nth_mem unfolding waiting_def by blast
    with that h(3) show ?thesis by auto
  qed
  have credit: "if 0 \<le> ?w \<and> ?w < int (length ps)
      then (let s = mg_heap m (ps ! nat ?w) in
            w_Credit (cfg_Wallet cfg) (ses_PlayerID s) prize (bet_BetID (the (ses_Bet s)) @ '':credit'') (mg_wallet m) = (None, w1))
      else w1 = mg_wallet m"
  proof -
    have "\<forall>k < length (map h ps). marble_of (map h ps ! k) = 0 + int k"
      using bets by (simp add: marble_of_def)
    note eq = credit_winners_marbles [OF this, of "cfg_Wallet cfg" ?w prize "mg_wallet m"]
    show ?thesis
    proof (cases "0 \<le> ?w \<and> ?w < int (length ps)")
      case True
      then have k: "nat ?w < length ps" by linarith
      with eq cr True bets [OF k] show ?thesis by (simp add: Let_def)
    next
      case False
      with eq cr show ?thesis by auto
    qed
  qed
  have outs': "outs = map (\<lambda>k. bet_result env ?w prize k (mg_heap m (ps ! k))) [0..<length ps]"
    using bets by (intro nth_equalityI) (simp_all add: outs bet_result_def)
  have fin: "ses_State (mg_heap m' p) = SessionSettled \<and> ses_Bet (mg_heap m' p) = None \<and>
      ses_LastResult (mg_heap m' p) = Some (session_outcome (re_settle env) ?w prize (the (ses_Bet (h p))))"
    if "p \<in> set ps" for p
    using that by (simp add: m' settle_heap_def)
  have rest: "mg_heap m' p = mg_heap m p" if "p \<notin> set ps" for p
    using that h(2) by (simp add: m' settle_heap_def)
  have same: "mg_pending m' = mg_pending m" "mg_pendingRounds m' = mg_pendingRounds m"
    "mg_sessions m' = mg_sessions m" "mg_disk m' = fs" "mg_wallet m' = w2" "mg_prevTrack m' = uint (sp_TrackID ?spec)"
    by (simp_all add: m')
  have fin': "\<forall>k < length ps. ses_State (mg_heap m' (ps ! k)) = SessionSettled \<and>
      ses_Bet (mg_heap m' (ps ! k)) = None \<and> ses_LastResult (mg_heap m' (ps ! k)) = Some (outs ! k)"
    using fin by (simp add: outs)
  note pe' = pe [unfolded run_race_manifest(2) [OF race], folded same(4)]
  note facts = run_race_manifest(1) [OF race] fits st credit [unfolded Let_def] outs' fin' rest pe'
    rb [folded same(5)] same(6)
  have "round_account cfg env ?spec seed (pr_bets (mg_rounds m pr)) ps m mf outs rbs m'"
    unfolding round_account_def Let_def
    by (rule exI [of _ simRes], rule exI [of _ prize], rule exI [of _ cut], rule exI [of _ w1])
      (use facts in blast)
  with seed(3,4) same show ?thesis by blast
qed

section \<open>What no run touches\<close>

lemma assign_all_frame: "p \<notin> set ps \<Longrightarrow> snd (assign_all now i ps h) p = h p"
  by (induction ps arbitrary: i h) (auto split: prod.splits option.splits)

lemma settle_sessions_frame:
  "settle_sessions W now winner prize ps h w = Some (res, h', w') \<Longrightarrow> p \<notin> set ps \<Longrightarrow> h' p = h p"
proof (induction ps arbitrary: h w res)
  case Nil
  then show ?case by simp
next
  case (Cons q ps)
  obtain b where b: "ses_Bet (h q) = Some b" using Cons.prems(1) by (auto split: option.splits)
  obtain cerr w1 where cr: "(if so_Won (session_outcome now winner prize b)
      then w_Credit W (ses_PlayerID (h q)) (so_PrizeAmount (session_outcome now winner prize b))
        (so_CreditTxID (session_outcome now winner prize b)) w else (None, w)) = (cerr, w1)" by fastforce
  obtain e s where st: "session_settle now (session_outcome now winner prize b) (h q) = (e, s)" by fastforce
  show ?case
  proof (cases "cerr = None \<and> e = None")
    case False
    with Cons.prems b cr st show ?thesis by (auto simp: Let_def split: option.splits)
  next
    case True
    then obtain res' where "settle_sessions W now winner prize ps (h(q := s)) w1 = Some (res', h', w')"
      using Cons.prems(1) b cr st by (auto simp: Let_def split: option.splits prod.splits)
    from Cons.IH [OF this] Cons.prems(2) show ?thesis by simp
  qed
qed

definition run_frame :: "nat list \<Rightarrow> 'w mgr \<Rightarrow> 'w mgr \<Rightarrow> bool" where
  "run_frame ps m m' \<longleftrightarrow> (\<forall>p. p \<notin> set ps \<longrightarrow> mg_heap m' p = mg_heap m p) \<and> mg_pending m' = mg_pending m \<and>
     mg_pendingRounds m' = mg_pendingRounds m \<and> mg_sessions m' = mg_sessions m \<and> mg_next m' = mg_next m"

lemma run_settle_frame:
  assumes "run_settle cfg env ps pr r simRes revealed m = Some (res, m')"
  shows "run_frame ps m m'"
proof -
  let ?w = "sim_WinnerMarbleIndex simRes"
  obtain st where st: "settle \<lparr>RTPBasisPoints = cfg_RTPBps cfg\<rparr>
      (replicate (nat (cfg_MaxMarbles cfg)) (cfg_BuyIn cfg)) ?w = st" by blast
  show ?thesis
  proof (cases st)
    case (Inl e)
    with assms st show ?thesis by (simp add: run_settle_def Let_def run_frame_def)
  next
    case (Inr ph)
    then obtain prize cut where ph: "st = Inr (prize, cut)" by (cases ph) auto
    with assms st obtain sres h w where
      ss: "settle_sessions (cfg_Wallet cfg) (re_settle env) ?w prize ps (mg_heap m) (mg_wallet m) = Some (sres, h, w)"
      by (auto simp: run_settle_def Let_def split: option.splits)
    have "p \<notin> set ps \<Longrightarrow> h p = mg_heap m p" for p using settle_sessions_frame [OF ss] by blast
    with assms st ph ss show ?thesis
      by (auto simp: run_settle_def Let_def run_frame_def split: sum.splits prod.splits)
  qed
qed

lemma run_round_frame:
  assumes "run_round cfg env ps pr m = Some (res, m')"
  shows "run_frame ps m m'"
proof -
  let ?spec = "pr_spec (mg_rounds m pr)"
  obtain e h where as: "assign_all (re_assign env) 0 ps (mg_heap m) = (e, h)" by fastforce
  then have h: "p \<notin> set ps \<Longrightarrow> h p = mg_heap m p" for p
    using assign_all_frame [of p ps "re_assign env" 0 "mg_heap m"] by simp
  have frame: "run_frame ps m m'" if "run_frame ps (m\<lparr>mg_heap := h\<rparr>) m'"
    using that h by (simp add: run_frame_def)
  have "m' = m \<or> m' = m\<lparr>mg_heap := h\<rparr> \<or>
      (\<exists>r2 simRes revealed. run_settle cfg env ps pr r2 simRes revealed (m\<lparr>mg_heap := h\<rparr>) = Some (res, m'))"
    using assms as by (auto simp: run_round_def Let_def split: sum.splits option.splits)
  then show ?thesis
  proof (elim disjE exE)
    assume "m' = m"
    then show ?thesis by (simp add: run_frame_def)
  next
    assume "m' = m\<lparr>mg_heap := h\<rparr>"
    then show ?thesis by (intro frame) (simp add: run_frame_def)
  next
    fix r2 simRes revealed
    assume "run_settle cfg env ps pr r2 simRes revealed (m\<lparr>mg_heap := h\<rparr>) = Some (res, m')"
    then show ?thesis by (intro frame run_settle_frame)
  qed
qed

lemma RunNextRound_frame:
  assumes "RunNextRound cfg env m = Some (res, m')"
  shows "(\<forall>p. p \<notin> set (mg_pending m) \<longrightarrow> mg_heap m' p = mg_heap m p) \<and> mg_pending m' = [] \<and>
    mg_pendingRounds m' = tl (mg_pendingRounds m) \<and> mg_sessions m' = mg_sessions m \<and> mg_next m' = mg_next m"
proof -
  obtain r where sp: "run_spec cfg env (case mg_pendingRounds m of [] \<Rightarrow> None | p # ps \<Rightarrow> Some p)
      (mg_prevTrack m) (consumed m) = Some r"
    using assms by (auto simp: RunNextRound_def run_consume_def consumed_def split: option.splits)
  obtain x m2 where r: "r = (x, m2)" by (cases r)
  have m2: "mg_heap m2 = mg_heap m \<and> mg_pending m2 = [] \<and> mg_pendingRounds m2 = tl (mg_pendingRounds m) \<and>
      mg_sessions m2 = mg_sessions m \<and> mg_next m2 = mg_next m"
    using sp r by (auto simp: run_spec_def Let_def split: option.splits sum.splits)
  show ?thesis
  proof (cases x)
    case (Inl e)
    with assms sp r m2 show ?thesis by (simp add: RunNextRound_def run_consume_def consumed_def)
  next
    case (Inr p)
    with assms sp r have "run_round cfg env (mg_pending m) p m2 = Some (res, m')"
      by (simp add: RunNextRound_def run_consume_def consumed_def)
    from run_round_frame [OF this] m2 show ?thesis by (simp add: run_frame_def)
  qed
qed

section \<open>Stranded bets\<close>

text \<open>
  A session whose bet is neither queued nor settled: BET or RACING, and no longer in the
  queue.
\<close>

definition stranded :: "nat \<Rightarrow> 'w mgr \<Rightarrow> bool" where
  "stranded p m \<longleftrightarrow> p < mg_next m \<and> ses_State (mg_heap m p) \<in> {SessionBet, SessionRacing} \<and> p \<notin> set (mg_pending m)"

lemma PlaceBet_cases:
  obtains (refused) e w where "PlaceBet cfg rnd t now sid a m = (Inl e, m\<lparr>mg_wallet := w\<rparr>)"
  | (accepted) p b w s where "mg_sessions m sid = Some p" "session_place_bet now b (mg_heap m p) = (None, s)"
      "PlaceBet cfg rnd t now sid a m = (Inr b, m\<lparr>mg_wallet := w, mg_heap := (mg_heap m)(p := s),
         mg_pending := mg_pending m @ [p]\<rparr>)"
proof (cases "PlaceBet cfg rnd t now sid a m")
  case (Pair res m')
  show ?thesis
  proof (cases res)
    case (Inl e)
    then have "\<exists>w. m' = m\<lparr>mg_wallet := w\<rparr>"
      using Pair by (auto simp: PlaceBet_def Let_def split: option.splits prod.splits if_splits
          intro: exI [of _ "mg_wallet m"])
    with Pair Inl refused show ?thesis by blast
  next
    case (Inr b)
    with Pair accepted show ?thesis
      by (auto simp: PlaceBet_def Let_def split: option.splits prod.splits if_splits)
  qed
qed

text \<open>A bet on a round leaves the sessions alone.\<close>

definition session_part :: "'w mgr \<Rightarrow> (nat \<Rightarrow> session) \<times> nat \<times> nat list \<times> (string \<Rightarrow> nat option)" where
  "session_part m = (mg_heap m, mg_next m, mg_pending m, mg_sessions m)"

lemma round_bet_sessions [frame_simps]:
  "session_part (snd (round_bet_debit cfg pl u tx m)) = session_part m"
  "session_part (snd (round_bet_record cfg p u b m)) = session_part m"
  by (auto simp: session_part_def round_bet_debit_def round_bet_record_def split: prod.splits option.splits)

lemma PlaceBetOnRound_sessions [frame_simps]:
  "session_part (snd (PlaceBetOnRound cfg rnd now id rid pl i a m)) = session_part m"
proof (cases "round_bet_check cfg rid i a m")
  case (Inl e)
  then show ?thesis by (simp add: PlaceBetOnRound_def)
next
  case (Inr pu)
  obtain p u where pu: "pu = (p, u)" by (cases pu)
  obtain res m1 where d: "round_bet_debit cfg pl u (newID ''rbet_'' rnd) m = (res, m1)" by fastforce
  then have m1: "session_part m1 = session_part m"
    using round_bet_sessions(1) [of cfg pl u "newID ''rbet_'' rnd" m] by simp
  show ?thesis
  proof (cases res)
    case (Inl e)
    with Inr pu d m1 show ?thesis by (simp add: PlaceBetOnRound_def)
  next
    case (Inr bal)
    define b where "b = \<lparr>rb_BetID = newID ''rbet_'' rnd, rb_PlayerID = pl, rb_RoundID = rid,
      rb_MarbleIdx = i, rb_Amount = a, rb_PlacedAt = now\<rparr>"
    obtain e m2 where r: "round_bet_record cfg p u b m1 = (e, m2)" by fastforce
    then have "session_part m2 = session_part m"
      using round_bet_sessions(2) [of cfg p u b m1] m1 by simp
    with \<open>round_bet_check cfg rid i a m = Inr pu\<close> pu d Inr r show ?thesis
      by (cases e) (simp_all add: PlaceBetOnRound_def Let_def b_def)
  qed
qed

lemma stranded_apply:
  assumes s: "stranded p m" and ap: "mgr_apply cfg ev m = Some m'"
  shows "stranded p m' \<and> mg_heap m' p = mg_heap m p"
proof (cases ev)
  case (EvOpen rnd now pl)
  with assms show ?thesis
    by (cases "pl = []") (auto simp: OpenSession_def Let_def stranded_def)
next
  case (EvBet rnd t now sid a)
  show ?thesis
  proof (rule PlaceBet_cases [of cfg rnd t now sid a m], goal_cases)
    case (1 e w)
    with assms EvBet show ?thesis by (auto simp: stranded_def)
  next
    case (2 q b w s1)
    have "q \<noteq> p"
      using 2(2) s by (auto simp: stranded_def session_place_bet_def)
    with 2(3) assms EvBet show ?thesis by (auto simp: stranded_def)
  qed
next
  case (EvCloseSession now sid)
  have refused: "snd (session_close now (mg_heap m p)) = mg_heap m p"
    using s by (auto simp: stranded_def session_close_def)
  show ?thesis
  proof (cases "mg_sessions m sid")
    case None
    with assms EvCloseSession show ?thesis by (simp add: CloseSession_def)
  next
    case (Some q)
    obtain e t where "session_close now (mg_heap m q) = (e, t)" by fastforce
    with Some assms EvCloseSession refused show ?thesis
      by (cases "q = p") (auto simp: CloseSession_def stranded_def)
  qed
next
  case (EvMint r rid)
  with assms show ?thesis
    by (auto simp: GenerateRoundSpec_def Let_def stranded_def split: sum.splits option.splits)
next
  case (EvRoundBet rnd now rid pl i a)
  with ap have "session_part m' = session_part m" using PlaceBetOnRound_sessions [of cfg rnd now rid pl i a m] by simp
  with s show ?thesis by (simp add: session_part_def stranded_def)
next
  case (EvRun env)
  with ap obtain res where "RunNextRound cfg env m = Some (res, m')" by auto
  from RunNextRound_frame [OF this] s show ?thesis by (simp add: stranded_def)
qed

interpretation strand: invariant_system "\<lambda>x. x = m" "mgr_step cfg"
    "\<lambda>x. stranded p m \<longrightarrow> stranded p x \<and> mg_heap x p = mg_heap m p"
  for m :: "'w mgr" and cfg p
proof (unfold_locales, goal_cases)
  case (1 x)
  then show ?case by simp
next
  case (2 x ev y)
  then show ?case using stranded_apply [of p x cfg ev y] by (auto simp: mgr_step_def)
qed

section \<open>Runs that fail\<close>

text \<open>More bets than marbles: the round refuses the surplus bettor before any marble is assigned.\<close>

lemma run_round_full:
  assumes cfg: "cfg_ok cfg" and entry: "round_entry_ok cfg m pr"
    and "[] \<notin> set (map (\<lambda>p. ses_PlayerID (mg_heap m p)) ps)" and "cfg_MaxMarbles cfg < int (length ps)"
  shows "run_round cfg env ps pr m =
    Some (Inl (Wrapf ''rgs: add bettor'' (Sentinel (RoundErr ErrRoundFull))), m)"
proof -
  obtain seed where seed: "hex_decode (sp_ServerSeedHex (pr_spec (mg_rounds m pr))) = Inr seed" "seed32 seed = seed"
    using hex_decode_seed [OF entry] seed32_id by blast
  with assms(4) build_round_eq [OF assms(3), of cfg env "pr_spec (mg_rounds m pr)" seed] cfg
  show ?thesis by (simp add: run_round_def Let_def cfg_ok_def)
qed

text \<open>A simulator that fails: the marbles are assigned, nothing else has happened.\<close>

lemma run_round_sim_error:
  assumes cfg: "cfg_ok cfg" and entry: "round_entry_ok cfg m pr" and "clock_ok env"
    and ps: "distinct ps" "\<forall>p \<in> set ps. waiting (mg_heap m p)"
      "[] \<notin> set (map (\<lambda>p. ses_PlayerID (mg_heap m p)) ps)" "int (length ps) \<le> cfg_MaxMarbles cfg"
    and sim: "\<And>req. re_sim env req = Inl e"
  shows "\<exists>h. run_round cfg env ps pr m = Some (Inl (Wrapf ''rgs: sim'' e), m\<lparr>mg_heap := h\<rparr>) \<and>
    (\<forall>k < length ps. h (ps ! k) = raced (re_assign env) (int k) (mg_heap m (ps ! k)))"
proof -
  let ?names = "map (\<lambda>p. ses_PlayerID (mg_heap m p)) ps"
  let ?spec = "pr_spec (mg_rounds m pr)"
  obtain seed where seed: "hex_decode (sp_ServerSeedHex ?spec) = Inr seed" "seed32 seed = seed"
    using hex_decode_seed [OF entry] seed32_id by blast
  have bld: "build_round cfg env ?spec seed ?names = Inr (field_round cfg env ?spec seed ?names)"
    using build_round_eq [OF ps(3), of cfg env ?spec seed] cfg ps(4) by (simp add: cfg_ok_def)
  obtain h where h: "assign_all (re_assign env) 0 ps (mg_heap m) = (None, h)"
      "\<forall>k < length ps. h (ps ! k) = raced (re_assign env) (int k) (mg_heap m (ps ! k))"
    using assign_all_ok [OF ps(1,2), of "re_assign env" 0] by auto
  have "run_race cfg env ?spec seed (field_round cfg env ?spec seed ?names) = Inl (Wrapf ''rgs: sim'' e)"
    using run_race_ok [OF assms(3), of "field_round cfg env ?spec seed ?names" cfg ?spec seed] sim
    by (simp add: field_round_def new_round_def)
  with seed bld h show ?thesis by (auto simp: run_round_def Let_def)
qed

section \<open>Properties\<close>

text \<open>
  C1: in every state the manager can reach, the queue holds each session at most once and
  only sessions in BET with their bet; a session has a bet exactly in BET and RACING; and
  every announced round that still waits is known to \<open>BetsForRound\<close> and carries only bets on
  its own id and on marbles of the field.
\<close>

theorem manager_invariant:
  assumes "reach fresh_mgr (mgr_step cfg) m" and "cfg_ok cfg"
  shows "distinct (mg_pending m) \<and>
    (\<forall>p \<in> set (mg_pending m). ses_State (mg_heap m p) = SessionBet \<and> ses_Bet (mg_heap m p) \<noteq> None) \<and>
    (\<forall>p < mg_next m. (ses_Bet (mg_heap m p) \<noteq> None) = (ses_State (mg_heap m p) \<in> {SessionBet, SessionRacing})) \<and>
    (\<forall>p \<in> set (mg_pendingRounds m). mg_roundBets m (sp_RoundID (pr_spec (mg_rounds m p))) \<noteq> None \<and>
       (\<forall>b \<in> set (pr_bets (mg_rounds m p)). rb_RoundID b = sp_RoundID (pr_spec (mg_rounds m p)) \<and>
          0 \<le> rb_MarbleIdx b \<and> rb_MarbleIdx b < cfg_MaxMarbles cfg))"
proof -
  have inv: "mgr_inv cfg m" using mgr.reach_inv [OF assms(1)] assms(2) by simp
  then have "\<forall>p < mg_next m. session_inv (mg_heap m p)" by (simp add: mgr_inv_def heap_ok_def)
  then have slot: "\<forall>p < mg_next m. (ses_Bet (mg_heap m p) \<noteq> None) =
      (ses_State (mg_heap m p) \<in> {SessionBet, SessionRacing})"
    unfolding session_inv_def by blast
  have rounds: "\<forall>p \<in> set (mg_pendingRounds m). round_entry_ok cfg m p"
    using inv by (simp add: mgr_inv_def rounds_ok_def)
  from queue_waiting(1,2) [OF inv] slot show ?thesis
    using rounds unfolding waiting_def round_entry_ok_def by blast
qed

text \<open>
  No call panics in any state the manager can reach: the bet of a racing session is never
  nil when it is settled, the track pool is never empty, and every call returns.
\<close>

theorem manager_never_panics:
  assumes "reach fresh_mgr (mgr_step cfg) m" and "cfg_ok cfg" and "mgr_enabled ev"
  shows "\<exists>m'. mgr_apply cfg ev m = Some m'"
  using mgr_apply_total [OF _ assms(2,3)] mgr.reach_inv [OF assms(1)] assms(2) by blast

text \<open>
  A bet that is neither queued nor settled is lost for good: no later call of any kind,
  not closing the session, not betting again, not running further rounds, ever changes that
  session again, and its bet stays in it.
\<close>

theorem stranded_for_ever:
  assumes "stranded p m" and "reach (\<lambda>x. x = m) (mgr_step cfg) m'"
  shows "mg_heap m' p = mg_heap m p \<and> stranded p m' \<and>
    fst (session_close now (mg_heap m' p)) \<noteq> None \<and> fst (session_place_bet now b (mg_heap m' p)) \<noteq> None"
proof -
  have s: "stranded p m'" "mg_heap m' p = mg_heap m p" using strand.reach_inv [OF assms(2)] assms(1) by auto
  then show ?thesis by (auto simp: stranded_def session_close_def session_place_bet_def)
qed

text \<open>
  C24: a run of an announced round that fails before the race is over keeps the money of the bets it
  took.  With more bets queued than the field has marbles, and whenever the simulator returns an
  error, every queued session is stranded with its stake, the announced round is gone, and the wallet
  is untouched, so nothing is refunded.  Failures after the race (of a credit or of \<open>Save\<close>) come when
  sessions may be settled already, and are not meant here.
\<close>

theorem failed_run_strands_bets:
  assumes "reach fresh_mgr (mgr_step cfg) m" and "cfg_ok cfg" and "mg_pendingRounds m = pr # prs"
    and "cfg_MaxMarbles cfg < int (length (mg_pending m)) \<or> clock_ok env \<and> (\<forall>req. re_sim env req = Inl e)"
  shows "\<exists>err m'. RunNextRound cfg env m = Some (Inl err, m') \<and> mg_wallet m' = mg_wallet m \<and>
    mg_pendingRounds m' = prs \<and> (\<forall>p \<in> set (mg_pending m). stranded p m' \<and>
      bet_Amount (the (ses_Bet (mg_heap m' p))) = bet_Amount (the (ses_Bet (mg_heap m p))))"
proof -
  have inv: "mgr_inv cfg m" using mgr.reach_inv [OF assms(1)] assms(2) by simp
  have entry: "round_entry_ok cfg (consumed m) pr"
    using inv assms(3) by (simp add: mgr_inv_def rounds_ok_def round_entry_ok_def)
  note q = queue_waiting [OF inv]
  note run = run_announced [OF assms(3), of cfg env]
  show ?thesis
  proof (cases "cfg_MaxMarbles cfg < int (length (mg_pending m))")
    case True
    then have "RunNextRound cfg env m =
        Some (Inl (Wrapf ''rgs: add bettor'' (Sentinel (RoundErr ErrRoundFull))), consumed m)"
      unfolding run using q(3) by (intro run_round_full assms(2) entry) auto
    with q(2) assms(3) show ?thesis by (simp add: stranded_def waiting_def)
  next
    case False
    then have clk: "clock_ok env" and sim: "\<And>req. re_sim env req = Inl e" using assms(4) by auto
    have "\<exists>h. RunNextRound cfg env m = Some (Inl (Wrapf ''rgs: sim'' e), (consumed m)\<lparr>mg_heap := h\<rparr>) \<and>
        (\<forall>k < length (mg_pending m). h (mg_pending m ! k) =
           raced (re_assign env) (int k) (mg_heap (consumed m) (mg_pending m ! k)))"
      unfolding run using q False sim by (intro run_round_sim_error assms(2) entry clk) auto
    then obtain h where h: "RunNextRound cfg env m = Some (Inl (Wrapf ''rgs: sim'' e), (consumed m)\<lparr>mg_heap := h\<rparr>)"
      "\<forall>k < length (mg_pending m). h (mg_pending m ! k) = raced (re_assign env) (int k) (mg_heap m (mg_pending m ! k))"
      by auto
    have "stranded p ((consumed m)\<lparr>mg_heap := h\<rparr>) \<and>
        bet_Amount (the (ses_Bet (h p))) = bet_Amount (the (ses_Bet (mg_heap m p)))"
      if p: "p \<in> set (mg_pending m)" for p
    proof -
      obtain k where "h p = raced (re_assign env) (int k) (mg_heap m p)"
        using p h(2) by (metis in_set_conv_nth)
      with p q(2) show ?thesis by (auto simp: stranded_def waiting_def)
    qed
    with h(1) assms(3) show ?thesis by simp
  qed
qed

section \<open>A small manager\<close>

text \<open>
  Two marbles, one track; alice has a session with a bet of 100 and a round is announced.
\<close>

definition demo_cfg :: "mock_wallet mgr_config" where
  "demo_cfg = \<lparr>cfg_Wallet = MockWallet, cfg_GodotBin = ''godot'', cfg_ProjectPath = ''game'', cfg_WorkRoot = ''w'',
     cfg_BuyIn = 100, cfg_RTPBps = 9500, cfg_MaxMarbles = 2, cfg_SimTimeout = 60000000000, cfg_TrackPool = [3],
     cfg_oor = (\<lambda>_. 0)\<rparr>"

definition demo_mgr0 :: "mock_wallet mgr" where
  "demo_mgr0 = blank_mgr (SetBalance ''alice'' 1000 NewMockWallet) []"

fun mgr_run :: "'w mgr_config \<Rightarrow> mgr_event list \<Rightarrow> 'w mgr \<Rightarrow> 'w mgr" where
  "mgr_run cfg [] m = m"
| "mgr_run cfg (ev # evs) m = mgr_run cfg evs (the (mgr_apply cfg ev m))"

lemma mgr_run_reach:
  assumes "reach fresh_mgr (mgr_step cfg) m" and "cfg_ok cfg" and "\<forall>ev \<in> set evs. mgr_enabled ev"
  shows "reach fresh_mgr (mgr_step cfg) (mgr_run cfg evs m)"
  using assms
proof (induction evs arbitrary: m)
  case Nil
  then show ?case by simp
next
  case (Cons ev evs)
  have "mgr_inv cfg m" using mgr.reach_inv [OF Cons.prems(1)] Cons.prems(2) by simp
  then obtain m' where m': "mgr_apply cfg ev m = Some m'"
    using mgr_apply_total Cons.prems(2,3) by (metis list.set_intros(1))
  then have "reach fresh_mgr (mgr_step cfg) m'"
    using Cons.prems by (intro reach_step [OF Cons.prems(1), where e = ev]) (simp add: mgr_step_def)
  with Cons m' show ?case by simp
qed

definition demo_events :: "mgr_event list" where
  "demo_events = [EvOpen [1] 5 ''alice'', EvBet [2] 6 6 (newID ''sess_'' [1]) 100, EvMint (Inr (replicate 32 7)) 11]"

definition demo_mgr :: "mock_wallet mgr" where
  "demo_mgr = mgr_run demo_cfg demo_events demo_mgr0"

lemma demo_cfg_ok: "cfg_ok demo_cfg"
  by (simp add: cfg_ok_def demo_cfg_def)

lemma demo_mgr_reach: "reach fresh_mgr (mgr_step demo_cfg) demo_mgr"
  unfolding demo_mgr_def
  by (rule mgr_run_reach [OF reach_init demo_cfg_ok])
    (auto simp: fresh_mgr_def demo_mgr0_def demo_events_def seed_ok_def)

lemma demo_mgr_state:
  "mg_pending demo_mgr = [0] \<and> mg_pendingRounds demo_mgr = [0] \<and> mg_next demo_mgr = 1 \<and>
   ses_PlayerID (mg_heap demo_mgr 0) = ''alice'' \<and> bet_Amount (the (ses_Bet (mg_heap demo_mgr 0))) = 100 \<and>
   sp_RoundID (pr_spec (mg_rounds demo_mgr 0)) = 11 \<and> sp_TrackID (pr_spec (mg_rounds demo_mgr 0)) = 3 \<and>
   pr_bets (mg_rounds demo_mgr 0) = []"
  by (simp add: demo_mgr_def demo_events_def demo_mgr0_def demo_cfg_def blank_mgr_def OpenSession_def
      PlaceBet_def Let_def MockWallet_def mock_debit_def SetBalance_def NewMockWallet_def
      new_session_def session_place_bet_def GenerateRoundSpec_def mgr_select_track_def)

lemma demo_mgr_inv: "mgr_inv demo_cfg demo_mgr"
  using mgr.reach_inv [OF demo_mgr_reach] demo_cfg_ok by simp

theorem manager_invariant_witness:
  "ses_State (mg_heap demo_mgr 0) = SessionBet \<and> ses_Bet (mg_heap demo_mgr 0) \<noteq> None"
  using manager_invariant [OF demo_mgr_reach demo_cfg_ok] demo_mgr_state by auto

theorem manager_never_panics_witness:
  "\<exists>m'. mgr_apply demo_cfg (EvCloseSession 9 (newID ''sess_'' [1])) demo_mgr = Some m'"
  by (rule manager_never_panics [OF demo_mgr_reach demo_cfg_ok]) simp

definition demo_run_env :: run_env where
  "demo_run_env = \<lparr>re_seed = Inr (replicate 32 1), re_freshID = 12, re_now = 10, re_assign = 11, re_start = 12,
     re_finish = 13, re_settle = 14, re_workDir = ''w/round-11'', re_sim = (\<lambda>req. Inr
       \<lparr>sim_RoundID = sr_RoundID req, sim_WinnerMarbleIndex = 0, sim_FinishTick = 900, sim_ReplayPath = ''replay.bin'',
        sim_ServerSeedHashHex = [], sim_TickRateHz = 60\<rparr>),
     re_open = (\<lambda>path. Inr [1, 2, 3]), re_save = demo_env\<rparr>"

definition broken_sim_env :: run_env where
  "broken_sim_env = demo_run_env\<lparr>re_sim := (\<lambda>req. Inl (Errorf ''exit status 1''))\<rparr>"

lemma demo_clock: "clock_ok demo_run_env" "clock_ok broken_sim_env"
  by (simp_all add: clock_ok_def demo_run_env_def broken_sim_env_def)

theorem failed_run_strands_bets_witness:
  "\<exists>err m'. RunNextRound demo_cfg broken_sim_env demo_mgr = Some (Inl err, m') \<and>
     mg_wallet m' = mg_wallet demo_mgr \<and> stranded 0 m' \<and> bet_Amount (the (ses_Bet (mg_heap m' 0))) = 100"
proof -
  have "mg_pendingRounds demo_mgr = 0 # []" and q: "mg_pending demo_mgr = [0]"
    "bet_Amount (the (ses_Bet (mg_heap demo_mgr 0))) = 100" using demo_mgr_state by auto
  moreover have "\<forall>req. re_sim broken_sim_env req = Inl (Errorf ''exit status 1'')"
    by (simp add: broken_sim_env_def)
  ultimately obtain err m' where "RunNextRound demo_cfg broken_sim_env demo_mgr = Some (Inl err, m')"
    "mg_wallet m' = mg_wallet demo_mgr"
    "\<forall>p \<in> set (mg_pending demo_mgr). stranded p m' \<and>
      bet_Amount (the (ses_Bet (mg_heap m' p))) = bet_Amount (the (ses_Bet (mg_heap demo_mgr p)))"
    using failed_run_strands_bets [OF demo_mgr_reach demo_cfg_ok] demo_clock(2) by blast
  with q show ?thesis by auto
qed

definition stuck_mgr :: "mock_wallet mgr" where
  "stuck_mgr = demo_mgr\<lparr>mg_pending := []\<rparr>"

theorem stranded_for_ever_witness:
  "fst (session_close 99 (mg_heap (snd (OpenSession [8] 20 ''bob'' stuck_mgr)) 0)) \<noteq> None"
proof -
  have "stranded 0 stuck_mgr"
    using demo_mgr_state queue_waiting(2) [OF demo_mgr_inv] by (simp add: stranded_def stuck_mgr_def waiting_def)
  moreover have "reach (\<lambda>x. x = stuck_mgr) (mgr_step demo_cfg) (snd (OpenSession [8] 20 ''bob'' stuck_mgr))"
    by (rule reach_step [OF reach_init, where e = "EvOpen [8] 20 ''bob''"]) (simp_all add: mgr_step_def)
  ultimately show ?thesis using stranded_for_ever by blast
qed

end
