(* ===== verification/Manager_Money.thy ===== *)
theory Manager_Money
  imports Manager_Props
begin

text \<open>
  What the calls of the manager do with the players' money (server/rgs/manager.go,
  \<open>PlaceBet\<close> and \<open>PlaceBetOnRound\<close>), for every wallet that keeps the contract its interface
  documents, and the integer amounts a bet in floating point stands for.
\<close>

section \<open>Bets of a session\<close>

text \<open>
  The random bytes of the call make the id of the bet and, from it, the id of its refund;
  both are new to the wallet.
\<close>

definition ids_fresh :: "string set \<Rightarrow> string \<Rightarrow> bool" where
  "ids_fresh P betID \<longleftrightarrow> betID \<notin> P \<and> betID @ '':refund'' \<notin> P"

context wallet_contract
begin

lemma refund_restores:
  assumes "w_Debit W p a tx w = (None, w')" and "ids_fresh (posted w) tx"
    and "\<And>b. bal w p = Some b \<Longrightarrow> b < two64"
  shows "bal (snd (w_Credit W p a (tx @ '':refund'') w')) = bal w"
  using debit_refund [OF assms(1), of "tx @ '':refund''"] assms(2,3) by (auto simp: ids_fresh_def)

end

lemma session_place_bet_ok:
  "session_place_bet now b s = (None, s') \<Longrightarrow>
    ses_State s' = SessionBet \<and> ses_Bet s' = Some (b\<lparr>bet_MarbleIndex := - 1\<rparr>) \<and>
    ses_PlayerID s' = ses_PlayerID s"
  by (auto simp: session_place_bet_def split: if_splits)

text \<open>The four ways a bet goes, with the calls of the wallet that were made.\<close>

lemma PlaceBet_paths:
  obtains (untouched) e where "PlaceBet cfg rnd t now sid a m = (Inl e, m)"
  | (short) p err w1 e where "mg_sessions m sid = Some p"
      "w_Debit (cfg_Wallet cfg) (ses_PlayerID (mg_heap m p)) a (newID ''bet_'' rnd) (mg_wallet m) = (Some err, w1)"
      "PlaceBet cfg rnd t now sid a m = (Inl e, m\<lparr>mg_wallet := w1\<rparr>)"
  | (returned) p w1 e where "mg_sessions m sid = Some p"
      "w_Debit (cfg_Wallet cfg) (ses_PlayerID (mg_heap m p)) a (newID ''bet_'' rnd) (mg_wallet m) = (None, w1)"
      "PlaceBet cfg rnd t now sid a m = (Inl e, m\<lparr>mg_wallet :=
         snd (w_Credit (cfg_Wallet cfg) (ses_PlayerID (mg_heap m p)) a (newID ''bet_'' rnd @ '':refund'') w1)\<rparr>)"
  | (taken) p w1 b s1 where "mg_sessions m sid = Some p" "a \<noteq> 0"
      "w_Debit (cfg_Wallet cfg) (ses_PlayerID (mg_heap m p)) a (newID ''bet_'' rnd) (mg_wallet m) = (None, w1)"
      "bet_Amount b = a" "bet_PlayerID b = ses_PlayerID (mg_heap m p)"
      "session_place_bet now b (mg_heap m p) = (None, s1)"
      "PlaceBet cfg rnd t now sid a m = (Inr b, m\<lparr>mg_wallet := w1, mg_heap := (mg_heap m)(p := s1),
         mg_pending := mg_pending m @ [p]\<rparr>)"
proof (cases "mg_sessions m sid")
  case None
  then show ?thesis by (intro untouched) (simp add: PlaceBet_def)
next
  case sid: (Some p)
  let ?pl = "ses_PlayerID (mg_heap m p)"
  define b where "b = \<lparr>bet_BetID = newID ''bet_'' rnd, bet_Amount = a, bet_PlayerID = ?pl, bet_PlacedAt = t, bet_MarbleIndex = 0\<rparr>"
  obtain e w1 where d: "w_Debit (cfg_Wallet cfg) ?pl a (newID ''bet_'' rnd) (mg_wallet m) = (e, w1)" by fastforce
  obtain e2 s1 where sb: "session_place_bet now b (mg_heap m p) = (e2, s1)" by fastforce
  note run = PlaceBet_def Let_def b_def [symmetric]
  show ?thesis
  proof (cases "a = 0")
    case True
    with sid show ?thesis by (intro untouched) (simp add: PlaceBet_def)
  next
    case pos: False
    show ?thesis
    proof (cases e)
      case (Some err)
      with sid d pos show ?thesis by (intro short) (simp_all add: run)
    next
      case None
      show ?thesis
      proof (cases e2)
        case (Some err)
        with None sid d pos sb show ?thesis by (intro returned) (simp_all add: run)
      next
        case ok: None
        have "PlaceBet cfg rnd t now sid a m = (Inr b, m\<lparr>mg_wallet := w1, mg_heap := (mg_heap m)(p := s1),
            mg_pending := mg_pending m @ [p]\<rparr>)"
          using None sid d pos sb ok by (simp add: run)
        then show ?thesis using None sid d pos sb ok by (intro taken) (simp_all add: b_def)
      qed
    qed
  qed
qed

text \<open>
  C10: a bet takes the player's money exactly when it is accepted: an accepted bet has taken
  its amount and nothing else, sits in its session and at the end of the queue; a refused
  one, whether the session, the wallet or the session's state refused it, leaves every
  balance, every session and the queue as they were.
\<close>

theorem place_bet_takes_or_refunds:
  assumes "wallet_contract (cfg_Wallet cfg) bal posted" and "ids_fresh (posted (mg_wallet m)) (newID ''bet_'' rnd)"
    and "\<forall>p b. bal (mg_wallet m) p = Some b \<longrightarrow> b < two64"
    and "PlaceBet cfg rnd t now sid a m = (res, m')"
  shows "case res of
      Inl e \<Rightarrow> bal (mg_wallet m') = bal (mg_wallet m) \<and> mg_heap m' = mg_heap m \<and> mg_pending m' = mg_pending m
    | Inr b \<Rightarrow> a \<noteq> 0 \<and> bet_Amount b = a \<and> (\<exists>p v. mg_sessions m sid = Some p \<and> bet_PlayerID b = ses_PlayerID (mg_heap m p) \<and>
        bal (mg_wallet m) (bet_PlayerID b) = Some v \<and> unat a \<le> v \<and>
        bal (mg_wallet m') = (bal (mg_wallet m))(bet_PlayerID b \<mapsto> v - unat a) \<and>
        mg_pending m' = mg_pending m @ [p] \<and> ses_State (mg_heap m' p) = SessionBet \<and>
        ses_Bet (mg_heap m' p) = Some (b\<lparr>bet_MarbleIndex := - 1\<rparr>) \<and>
        (\<forall>q. q \<noteq> p \<longrightarrow> mg_heap m' q = mg_heap m q))"
proof (rule PlaceBet_paths [of cfg rnd t now sid a m], goal_cases)
  case (1 e)
  with assms(4) show ?case by auto
next
  case (2 p err w1 e)
  moreover have "bal w1 = bal (mg_wallet m)"
    using wallet_contract.debit_failure [OF assms(1) 2(2)] by simp
  ultimately show ?case using assms(4) by auto
next
  case (3 p w1 e)
  with wallet_contract.refund_restores [OF assms(1) 3(2) assms(2)] assms(3,4) show ?case by auto
next
  case (4 p w1 b s1)
  obtain v where "bal (mg_wallet m) (bet_PlayerID b) = Some v" "unat a \<le> v"
      "bal w1 = (bal (mg_wallet m))(bet_PlayerID b \<mapsto> v - unat a)"
    using wallet_contract.debit_success [OF assms(1) 4(3)] assms(2) 4(5) by (auto simp: ids_fresh_def)
  with 4 assms(4) session_place_bet_ok [OF 4(6)] show ?case by auto
qed

theorem place_bet_takes_or_refunds_witness:
  "\<exists>b m'. PlaceBet demo_cfg [2] 6 6 (newID ''sess_'' [1]) 100 (snd (OpenSession [1] 5 ''alice'' demo_mgr0)) = (Inr b, m') \<and>
     mock_bal (mg_wallet m') ''alice'' = Some 900"
proof -
  let ?m = "snd (OpenSession [1] 5 ''alice'' demo_mgr0)"
  note demo = demo_mgr0_def demo_cfg_def blank_mgr_def OpenSession_def Let_def SetBalance_def NewMockWallet_def new_session_def
  obtain b m' where run: "PlaceBet demo_cfg [2] 6 6 (newID ''sess_'' [1]) 100 ?m = (Inr b, m')"
    by (simp add: demo PlaceBet_def MockWallet_def mock_debit_def session_place_bet_def)
  have c1: "wallet_contract (cfg_Wallet demo_cfg) mock_bal mock_posted"
    using mock.wallet_contract_axioms by (simp add: demo_cfg_def)
  have c2: "ids_fresh (mock_posted (mg_wallet ?m)) (newID ''bet_'' [2])"
    by (simp add: demo ids_fresh_def mock_posted_def)
  have c3: "\<forall>p c. mock_bal (mg_wallet ?m) p = Some c \<longrightarrow> c < two64"
    by (auto simp: mock_bal_Some unat64_lt)
  have "bet_Amount b = 100 \<and> (\<exists>p v. mg_sessions ?m (newID ''sess_'' [1]) = Some p \<and>
      bet_PlayerID b = ses_PlayerID (mg_heap ?m p) \<and> mock_bal (mg_wallet ?m) (bet_PlayerID b) = Some v \<and>
      mock_bal (mg_wallet m') = (mock_bal (mg_wallet ?m))(bet_PlayerID b \<mapsto> v - 100))"
    using place_bet_takes_or_refunds [OF c1 c2 c3 run] by auto
  moreover have "mg_sessions ?m (newID ''sess_'' [1]) = Some 0" "ses_PlayerID (mg_heap ?m 0) = ''alice''"
    "mock_bal (mg_wallet ?m) ''alice'' = Some 1000"
    by (simp_all add: demo mock_bal_def)
  ultimately have "mock_bal (mg_wallet m') ''alice'' = Some 900" by auto
  with run show ?thesis by blast
qed

section \<open>Bets on a round\<close>

text \<open>The manager another goroutine finds between the debit and the recording.\<close>

definition debited :: "'w mgr_config \<Rightarrow> string \<Rightarrow> u64 \<Rightarrow> string \<Rightarrow> 'w mgr \<Rightarrow> 'w mgr" where
  "debited cfg pl u betID m = m\<lparr>mg_wallet := snd (w_Debit (cfg_Wallet cfg) pl u betID (mg_wallet m))\<rparr>"

lemma round_bet_debit_cases:
  obtains (refused) e err where "w_Debit (cfg_Wallet cfg) pl u betID (mg_wallet m) = (Some e, mg_wallet (debited cfg pl u betID m))"
      "round_bet_debit cfg pl u betID m = (Inl err, debited cfg pl u betID m)"
  | (taken) v where "w_Debit (cfg_Wallet cfg) pl u betID (mg_wallet m) = (None, mg_wallet (debited cfg pl u betID m))"
      "round_bet_debit cfg pl u betID m = (Inr v, debited cfg pl u betID m)"
proof (cases "w_Debit (cfg_Wallet cfg) pl u betID (mg_wallet m)")
  case (Pair e w1)
  with refused taken show ?thesis
    by (cases e) (auto simp: round_bet_debit_def debited_def)
qed

lemma round_bet_recorded:
  assumes "findPendingRound (rb_RoundID b) m \<noteq> None" and "mg_roundBets m (rb_RoundID b) = Some bs"
  shows "\<exists>m'. round_bet_record cfg pr u b m = (None, m') \<and> mg_wallet m' = mg_wallet m \<and>
    BetsForRound (rb_RoundID b) [] m' = Inr (bs @ [b]) \<and>
    pr_bets (mg_rounds m' pr) = pr_bets (mg_rounds m pr) @ [b]"
  using assms by (auto simp: round_bet_record_def BetsForRound_def)

text \<open>
  A bet on a round never keeps money for nothing, even when \<open>RunNextRound\<close> takes the round
  while the bet is being placed.  \<open>mid\<close> stands for all that happens to the manager between
  the debit and the recording.  Either nothing was taken; or the round is still there and
  the bet is on the round's list and in \<open>BetsForRound\<close>; or the round is gone, the call
  reports \<open>ErrRoundAlreadyRun\<close>, records nothing and pays back exactly what it took.
\<close>

theorem round_bet_recorded_or_refunded:
  assumes "wallet_contract (cfg_Wallet cfg) bal posted"
    and "round_bet_check cfg rid i a m = Inr (pr, u)" and "betID = newID ''rbet_'' rnd" and "betID \<notin> posted (mg_wallet m)"
    and M: "M = mid (debited cfg pl u betID m)" "betID @ '':refund'' \<notin> posted (mg_wallet M)"
      "mg_roundBets M rid = Some bs" "bal (mg_wallet M) pl = Some v" "v + unat u < two64"
    and "PlaceBetOnRound cfg rnd now mid rid pl i a m = (res, m')"
  shows "(\<exists>e. res = Inl e \<and> bal (mg_wallet m') = bal (mg_wallet m) \<and> mg_rounds m' = mg_rounds m \<and> mg_roundBets m' = mg_roundBets m) \<or>
    (\<exists>v0. bal (mg_wallet m) pl = Some v0 \<and> unat u \<le> v0 \<and>
       bal (mg_wallet (debited cfg pl u betID m)) = (bal (mg_wallet m))(pl \<mapsto> v0 - unat u) \<and>
       (case findPendingRound rid M of
          None \<Rightarrow> res = Inl (Sentinel (SessionErr ErrRoundAlreadyRun)) \<and> mg_rounds m' = mg_rounds M \<and>
            mg_roundBets m' = mg_roundBets M \<and> bal (mg_wallet m') = (bal (mg_wallet M))(pl \<mapsto> v + unat u)
        | Some q \<Rightarrow> (\<exists>b c. res = Inr (b, c) \<and> rb_BetID b = betID \<and> rb_Amount b = a \<and> mg_wallet m' = mg_wallet M \<and>
            BetsForRound rid [] m' = Inr (bs @ [b]) \<and> pr_bets (mg_rounds m' pr) = pr_bets (mg_rounds M pr) @ [b])))"
proof (rule round_bet_debit_cases [of cfg pl u betID m], goal_cases)
  case (1 e err)
  then have "bal (mg_wallet (debited cfg pl u betID m)) = bal (mg_wallet m)"
    using wallet_contract.debit_failure [OF assms(1)] by blast
  with 1 assms(2,10) show ?case by (auto simp: PlaceBetOnRound_def Let_def assms(3) [symmetric] debited_def)
next
  case (2 c)
  let ?b = "\<lparr>rb_BetID = betID, rb_PlayerID = pl, rb_RoundID = rid, rb_MarbleIdx = i, rb_Amount = a, rb_PlacedAt = now\<rparr>"
  obtain v0 where v0: "bal (mg_wallet m) pl = Some v0" "unat u \<le> v0"
      "bal (mg_wallet (debited cfg pl u betID m)) = (bal (mg_wallet m))(pl \<mapsto> v0 - unat u)"
    using wallet_contract.debit_success [OF assms(1) 2(1) assms(4)] by blast
  have run: "PlaceBetOnRound cfg rnd now mid rid pl i a m =
      (case round_bet_record cfg pr u ?b M of (Some e, m2) \<Rightarrow> (Inl e, m2) | (None, m2) \<Rightarrow> (Inr (?b, c), m2))"
    using 2(2) assms(2) by (simp add: PlaceBetOnRound_def Let_def assms(3) [symmetric] M(1) split: prod.split)
  show ?case
  proof (cases "findPendingRound rid M")
    case None
    obtain w where "w_Credit (cfg_Wallet cfg) pl u (betID @ '':refund'') (mg_wallet M) = (None, w)"
        "bal w = (bal (mg_wallet M))(pl \<mapsto> v + unat u)"
      using wallet_contract.credit_ok [OF assms(1) M(4,2,5)] by blast
    with None run assms(10) v0 show ?thesis by (simp add: round_bet_record_def)
  next
    case (Some q)
    then obtain m2 where "round_bet_record cfg pr u ?b M = (None, m2)" "mg_wallet m2 = mg_wallet M"
      "BetsForRound rid [] m2 = Inr (bs @ [?b])" "pr_bets (mg_rounds m2 pr) = pr_bets (mg_rounds M pr) @ [?b]"
      using round_bet_recorded [of ?b M bs cfg pr u] M(3) by auto
    with Some run assms(10) v0 show ?thesis by auto
  qed
qed

lemma demo_contract: "wallet_contract (cfg_Wallet demo_cfg) mock_bal mock_posted"
  using mock.wallet_contract_axioms by (simp add: demo_cfg_def)

lemma demo_round_known:
  "findPendingRound 11 demo_mgr = Some 0" "mg_roundBets demo_mgr 11 = Some []"
  "mock_bal (mg_wallet demo_mgr) ''alice'' = Some 900"
  "newID ''rbet_'' [4] \<notin> mock_posted (mg_wallet demo_mgr)"
  by (simp_all add: demo_mgr_def demo_events_def demo_mgr0_def demo_cfg_def blank_mgr_def OpenSession_def
      PlaceBet_def Let_def MockWallet_def mock_debit_def SetBalance_def NewMockWallet_def mock_bal_def mock_posted_def
      new_session_def session_place_bet_def GenerateRoundSpec_def mgr_select_track_def findPendingRound_def newID_def)

lemma one_unit_checked: "round_bet_check demo_cfg 11 0 (f64_int 1) demo_mgr = Inr (0, 100)"
  using f64_to_u64_int(1) [of 100 "cfg_oor demo_cfg"] demo_round_known(1)
  by (simp add: round_bet_check_def demo_cfg_def f64_le0_def f64_mult_def f64_int_def Let_def)

theorem round_bet_recorded_or_refunded_witness:
  "\<exists>m'. PlaceBetOnRound demo_cfg [4] 7 consumed 11 ''alice'' 0 (f64_int 1) demo_mgr =
      (Inl (Sentinel (SessionErr ErrRoundAlreadyRun)), m') \<and> mock_bal (mg_wallet m') ''alice'' = Some 900"
proof -
  let ?id = "newID ''rbet_'' [4]"
  let ?d = "debited demo_cfg ''alice'' 100 ?id demo_mgr"
  let ?M = "consumed ?d"
  obtain res m' where run: "PlaceBetOnRound demo_cfg [4] 7 consumed 11 ''alice'' 0 (f64_int 1) demo_mgr = (res, m')"
    by fastforce
  have le: "unat (100 :: u64) \<le> 900" by simp
  obtain w where d: "w_Debit (cfg_Wallet demo_cfg) ''alice'' 100 ?id (mg_wallet demo_mgr) = (None, w)"
    and w0: "mock_bal w = (mock_bal (mg_wallet demo_mgr))(''alice'' \<mapsto> 900 - unat (100 :: u64))"
      "mock_posted w = insert ?id (mock_posted (mg_wallet demo_mgr))"
    using wallet_contract.debit_ok [OF demo_contract, OF demo_round_known(3,4) le] by blast
  note w = w0 [simplified]
  have "?id @ '':refund'' \<notin> mock_posted (mg_wallet demo_mgr)"
    by (simp add: demo_mgr_def demo_events_def demo_mgr0_def demo_cfg_def blank_mgr_def OpenSession_def
      PlaceBet_def Let_def MockWallet_def mock_debit_def SetBalance_def NewMockWallet_def mock_posted_def
      new_session_def session_place_bet_def GenerateRoundSpec_def mgr_select_track_def newID_def)
  then have M: "?id @ '':refund'' \<notin> mock_posted (mg_wallet ?M)" "mg_roundBets ?M 11 = Some []"
    "mock_bal (mg_wallet ?M) ''alice'' = Some 800"
    using demo_round_known(2) by (simp_all add: debited_def d w)
  have gone: "findPendingRound 11 ?M = None"
    using demo_mgr_state by (simp add: findPendingRound_def debited_def)
  have "(\<exists>e. res = Inl e \<and> mock_bal (mg_wallet m') = mock_bal (mg_wallet demo_mgr) \<and> mg_rounds m' = mg_rounds demo_mgr \<and>
      mg_roundBets m' = mg_roundBets demo_mgr) \<or> res = Inl (Sentinel (SessionErr ErrRoundAlreadyRun)) \<and>
      mock_bal (mg_wallet m') = (mock_bal (mg_wallet ?M))(''alice'' \<mapsto> 900)"
    using round_bet_recorded_or_refunded [OF demo_contract, OF one_unit_checked refl demo_round_known(4) refl M _ run] gone
    by auto
  moreover have "res = Inl (Sentinel (SessionErr ErrRoundAlreadyRun))"
    using run gone by (auto simp: PlaceBetOnRound_def Let_def one_unit_checked round_bet_debit_def d round_bet_record_def
        debited_def split: sum.splits)
  ultimately have "mock_bal (mg_wallet m') ''alice'' = Some 900" using demo_round_known(3) by auto
  with run \<open>res = _\<close> show ?thesis by blast
qed

section \<open>Amounts\<close>

lemma uint_of_small: "0 \<le> k \<Longrightarrow> k < 2 ^ 53 \<Longrightarrow> uint (of_int k :: u64) = k"
  by (simp add: uint_word_of_int_eq take_bit_int_eq_self)

text \<open>
  C29: a bet of a whole number of units is debited a hundred times that number and, when its
  marble wins, paid exactly nineteen times the debit, as long as the payout in hundredths is
  below \<open>2^53\<close>: no rounding of the floating-point computation shows.
\<close>

theorem whole_round_bets_exact:
  assumes "0 < n" and "1900 * n < 2 ^ 53"
    and "0 \<le> i" and "i < cfg_MaxMarbles cfg" and "findPendingRound rid m = Some pr"
  shows "round_bet_check cfg rid i (f64_int n) m = Inr (pr, of_int (100 * n)) \<and>
    payout_units oor (f64_int n) = of_int (1900 * n) \<and>
    uint (payout_units oor (f64_int n)) = 19 * uint (of_int (100 * n) :: u64)"
proof -
  have "f64_to_u64 f (f64_mult (f64_int n) (f64_int 100)) = of_int (100 * n)" for f
    using f64_to_u64_int(1) [of "n * 100" f] assms(1,2) by (simp add: f64_mult_def f64_int_def mult.commute)
  moreover have "payout_units oor (f64_int n) = of_int (1900 * n)"
    using f64_to_u64_int(1) [of "n * 1900" oor] f64_mult_int [of n 19] assms(1,2)
    by (simp add: payout_units_def round_bet_payout_def PayoutMultiplier_def f64_mult_def f64_int_def mult.commute)
  moreover have "uint (of_int (100 * n) :: u64) = 100 * n" "uint (of_int (1900 * n) :: u64) = 1900 * n"
    using uint_of_small [of "100 * n"] uint_of_small [of "1900 * n"] assms(1,2) by linarith+
  ultimately show ?thesis
    using assms by (auto simp: round_bet_check_def f64_le0_def f64_int_def Let_def word_uint_eq_iff)
qed

theorem whole_round_bets_exact_witness:
  "round_bet_check demo_cfg 11 1 (f64_int 3) demo_mgr = Inr (0, 300) \<and> payout_units (\<lambda>_. 0) (f64_int 3) = 5700"
  using whole_round_bets_exact [of 3 1 demo_cfg 11 demo_mgr 0 "\<lambda>_. 0"] demo_round_known(1)
  by (simp add: demo_cfg_def)

lemma bits_eq:
  assumes "2 ^ k \<le> n" and "n < 2 ^ Suc k"
  shows "bits n = Suc k"
proof (rule antisym)
  show "bits n \<le> Suc k" using assms(2) by (rule bits_le)
  have "0 < n" using assms(1) by (metis gr0I not_le zero_less_numeral zero_less_power)
  then have "2 ^ k < (2 :: nat) ^ bits n" using bits_bounds [of n] assms(1) by linarith
  then show "Suc k \<le> bits n" by simp
qed

lemma f64_round_bits:
  assumes "bits (nat m) = k" and "53 \<le> k" and "- 1074 \<le> e" and "round_shift (nat m) (k - 53) = q"
    and "bits q = 53" and "e \<le> 900" and "k \<le> 100"
  shows "f64_round m e = Fin (int q) (e + int (k - 53))"
proof -
  have m: "0 < m" using assms(1,2) by (cases "m \<le> 0") (auto simp: bits.simps)
  then have "excess (nat m) e = k - 53" using assms by (simp add: excess_def)
  moreover have "q \<noteq> 0" using assms(5) by (cases "q = 0") (simp_all add: bits.simps [of 0])
  ultimately show ?thesis using assms m by (simp add: f64_round_def Let_def)
qed

text \<open>
  Amounts that binary floating point cannot represent lose money on the way in: a stake of
  0.29 (the double \<open>5224175567749775 * 2^-54\<close>) is debited as 28 hundredths, not 29, although
  the comment says two decimal places are preserved, while its payout is computed from the
  unrounded stake and is 551 hundredths, nineteen times 29.
\<close>

theorem cents_are_truncated:
  "f64_to_u64 oor (f64_mult (Fin 5224175567749775 (- 54)) (f64_int 100)) = 28 \<and>
   payout_units oor (Fin 5224175567749775 (- 54)) = 551"
proof -
  have stake: "f64_mult (Fin 5224175567749775 (- 54)) (f64_int 100) = Fin 8162774324609023 (- 48)"
    using bits_eq [of 58 522417556774977500] bits_eq [of 52 8162774324609023]
    by (simp add: f64_mult_def f64_int_def f64_round_bits [where k = 59 and q = 8162774324609023] round_shift_def)
  have won: "round_bet_payout (Fin 5224175567749775 (- 54)) = Fin 6203708486702858 (- 50)"
    using bits_eq [of 56 99259335787245725] bits_eq [of 52 6203708486702858]
    by (simp add: round_bet_payout_def PayoutMultiplier_def f64_mult_def f64_int_def
        f64_round_bits [where k = 57 and q = 6203708486702858] round_shift_def)
  have paid: "f64_mult (Fin 6203708486702858 (- 50)) (f64_int 100) = Fin 4846647255236608 (- 43)"
    using bits_eq [of 59 620370848670285800] bits_eq [of 52 4846647255236608]
    by (simp add: f64_mult_def f64_int_def f64_round_bits [where k = 60 and q = 4846647255236608] round_shift_def)
  show ?thesis
    by (simp add: stake payout_units_def won paid f64_to_u64_def f64_trunc_def)
qed

end
