(* ===== verification/Rgs_Api.thy ===== *)
theory Rgs_Api
  imports Http Manager_Money
begin

text \<open>
  The operator's HTTP surface (server/rgs/api.go): the decoding of request bodies, one handler
  per route, the mapping of errors to status codes, and the mux.  A handler works on the
  manager and on the number of rounds started in the background.
\<close>

section \<open>Request bodies\<close>

text \<open>
  What \<open>encoding/json\<close> scans from a body (the scanner itself is a parameter); a number keeps
  its literal.  \<open>Decode\<close> into a struct matches keys exactly or else up to case, skips
  \<open>null\<close>, and with \<open>DisallowUnknownFields\<close> refuses any other key.
\<close>

datatype json = JNull | JBool bool | JNum string | JStr string | JArr "json list" | JObj "(string \<times> json) list"

type_synonym 'a field = "string \<times> (json \<Rightarrow> 'a \<Rightarrow> gerr + 'a)"

definition find_field :: "'a field list \<Rightarrow> string \<Rightarrow> 'a field option" where
  "find_field fs k =
     (case List.find (\<lambda>f. fst f = k) fs of
        Some f \<Rightarrow> Some f
      | None \<Rightarrow> List.find (\<lambda>f. equal_fold (fst f) k) fs)"

fun decode_members :: "'a field list \<Rightarrow> (string \<times> json) list \<Rightarrow> 'a \<Rightarrow> gerr + 'a" where
  "decode_members fs [] a = Inr a"
| "decode_members fs ((k, v) # ms) a =
     (case find_field fs k of
        None \<Rightarrow> Inl (Errorf ''json: unknown field'')
      | Some f \<Rightarrow> (case snd f v a of Inl e \<Rightarrow> Inl e | Inr a' \<Rightarrow> decode_members fs ms a'))"

definition decode_struct :: "'a field list \<Rightarrow> 'a \<Rightarrow> json \<Rightarrow> gerr + 'a" where
  "decode_struct fs a j =
     (case j of
        JNull \<Rightarrow> Inr a
      | JObj ms \<Rightarrow> decode_members fs ms a
      | _ \<Rightarrow> Inl (Errorf ''json: cannot unmarshal''))"

definition string_field :: "string \<Rightarrow> (string \<Rightarrow> 'a \<Rightarrow> 'a) \<Rightarrow> 'a field" where
  "string_field k upd = (k, \<lambda>j a. case j of JNull \<Rightarrow> Inr a | JStr s \<Rightarrow> Inr (upd s a)
     | _ \<Rightarrow> Inl (Errorf ''json: cannot unmarshal''))"

definition number_field :: "(string \<Rightarrow> gerr + 'n) \<Rightarrow> string \<Rightarrow> ('n \<Rightarrow> 'a \<Rightarrow> 'a) \<Rightarrow> 'a field" where
  "number_field parse k upd = (k, \<lambda>j a. case j of JNull \<Rightarrow> Inr a
     | JNum lit \<Rightarrow> (case parse lit of Inl e \<Rightarrow> Inl e | Inr n \<Rightarrow> Inr (upd n a))
     | _ \<Rightarrow> Inl (Errorf ''json: cannot unmarshal''))"

record place_round_bet_request =
  pq_PlayerID :: string
  pq_MarbleIdx :: int
  pq_Amount :: f64

section \<open>Response bodies\<close>

record bet_response =
  br_BetID :: string
  br_Amount :: u64
  br_PlacedAt :: gtime
  br_MarbleIndex :: int

record settlement_response =
  ss_BetID :: string
  ss_Won :: bool
  ss_Amount :: u64
  ss_PrizeAmount :: u64
  ss_WinnerIndex :: int
  ss_CreditTxID :: string
  ss_SettledAt :: gtime

record session_response =
  sn_SessionID :: string
  sn_PlayerID :: string
  sn_State :: string
  sn_Balance :: u64
  sn_OpenedAt :: gtime
  sn_UpdatedAt :: gtime
  sn_Bet :: "bet_response option"
  sn_LastResult :: "settlement_response option"

record place_round_bet_response =
  pp_BetID :: string
  pp_RoundID :: u64
  pp_MarbleIdx :: int
  pp_Amount :: f64
  pp_BalanceAfter :: f64
  pp_ExpectedPayoutIfWin :: f64

record round_bet_response =
  rr_BetID :: string
  rr_PlayerID :: string
  rr_RoundID :: u64
  rr_MarbleIdx :: int
  rr_Amount :: f64
  rr_PlacedAt :: gtime

record run_response =
  ru_RoundID :: u64
  ru_TrackID :: u8
  ru_WinnerMarble :: int
  ru_WinnerTick :: int
  ru_Outcomes :: "settlement_response list"
  ru_RoundBetOutcomes :: "round_bet_outcome list"

datatype rgs_doc =
    ErrorDoc gerr | SessionDoc session_response | EmptyDoc | RunDoc run_response | StatusDoc string
  | SpecDoc round_spec | RoundBetDoc place_round_bet_response | RoundBetsDoc "round_bet_response list"
  | BalanceDoc string f64 | HealthDoc gtime

definition writeError :: "int \<Rightarrow> gerr \<Rightarrow> rgs_doc wop list" where
  "writeError code e = writeJSON code (ErrorDoc e)"

definition bet_error_status :: "gerr \<Rightarrow> int" where
  "bet_error_status e =
     (if errors_is e (WalletErr ErrInsufficientFunds) then 402
      else if errors_is e (WalletErr ErrUnknownPlayer) then 404
      else if errors_is e (SessionErr ErrWrongState) \<or> errors_is e (SessionErr ErrBetExists) \<or>
              errors_is e (SessionErr ErrSessionClosed) then 409
      else 400)"

definition writeBetError :: "gerr \<Rightarrow> rgs_doc wop list" where
  "writeBetError e = writeError (bet_error_status e) e"

definition round_bet_error_status :: "gerr \<Rightarrow> int" where
  "round_bet_error_status e =
     (if errors_is e (SessionErr ErrUnknownRound) then 404
      else if errors_is e (SessionErr ErrRoundAlreadyRun) then 409
      else if errors_is e (SessionErr ErrInvalidMarbleIdx) \<or> errors_is e (SessionErr ErrInvalidBetAmount) then 400
      else if errors_is e (WalletErr ErrInsufficientFunds) then 402
      else if errors_is e (WalletErr ErrUnknownPlayer) then 404
      else 400)"

definition writeRoundBetError :: "gerr \<Rightarrow> rgs_doc wop list" where
  "writeRoundBetError e = writeError (round_bet_error_status e) e"

definition outcome_response :: "settlement_outcome \<Rightarrow> settlement_response" where
  "outcome_response o1 =
     \<lparr>ss_BetID = so_BetID o1, ss_Won = so_Won o1, ss_Amount = so_Amount o1, ss_PrizeAmount = so_PrizeAmount o1,
      ss_WinnerIndex = so_WinnerIndex o1, ss_CreditTxID = so_CreditTxID o1, ss_SettledAt = so_SettledAt o1\<rparr>"

definition outcomesToResponse :: "settlement_outcome list \<Rightarrow> settlement_response list" where
  "outcomesToResponse outs = map outcome_response outs"

definition session_response_of :: "'w mgr_config \<Rightarrow> 'w mgr \<Rightarrow> session \<Rightarrow> session_response" where
  "session_response_of cfg m s =
     \<lparr>sn_SessionID = ses_ID s, sn_PlayerID = ses_PlayerID s, sn_State = state_string (ses_State s),
      sn_Balance = (case w_Balance (cfg_Wallet cfg) (ses_PlayerID s) (mg_wallet m) of Inr bal \<Rightarrow> bal | Inl e \<Rightarrow> 0),
      sn_OpenedAt = ses_OpenedAt s, sn_UpdatedAt = ses_UpdatedAt s,
      sn_Bet = map_option (\<lambda>b. \<lparr>br_BetID = bet_BetID b, br_Amount = bet_Amount b, br_PlacedAt = bet_PlacedAt b,
         br_MarbleIndex = bet_MarbleIndex b\<rparr>) (ses_Bet s),
      sn_LastResult = map_option outcome_response (ses_LastResult s)\<rparr>"

definition writeSessionResponse :: "'w mgr_config \<Rightarrow> 'w mgr \<Rightarrow> session \<Rightarrow> int \<Rightarrow> rgs_doc wop list" where
  "writeSessionResponse cfg m s code = writeJSON code (SessionDoc (session_response_of cfg m s))"

section \<open>The handlers\<close>

text \<open>
  What a request brings along: the scanners of \<open>encoding/json\<close> and \<open>strconv.ParseFloat\<close>,
  random bytes, clock readings, the seed and id of a minted round, the environment of a run,
  and the answer of the mux to a path without route.
\<close>

record api_env =
  ae_parse :: "byte list \<Rightarrow> gerr + json"
  ae_float :: "string \<Rightarrow> gerr + f64"
  ae_rnd :: "byte list"
  ae_placed :: gtime
  ae_now :: gtime
  ae_seed :: "gerr + byte list"
  ae_roundID :: u64
  ae_run :: run_env
  ae_mux :: "http_request \<Rightarrow> rgs_doc wop list"

record 'w api_state =
  as_mgr :: "'w mgr"
  as_spawned :: nat

definition decodeJSON :: "api_env \<Rightarrow> 'a field list \<Rightarrow> 'a \<Rightarrow> http_request \<Rightarrow> gerr + 'a" where
  "decodeJSON env fs a r =
     (case rq_body r of
        Inl e \<Rightarrow> Inl (Wrapf ''decode body'' e)
      | Inr b \<Rightarrow>
     (case ae_parse env b of
        Inl e \<Rightarrow> Inl (Wrapf ''decode body'' e)
      | Inr j \<Rightarrow>
     (case decode_struct fs a j of
        Inl e \<Rightarrow> Inl (Wrapf ''decode body'' e)
      | Inr x \<Rightarrow> Inr x)))"

definition decode_open :: "api_env \<Rightarrow> http_request \<Rightarrow> gerr + string" where
  "decode_open env r = decodeJSON env [string_field ''player_id'' (\<lambda>s _. s)] [] r"

definition decode_bet :: "api_env \<Rightarrow> http_request \<Rightarrow> gerr + u64" where
  "decode_bet env r = decodeJSON env [number_field parse_uint ''amount'' (\<lambda>n _. n)] 0 r"

definition decode_round_bet :: "api_env \<Rightarrow> http_request \<Rightarrow> gerr + place_round_bet_request" where
  "decode_round_bet env r =
     decodeJSON env [string_field ''player_id'' (\<lambda>s q. q\<lparr>pq_PlayerID := s\<rparr>),
                     number_field parse_int64 ''marble_idx'' (\<lambda>n q. q\<lparr>pq_MarbleIdx := n\<rparr>),
                     number_field (ae_float env) ''amount'' (\<lambda>x q. q\<lparr>pq_Amount := x\<rparr>)]
       \<lparr>pq_PlayerID = [], pq_MarbleIdx = 0, pq_Amount = Fin 0 0\<rparr> r"

definition parseRoundID :: "string \<Rightarrow> gerr + u64" where
  "parseRoundID s = (case parse_uint (TrimSpace s) of Inl e \<Rightarrow> Inl (Wrapf ''invalid round_id'' e) | Inr v \<Rightarrow> Inr v)"

definition ParseAmount :: "string \<Rightarrow> gerr + u64" where
  "ParseAmount s = (case parse_uint (TrimSpace s) of Inl e \<Rightarrow> Inl (Wrapf ''parse amount'' e) | Inr v \<Rightarrow> Inr v)"

type_synonym 'w api_result = "rgs_doc wop list \<times> string option \<times> 'w api_state"

definition api_openSession :: "'w mgr_config \<Rightarrow> api_env \<Rightarrow> http_request \<Rightarrow> 'w api_state \<Rightarrow> 'w api_result" where
  "api_openSession cfg env r st =
     (case decode_open env r of
        Inl e \<Rightarrow> (writeError 400 e, None, st)
      | Inr playerID \<Rightarrow>
     (case OpenSession (ae_rnd env) (ae_now env) playerID (as_mgr st) of
        (Inl e, m) \<Rightarrow> (writeError 400 e, None, st\<lparr>as_mgr := m\<rparr>)
      | (Inr p, m) \<Rightarrow> (writeSessionResponse cfg m (mg_heap m p) 201, None, st\<lparr>as_mgr := m\<rparr>)))"

definition api_placeBet :: "'w mgr_config \<Rightarrow> api_env \<Rightarrow> string \<Rightarrow> http_request \<Rightarrow> 'w api_state \<Rightarrow> 'w api_result" where
  "api_placeBet cfg env sid r st =
     (case decode_bet env r of
        Inl e \<Rightarrow> (writeError 400 e, None, st)
      | Inr amount \<Rightarrow>
     (case PlaceBet cfg (ae_rnd env) (ae_placed env) (ae_now env) sid amount (as_mgr st) of
        (Inl e, m) \<Rightarrow> (writeBetError e, None, st\<lparr>as_mgr := m\<rparr>)
      | (Inr b, m) \<Rightarrow>
     (case lookup_session sid m of
        None \<Rightarrow> (writeError 404 (Errorf ''session disappeared after bet''), None, st\<lparr>as_mgr := m\<rparr>)
      | Some p \<Rightarrow> (writeSessionResponse cfg m (mg_heap m p) 200, None, st\<lparr>as_mgr := m\<rparr>))))"

definition api_closeSession :: "'w mgr_config \<Rightarrow> api_env \<Rightarrow> string \<Rightarrow> http_request \<Rightarrow> 'w api_state \<Rightarrow> 'w api_result" where
  "api_closeSession cfg env sid r st =
     (case CloseSession (ae_now env) sid (as_mgr st) of
        (Some e, m) \<Rightarrow> (writeError 400 e, None, st\<lparr>as_mgr := m\<rparr>)
      | (None, m) \<Rightarrow>
     (case lookup_session sid m of
        None \<Rightarrow> (writeJSON 200 EmptyDoc, None, st\<lparr>as_mgr := m\<rparr>)
      | Some p \<Rightarrow> (writeSessionResponse cfg m (mg_heap m p) 200, None, st\<lparr>as_mgr := m\<rparr>)))"

definition api_getSession :: "'w mgr_config \<Rightarrow> string \<Rightarrow> 'w api_state \<Rightarrow> 'w api_result" where
  "api_getSession cfg sid st =
     (case lookup_session sid (as_mgr st) of
        None \<Rightarrow> (writeError 404 (Errorf ''unknown session''), None, st)
      | Some p \<Rightarrow> (writeSessionResponse cfg (as_mgr st) (mg_heap (as_mgr st) p) 200, None, st))"

text \<open>
  With \<open>wait\<close> the round runs in the handler; otherwise a goroutine is started, which runs at
  some later time and whose error is dropped.
\<close>

definition api_runRound :: "'w mgr_config \<Rightarrow> api_env \<Rightarrow> http_request \<Rightarrow> 'w api_state \<Rightarrow> 'w api_result" where
  "api_runRound cfg env r st =
     (let wait = rq_query r ''wait'' in
      if wait = ''true'' \<or> wait = ''1'' then
        (case RunNextRound cfg (ae_run env) (as_mgr st) of
           None \<Rightarrow> ([], Some ''runtime error'', st)
         | Some (Inl e, m) \<Rightarrow> (writeError 500 e, None, st\<lparr>as_mgr := m\<rparr>)
         | Some (Inr (mf, outs, rbs), m) \<Rightarrow>
             (writeJSON 200 (RunDoc \<lparr>ru_RoundID = mf_RoundID mf, ru_TrackID = mf_TrackID mf,
                ru_WinnerMarble = mw_MarbleIndex (mf_Winner mf), ru_WinnerTick = mw_FinishTick (mf_Winner mf),
                ru_Outcomes = outcomesToResponse outs, ru_RoundBetOutcomes = rbs\<rparr>), None, st\<lparr>as_mgr := m\<rparr>))
      else (writeJSON 202 (StatusDoc ''round_started''), None, st\<lparr>as_spawned := Suc (as_spawned st)\<rparr>))"

definition background_run :: "'w mgr_config \<Rightarrow> run_env \<Rightarrow> 'w api_state \<Rightarrow> 'w api_state option" where
  "background_run cfg env st =
     (if as_spawned st = 0 then None
      else (case RunNextRound cfg env (as_mgr st) of
          None \<Rightarrow> None
        | Some (res, m) \<Rightarrow> Some (st\<lparr>as_mgr := m, as_spawned := as_spawned st - 1\<rparr>)))"

definition api_startRound :: "'w mgr_config \<Rightarrow> api_env \<Rightarrow> 'w api_state \<Rightarrow> 'w api_result" where
  "api_startRound cfg env st =
     (case GenerateRoundSpec cfg (ae_seed env) (ae_roundID env) (as_mgr st) of
        None \<Rightarrow> ([], Some ''runtime error'', st)
      | Some (Inl e, m) \<Rightarrow> (writeError 500 e, None, st\<lparr>as_mgr := m\<rparr>)
      | Some (Inr spec, m) \<Rightarrow> (writeJSON 200 (SpecDoc spec), None, st\<lparr>as_mgr := m\<rparr>))"

definition api_placeRoundBet :: "'w mgr_config \<Rightarrow> api_env \<Rightarrow> string \<Rightarrow> http_request \<Rightarrow> 'w api_state \<Rightarrow> 'w api_result" where
  "api_placeRoundBet cfg env rid r st =
     (case parseRoundID rid of
        Inl e \<Rightarrow> (writeError 400 e, None, st)
      | Inr roundID \<Rightarrow>
     (case decode_round_bet env r of
        Inl e \<Rightarrow> (writeError 400 e, None, st)
      | Inr req \<Rightarrow>
          if pq_PlayerID req = [] then (writeError 400 (Errorf ''player_id is required''), None, st)
          else
     (case PlaceBetOnRound cfg (ae_rnd env) (ae_now env) id roundID (pq_PlayerID req) (pq_MarbleIdx req)
             (pq_Amount req) (as_mgr st) of
        (Inl e, m) \<Rightarrow> (writeRoundBetError e, None, st\<lparr>as_mgr := m\<rparr>)
      | (Inr (b, balAfter), m) \<Rightarrow>
          (writeJSON 200 (RoundBetDoc \<lparr>pp_BetID = rb_BetID b, pp_RoundID = rb_RoundID b,
             pp_MarbleIdx = rb_MarbleIdx b, pp_Amount = rb_Amount b, pp_BalanceAfter = balAfter,
             pp_ExpectedPayoutIfWin = f64_mult (rb_Amount b) PayoutMultiplier\<rparr>), None, st\<lparr>as_mgr := m\<rparr>))))"

definition api_getRoundBets :: "string \<Rightarrow> http_request \<Rightarrow> 'w api_state \<Rightarrow> 'w api_result" where
  "api_getRoundBets rid r st =
     (case parseRoundID rid of
        Inl e \<Rightarrow> (writeError 400 e, None, st)
      | Inr roundID \<Rightarrow>
     (case BetsForRound roundID (rq_query r ''player_id'') (as_mgr st) of
        Inl e \<Rightarrow> (if errors_is e (SessionErr ErrUnknownRound) then writeError 404 e else writeError 500 e, None, st)
      | Inr bets \<Rightarrow>
          (writeJSON 200 (RoundBetsDoc (map (\<lambda>b. \<lparr>rr_BetID = rb_BetID b, rr_PlayerID = rb_PlayerID b,
             rr_RoundID = rb_RoundID b, rr_MarbleIdx = rb_MarbleIdx b, rr_Amount = rb_Amount b,
             rr_PlacedAt = rb_PlacedAt b\<rparr>) bets)), None, st)))"

definition api_walletBalance :: "'w mgr_config \<Rightarrow> string \<Rightarrow> 'w api_state \<Rightarrow> 'w api_result" where
  "api_walletBalance cfg playerID st =
     (case w_Balance (cfg_Wallet cfg) playerID (mg_wallet (as_mgr st)) of
        Inl e \<Rightarrow> (if errors_is e (WalletErr ErrUnknownPlayer) then writeError 404 e else writeError 500 e, None, st)
      | Inr bal \<Rightarrow> (writeJSON 200 (BalanceDoc playerID (f64_div100 (f64_of_u64 bal))), None, st))"

definition api_health :: "api_env \<Rightarrow> 'w api_state \<Rightarrow> 'w api_result" where
  "api_health env st = (writeJSON 200 (HealthDoc (ae_now env)), None, st)"

section \<open>The mux\<close>

datatype pattern_seg = Lit string | Wild

datatype api_route =
    OpenSessionRoute | PlaceBetRoute | CloseSessionRoute | GetSessionRoute | RunRoundRoute | StartRoundRoute
  | PlaceRoundBetRoute | GetRoundBetsRoute | WalletBalanceRoute | HealthRoute

definition Routes :: "(string \<times> pattern_seg list \<times> api_route) list" where
  "Routes =
     [(''POST'', [Lit ''v1'', Lit ''sessions''], OpenSessionRoute),
      (''POST'', [Lit ''v1'', Lit ''sessions'', Wild, Lit ''bet''], PlaceBetRoute),
      (''POST'', [Lit ''v1'', Lit ''sessions'', Wild, Lit ''close''], CloseSessionRoute),
      (''GET'', [Lit ''v1'', Lit ''sessions'', Wild], GetSessionRoute),
      (''POST'', [Lit ''v1'', Lit ''rounds'', Lit ''run''], RunRoundRoute),
      (''POST'', [Lit ''v1'', Lit ''rounds'', Lit ''start''], StartRoundRoute),
      (''POST'', [Lit ''v1'', Lit ''rounds'', Wild, Lit ''bets''], PlaceRoundBetRoute),
      (''GET'', [Lit ''v1'', Lit ''rounds'', Wild, Lit ''bets''], GetRoundBetsRoute),
      (''GET'', [Lit ''v1'', Lit ''wallets'', Wild, Lit ''balance''], WalletBalanceRoute),
      (''GET'', [Lit ''v1'', Lit ''health''], HealthRoute)]"

text \<open>
  The segments of a path after its leading slash; a wildcard takes one non-empty segment.  The
  mux cleans the path first and redirects when that changes it, so dot segments match nothing.
\<close>

fun match_segs :: "pattern_seg list \<Rightarrow> string list \<Rightarrow> string list option" where
  "match_segs [] [] = Some []"
| "match_segs (Lit l # ps) (s # ss) = (if s = l then match_segs ps ss else None)"
| "match_segs (Wild # ps) (s # ss) = (if s \<in> {[], ''.'', ''..''} then None else map_option (Cons s) (match_segs ps ss))"
| "match_segs _ _ = None"

definition method_matches :: "string \<Rightarrow> string \<Rightarrow> bool" where
  "method_matches pat m = (m = pat \<or> pat = ''GET'' \<and> m = ''HEAD'')"

definition find_route :: "string \<Rightarrow> string \<Rightarrow> (api_route \<times> string) option" where
  "find_route method path =
     (case path of
        CHR ''/'' # rest \<Rightarrow>
          (case List.find (\<lambda>(m, pat, rt). method_matches m method \<and> match_segs pat (split_at_char CHR ''/'' rest) \<noteq> None) Routes of
             None \<Rightarrow> None
           | Some (m, pat, rt) \<Rightarrow>
               Some (rt, case match_segs pat (split_at_char CHR ''/'' rest) of Some (v # vs) \<Rightarrow> v | _ \<Rightarrow> []))
      | _ \<Rightarrow> None)"

definition rgs_api :: "'w mgr_config \<Rightarrow> api_env \<Rightarrow> ('w api_state, rgs_doc) handler" where
  "rgs_api cfg env r st =
     (case find_route (rq_method r) (rq_path r) of
        None \<Rightarrow> (ae_mux env r, None, st)
      | Some (OpenSessionRoute, v) \<Rightarrow> api_openSession cfg env r st
      | Some (PlaceBetRoute, v) \<Rightarrow> api_placeBet cfg env v r st
      | Some (CloseSessionRoute, v) \<Rightarrow> api_closeSession cfg env v r st
      | Some (GetSessionRoute, v) \<Rightarrow> api_getSession cfg v st
      | Some (RunRoundRoute, v) \<Rightarrow> api_runRound cfg env r st
      | Some (StartRoundRoute, v) \<Rightarrow> api_startRound cfg env st
      | Some (PlaceRoundBetRoute, v) \<Rightarrow> api_placeRoundBet cfg env v r st
      | Some (GetRoundBetsRoute, v) \<Rightarrow> api_getRoundBets v r st
      | Some (WalletBalanceRoute, v) \<Rightarrow> api_walletBalance cfg v st
      | Some (HealthRoute, v) \<Rightarrow> api_health env st)"

section \<open>The surface over time\<close>

text \<open>A request served, or a round started in the background running to its end.\<close>

datatype api_event = Serve api_env http_request | Background run_env

fun api_step :: "'w mgr_config \<Rightarrow> 'w api_state \<Rightarrow> api_event \<Rightarrow> 'w api_state \<Rightarrow> bool" where
  "api_step cfg st (Serve env r) st' \<longleftrightarrow>
     seed_ok (ae_seed env) \<and> seed_ok (re_seed (ae_run env)) \<and> (\<exists>ops p. rgs_api cfg env r st = (ops, p, st'))"
| "api_step cfg st (Background env) st' \<longleftrightarrow> seed_ok (re_seed env) \<and> background_run cfg env st = Some st'"

definition api_init :: "'w api_state \<Rightarrow> bool" where
  "api_init st \<longleftrightarrow> fresh_mgr (as_mgr st) \<and> as_spawned st = 0"

text \<open>A request makes at most one call of the manager that changes it.\<close>

definition mgr_move :: "'w mgr_config \<Rightarrow> 'w mgr \<Rightarrow> 'w mgr \<Rightarrow> bool" where
  "mgr_move cfg m m' \<longleftrightarrow> m' = m \<or> (\<exists>ev. mgr_step cfg m ev m')"

lemma mgr_moveI:
  "mgr_move cfg m m"
  "mgr_move cfg m (snd (OpenSession rnd now pl m))"
  "mgr_move cfg m (snd (PlaceBet cfg rnd t now sid a m))"
  "mgr_move cfg m (snd (CloseSession now sid m))"
  "mgr_move cfg m (snd (PlaceBetOnRound cfg rnd now id rid pl i f m))"
proof -
  have step: "mgr_move cfg m m'" if "mgr_step cfg m ev m'" for ev m' using that by (auto simp: mgr_move_def)
  show "mgr_move cfg m m" by (simp add: mgr_move_def)
  show "mgr_move cfg m (snd (OpenSession rnd now pl m))"
    by (rule step [where ev = "EvOpen rnd now pl"]) (simp add: mgr_step_def)
  show "mgr_move cfg m (snd (PlaceBet cfg rnd t now sid a m))"
    by (rule step [where ev = "EvBet rnd t now sid a"]) (simp add: mgr_step_def)
  show "mgr_move cfg m (snd (CloseSession now sid m))"
    by (rule step [where ev = "EvCloseSession now sid"]) (simp add: mgr_step_def)
  show "mgr_move cfg m (snd (PlaceBetOnRound cfg rnd now id rid pl i f m))"
    by (rule step [where ev = "EvRoundBet rnd now rid pl i f"]) (simp add: mgr_step_def)
qed

lemma mgr_moveI_mint:
  "GenerateRoundSpec cfg sd rid m = Some (res, m') \<Longrightarrow> seed_ok sd \<Longrightarrow> mgr_move cfg m m'"
  unfolding mgr_move_def by (rule disjI2, rule exI [of _ "EvMint sd rid"]) (simp add: mgr_step_def)

lemma mgr_moveI_run:
  "RunNextRound cfg env m = Some (res, m') \<Longrightarrow> seed_ok (re_seed env) \<Longrightarrow> mgr_move cfg m m'"
  unfolding mgr_move_def by (rule disjI2, rule exI [of _ "EvRun env"]) (simp add: mgr_step_def)

lemma api_parts_move:
  "mgr_move cfg (as_mgr st) (as_mgr (snd (snd (api_openSession cfg env r st))))"
  "mgr_move cfg (as_mgr st) (as_mgr (snd (snd (api_placeBet cfg env sid r st))))"
  "mgr_move cfg (as_mgr st) (as_mgr (snd (snd (api_closeSession cfg env sid r st))))"
  "mgr_move cfg (as_mgr st) (as_mgr (snd (snd (api_getSession cfg sid st))))"
  "mgr_move cfg (as_mgr st) (as_mgr (snd (snd (api_placeRoundBet cfg env rid r st))))"
  "mgr_move cfg (as_mgr st) (as_mgr (snd (snd (api_getRoundBets rid r st))))"
  "mgr_move cfg (as_mgr st) (as_mgr (snd (snd (api_walletBalance cfg pl st))))"
  "mgr_move cfg (as_mgr st) (as_mgr (snd (snd (api_health env st))))"
proof goal_cases
  case 1
  show ?case
    using mgr_moveI(2) [of cfg "as_mgr st" "ae_rnd env" "ae_now env"]
    by (auto simp: api_openSession_def mgr_moveI(1) split: sum.split prod.split)
       (metis snd_conv)+
next
  case 2
  show ?case
    using mgr_moveI(3) [of cfg "as_mgr st" "ae_rnd env" "ae_placed env" "ae_now env" sid]
    by (auto simp: api_placeBet_def mgr_moveI(1) split: sum.split prod.split option.split) (metis snd_conv)+
next
  case 3
  show ?case
    using mgr_moveI(4) [of cfg "as_mgr st" "ae_now env" sid]
    by (auto simp: api_closeSession_def mgr_moveI(1) split: prod.split option.split)
next
  case 5
  show ?case
    using mgr_moveI(5) [of cfg "as_mgr st" "ae_rnd env" "ae_now env"]
    by (auto simp: api_placeRoundBet_def mgr_moveI(1) split: sum.split prod.split) (metis snd_conv)+
qed (auto simp: api_getSession_def api_getRoundBets_def api_walletBalance_def api_health_def mgr_moveI(1)
      split: sum.split option.split)

lemma api_runs_move:
  assumes "seed_ok (ae_seed env)" and "seed_ok (re_seed (ae_run env))"
  shows "mgr_move cfg (as_mgr st) (as_mgr (snd (snd (api_runRound cfg env r st))))"
    and "mgr_move cfg (as_mgr st) (as_mgr (snd (snd (api_startRound cfg env st))))"
  using mgr_moveI_run [of cfg "ae_run env" "as_mgr st"] mgr_moveI_mint [of cfg "ae_seed env" "ae_roundID env" "as_mgr st"] assms
  by (auto simp: api_runRound_def api_startRound_def Let_def mgr_moveI(1) split: option.split sum.split)

lemma rgs_api_move:
  assumes "seed_ok (ae_seed env)" and "seed_ok (re_seed (ae_run env))"
  shows "mgr_move cfg (as_mgr st) (as_mgr (snd (snd (rgs_api cfg env r st))))"
proof (cases "find_route (rq_method r) (rq_path r)")
  case None
  then show ?thesis by (simp add: rgs_api_def mgr_moveI(1))
next
  case (Some rv)
  obtain rt v where rv: "rv = (rt, v)" by (cases rv)
  show ?thesis
    using Some rv by (cases rt) (simp_all add: rgs_api_def api_parts_move api_runs_move [OF assms])
qed

lemma api_step_move:
  assumes "api_step cfg st ev st'"
  shows "mgr_move cfg (as_mgr st) (as_mgr st')"
proof (cases ev)
  case (Serve env r)
  with assms rgs_api_move [of env cfg st r] show ?thesis by auto
next
  case (Background env)
  with assms mgr_moveI_run [of cfg env "as_mgr st"] show ?thesis
    by (auto simp: background_run_def split: if_splits option.splits)
qed

interpretation api: invariant_system api_init "api_step cfg" "\<lambda>st. reach fresh_mgr (mgr_step cfg) (as_mgr st)"
  for cfg :: "'w mgr_config"
proof (unfold_locales, goal_cases)
  case (1 st)
  then show ?case by (auto simp: api_init_def intro: reach_init)
next
  case (2 st ev st')
  then show ?case using api_step_move [of cfg st ev st'] by (auto simp: mgr_move_def intro: reach_step)
qed

lemma rgs_api_no_panic:
  assumes inv: "mgr_inv cfg (as_mgr st)" "cfg_ok cfg" "seed_ok (ae_seed env)" "seed_ok (re_seed (ae_run env))"
  shows "fst (snd (rgs_api cfg env r st)) = None"
proof -
  have mint: "GenerateRoundSpec cfg (ae_seed env) (ae_roundID env) (as_mgr st) \<noteq> None"
    using mgr_apply_total [OF inv(1,2), of "EvMint (ae_seed env) (ae_roundID env)"] inv(3) by auto
  have run: "RunNextRound cfg (ae_run env) (as_mgr st) \<noteq> None"
    using mgr_apply_total [OF inv(1,2), of "EvRun (ae_run env)"] inv(4) by auto
  show ?thesis
  proof (cases "find_route (rq_method r) (rq_path r)")
    case None
    then show ?thesis by (simp add: rgs_api_def)
  next
    case (Some rv)
    obtain rt v where rv: "rv = (rt, v)" by (cases rv)
    show ?thesis
      using Some rv mint run
      by (cases rt) (auto simp: rgs_api_def api_openSession_def api_placeBet_def api_closeSession_def api_getSession_def
          api_runRound_def api_startRound_def api_placeRoundBet_def api_getRoundBets_def api_walletBalance_def
          api_health_def Let_def split: sum.split prod.split option.split)
  qed
qed

section \<open>Properties\<close>

text \<open>
  With requests one at a time the HTTP surface adds no behaviour of its own: after any sequence of
  requests and background rounds the manager is in a state that its own calls reach, so all that is
  proved of the manager holds behind HTTP, and no request panics.
\<close>

theorem api_refines_manager:
  assumes "reach api_init (api_step cfg) st" and "cfg_ok cfg"
  shows "reach fresh_mgr (mgr_step cfg) (as_mgr st) \<and>
    (\<forall>env r. seed_ok (ae_seed env) \<and> seed_ok (re_seed (ae_run env)) \<longrightarrow> fst (snd (rgs_api cfg env r st)) = None)"
  using api.reach_inv [OF assms(1)] mgr.reach_inv [OF api.reach_inv [OF assms(1)]] rgs_api_no_panic assms(2) by blast

lemma errors_is_unique: "errors_is e s \<Longrightarrow> errors_is e t \<Longrightarrow> s = t"
  by (induction e s rule: errors_is.induct) auto

lemma client_status_writeError [simp]: "code \<noteq> 0 \<Longrightarrow> client_status (writeError code e) = code"
  by (simp add: writeError_def)

lemma bet_error_status_nonzero [simp]: "bet_error_status e \<noteq> 0"
  by (simp add: bet_error_status_def)

lemma round_bet_error_status_nonzero [simp]: "round_bet_error_status e \<noteq> 0"
  by (simp add: round_bet_error_status_def)

lemma bet_error_status_wrap [err_simps]:
  "bet_error_status (Wrapf msg e) = bet_error_status e"
  "errors_is e (WalletErr ErrInsufficientFunds) \<Longrightarrow> bet_error_status e = 402"
  "errors_is e (WalletErr ErrUnknownPlayer) \<Longrightarrow> bet_error_status e = 404"
  using errors_is_unique [of e "WalletErr ErrUnknownPlayer" "WalletErr ErrInsufficientFunds"]
  by (auto simp: bet_error_status_def)

text \<open>The answers of a wallet to a debit under a new id.\<close>

context wallet_contract
begin

lemma debit_answers:
  assumes "tx \<notin> posted w"
  obtains (unknown) e w' where "bal w p = None" "w_Debit W p a tx w = (Some e, w')" "errors_is e (WalletErr ErrUnknownPlayer)"
  | (short) v e w' where "bal w p = Some v" "v < unat a" "w_Debit W p a tx w = (Some e, w')"
      "errors_is e (WalletErr ErrInsufficientFunds)"
  | (taken) v w' where "bal w p = Some v" "unat a \<le> v" "w_Debit W p a tx w = (None, w')"
proof (cases "bal w p")
  case None
  with debit_unknown [OF None, of a tx] unknown show ?thesis by blast
next
  case (Some v)
  show ?thesis
  proof (cases "v < unat a")
    case True
    with debit_short [OF Some assms True] Some short show ?thesis by blast
  next
    case False
    with debit_ok [OF Some assms, of a] Some taken show ?thesis by auto
  qed
qed

end

text \<open>What the client of \<open>POST /v1/sessions/{id}/bet\<close> is told.\<close>

definition bet_status :: "(string \<Rightarrow> nat option) \<Rightarrow> 'w mgr \<Rightarrow> string \<Rightarrow> u64 \<Rightarrow> int" where
  "bet_status balance m sid a =
     (case mg_sessions m sid of
        None \<Rightarrow> 400
      | Some p \<Rightarrow>
          if a = 0 then 400
          else (case balance (ses_PlayerID (mg_heap m p)) of
              None \<Rightarrow> 404
            | Some v \<Rightarrow> if v < unat a then 402
                        else if ses_State (mg_heap m p) \<in> {SessionOpen, SessionSettled} then 200 else 409))"

text \<open>The error of the manager's call, as the status \<open>writeBetError\<close> gives it.\<close>

lemma PlaceBet_status:
  assumes "wallet_contract (cfg_Wallet cfg) bal posted" and "mgr_inv cfg m"
    and fresh: "newID ''bet_'' rnd \<notin> posted (mg_wallet m)"
  shows "bet_status (bal (mg_wallet m)) m sid a =
    (case fst (PlaceBet cfg rnd t now sid a m) of Inl e \<Rightarrow> bet_error_status e | Inr b \<Rightarrow> 200)"
proof (cases "mg_sessions m sid = None \<or> a = 0")
  case True
  then show ?thesis
    by (cases "mg_sessions m sid") (auto simp: PlaceBet_def bet_status_def bet_error_status_def)
next
  case False
  then obtain p where sid: "mg_sessions m sid = Some p" and pos: "a \<noteq> 0" by auto
  let ?s = "mg_heap m p"
  define b where "b = \<lparr>bet_BetID = newID ''bet_'' rnd, bet_Amount = a, bet_PlayerID = ses_PlayerID ?s,
    bet_PlacedAt = t, bet_MarbleIndex = 0\<rparr>"
  note run = sid pos PlaceBet_def Let_def bet_status_def b_def [symmetric] err_simps
  show ?thesis
  proof (rule wallet_contract.debit_answers [OF assms(1) fresh, of "ses_PlayerID ?s" a], goal_cases)
    case (3 v w)
    show ?case
    proof (cases "ses_State ?s \<in> {SessionOpen, SessionSettled}")
      case True
      moreover have "session_inv ?s" using assms(2) sid by (auto simp: mgr_inv_def heap_ok_def table_ok_def)
      ultimately obtain s1 where "session_place_bet now b ?s = (None, s1)"
        by (auto simp: session_place_bet_def session_inv_def)
      with 3 True show ?thesis by (simp add: run)
    next
      case False
      then obtain e where e: "session_place_bet now b ?s = (Some e, ?s)"
          "errors_is e (SessionErr ErrWrongState) \<or> errors_is e (SessionErr ErrSessionClosed)"
        by (cases "ses_State ?s = SessionClosed") (auto simp: session_place_bet_def)
      then have "bet_error_status e = 409" using errors_is_unique by (auto simp: bet_error_status_def)
      with 3 False e show ?thesis by (simp add: run)
    qed
  qed (simp_all add: run)
qed

text \<open>
  C33: the status of a bet request, completely: 400 for a body that does not decode, for an
  unknown session and for a zero amount; 404 for a player the wallet does not know; 402 when
  the balance is short, whatever the state of the session; 409 when the session is in no
  state to bet; 200 otherwise, and never anything else.
\<close>

theorem bet_request_status:
  assumes "wallet_contract (cfg_Wallet cfg) bal posted" and "mgr_inv cfg (as_mgr st)"
    and "ids_fresh (posted (mg_wallet (as_mgr st))) (newID ''bet_'' (ae_rnd env))"
  shows "client_status (fst (api_placeBet cfg env sid r st)) =
    (case decode_bet env r of Inl e \<Rightarrow> 400 | Inr a \<Rightarrow> bet_status (bal (mg_wallet (as_mgr st))) (as_mgr st) sid a)"
proof (cases "decode_bet env r")
  case (Inl e)
  then show ?thesis by (simp add: api_placeBet_def)
next
  case dec: (Inr a)
  let ?call = "PlaceBet cfg (ae_rnd env) (ae_placed env) (ae_now env) sid a (as_mgr st)"
  have status: "bet_status (bal (mg_wallet (as_mgr st))) (as_mgr st) sid a =
      (case fst ?call of Inl e \<Rightarrow> bet_error_status e | Inr b \<Rightarrow> 200)"
    using PlaceBet_status [OF assms(1,2)] assms(3) by (simp add: ids_fresh_def)
  show ?thesis
  proof (rule PlaceBet_cases [of cfg "ae_rnd env" "ae_placed env" "ae_now env" sid a "as_mgr st"], goal_cases)
    case (1 e w)
    with dec status show ?case by (simp add: api_placeBet_def writeBetError_def)
  next
    case (2 p b w s)
    with dec status show ?case by (simp add: api_placeBet_def lookup_session_def writeSessionResponse_def)
  qed
qed



lemma round_bet_error_status_simps [err_simps]:
  "round_bet_error_status (Wrapf msg e) = round_bet_error_status e"
  "round_bet_error_status (Sentinel (SessionErr ErrUnknownRound)) = 404"
  "round_bet_error_status (Sentinel (SessionErr ErrRoundAlreadyRun)) = 409"
  "round_bet_error_status (Sentinel (SessionErr ErrInvalidMarbleIdx)) = 400"
  "round_bet_error_status (Sentinel (SessionErr ErrInvalidBetAmount)) = 400"
  "errors_is e (WalletErr ErrInsufficientFunds) \<Longrightarrow> round_bet_error_status e = 402"
  "errors_is e (WalletErr ErrUnknownPlayer) \<Longrightarrow> round_bet_error_status e = 404"
  using errors_is_unique [of e] by (auto simp: round_bet_error_status_def dest: errors_is_unique)




section \<open>Witnesses\<close>

definition demo_body :: "byte list \<Rightarrow> gerr + json" where
  "demo_body b = (if b = [1] then Inr (JObj [(''amount'', JNum ''7'')])
     else Inr (JObj [(''player_id'', JStr ''alice''), (''marble_idx'', JNum ''1''), (''amount'', JNum ''3'')]))"

definition demo_api_env :: api_env where
  "demo_api_env = \<lparr>ae_parse = demo_body, ae_float = (\<lambda>_. Inr (f64_int 3)), ae_rnd = [4], ae_placed = 20, ae_now = 21,
     ae_seed = Inr (replicate 32 3), ae_roundID = 12, ae_run = demo_run_env, ae_mux = (\<lambda>_. [WriteStatus 404])\<rparr>"

definition demo_api :: "mock_wallet api_state" where
  "demo_api = \<lparr>as_mgr = demo_mgr, as_spawned = 0\<rparr>"

definition demo_request :: "byte list \<Rightarrow> http_request" where
  "demo_request b = \<lparr>rq_method = ''POST'', rq_path = ''/v1/rounds/start'', rq_header = (\<lambda>_. []), rq_query = (\<lambda>_. []),
     rq_body = Inr b, rq_ctx_id = []\<rparr>"

lemma demo_ids:
  "ids_fresh (mock_posted (mg_wallet demo_mgr)) (newID ''bet_'' [4])"
  "newID ''rbet_'' [4] \<notin> mock_posted (mg_wallet demo_mgr)"
  "mg_sessions demo_mgr (newID ''sess_'' [1]) = Some 0"
  by (simp_all add: demo_mgr_def demo_events_def demo_mgr0_def demo_cfg_def blank_mgr_def OpenSession_def
      PlaceBet_def Let_def MockWallet_def mock_debit_def SetBalance_def NewMockWallet_def mock_posted_def ids_fresh_def
      new_session_def session_place_bet_def GenerateRoundSpec_def mgr_select_track_def newID_def hex_digit_def)

lemma demo_decoded:
  "decode_bet demo_api_env (demo_request [1]) = Inr 7"
  "decode_round_bet demo_api_env (demo_request [2]) = Inr \<lparr>pq_PlayerID = ''alice'', pq_MarbleIdx = 1, pq_Amount = f64_int 3\<rparr>"
  by (simp_all add: decode_bet_def decode_round_bet_def decodeJSON_def demo_request_def demo_api_env_def demo_body_def
      decode_struct_def find_field_def number_field_def string_field_def equal_fold_def ascii_lower_def parse_uint_def
      parse_int64_def is_digit_def digit_val_def Let_def)

theorem bet_request_status_witness:
  "client_status (fst (api_placeBet demo_cfg demo_api_env (newID ''sess_'' [1]) (demo_request [1]) demo_api)) = 409"
  using bet_request_status [OF demo_contract, of demo_api demo_api_env "newID ''sess_'' [1]" "demo_request [1]"]
    demo_mgr_inv demo_ids demo_decoded demo_mgr_state demo_round_known(3) queue_waiting(2) [OF demo_mgr_inv]
  by (simp add: demo_api_def demo_api_env_def bet_status_def waiting_def)


definition demo_started :: "mock_wallet api_state" where
  "demo_started = snd (snd (rgs_api demo_cfg demo_api_env (demo_request []) \<lparr>as_mgr = demo_mgr0, as_spawned = 0\<rparr>))"

theorem api_refines_manager_witness:
  "reach fresh_mgr (mgr_step demo_cfg) (as_mgr demo_started) \<and>
   fst (snd (rgs_api demo_cfg demo_api_env (demo_request []) demo_started)) = None"
proof -
  have seeds: "seed_ok (ae_seed demo_api_env)" "seed_ok (re_seed (ae_run demo_api_env))"
    by (simp_all add: seed_ok_def demo_api_env_def demo_run_env_def)
  have "reach api_init (api_step demo_cfg) demo_started"
  proof (rule reach_step)
    show "reach api_init (api_step demo_cfg) \<lparr>as_mgr = demo_mgr0, as_spawned = 0\<rparr>"
      by (intro reach_init) (auto simp: api_init_def fresh_mgr_def demo_mgr0_def)
    show "api_step demo_cfg \<lparr>as_mgr = demo_mgr0, as_spawned = 0\<rparr> (Serve demo_api_env (demo_request [])) demo_started"
      using seeds by (simp add: demo_started_def) (metis prod.collapse)
  qed
  from api_refines_manager [OF this demo_cfg_ok] seeds show ?thesis by blast
qed

end
