(* ===== verification/Middleware.thy ===== *)
theory Middleware
  imports Http Sha256
begin

text \<open>
  Package \<open>middleware\<close> (server/middleware/middleware.go): request ids, access log, panic
  recovery and the signature check, as functions from handlers to handlers.  The log is part
  of the state; clock readings and random bytes are arguments.
\<close>

datatype log_entry =
    Access string string int int int string
  | PanicLine string string

type_synonym ('s, 'd) logged = "('s \<times> log_entry list, 'd) handler"

section \<open>Request ids\<close>

definition newRequestID :: "byte list \<Rightarrow> string" where
  "newRequestID b = ''req_'' @ hex_encode b"

definition RequestID :: "byte list \<Rightarrow> ('s, 'd) handler \<Rightarrow> ('s, 'd) handler" where
  "RequestID rnd nxt r s =
     (let h = rq_header r ''X-Request-ID''; rid = (if h = [] then newRequestID rnd else h) in
      case nxt (r\<lparr>rq_ctx_id := rid\<rparr>) s of
        (ops, p, s') \<Rightarrow> (SetHeader ''X-Request-ID'' rid # ops, p, s'))"

definition RequestIDFromContext :: "http_request \<Rightarrow> string" where
  "RequestIDFromContext r = rq_ctx_id r"

section \<open>The access log\<close>

text \<open>\<open>statusRecorder\<close>: every \<open>WriteHeader\<close> overwrites the recorded status.\<close>

record status_recorder =
  rec_status :: int
  rec_bytes :: int

definition chunk_len :: "('d \<Rightarrow> nat) \<Rightarrow> 'd chunk \<Rightarrow> int" where
  "chunk_len dlen c = (case c of Text t \<Rightarrow> int (length t) | Doc d \<Rightarrow> int (dlen d))"

fun recorder_op :: "('d \<Rightarrow> nat) \<Rightarrow> 'd wop \<Rightarrow> status_recorder \<Rightarrow> status_recorder" where
  "recorder_op dlen (SetHeader k v) s = s"
| "recorder_op dlen (WriteStatus code) s = s\<lparr>rec_status := code\<rparr>"
| "recorder_op dlen (Write c) s =
     s\<lparr>rec_status := (if rec_status s = 0 then 200 else rec_status s), rec_bytes := rec_bytes s + chunk_len dlen c\<rparr>"

definition recorded :: "('d \<Rightarrow> nat) \<Rightarrow> 'd wop list \<Rightarrow> status_recorder" where
  "recorded dlen ops = fold (recorder_op dlen) ops \<lparr>rec_status = 0, rec_bytes = 0\<rparr>"

definition Logging :: "('d \<Rightarrow> nat) \<Rightarrow> gtime \<Rightarrow> gtime \<Rightarrow> ('s, 'd) logged \<Rightarrow> ('s, 'd) logged" where
  "Logging dlen start finish nxt r s =
     (case nxt r s of
        (ops, Some p, s') \<Rightarrow> (ops, Some p, s')
      | (ops, None, (s', log)) \<Rightarrow>
          (let rec = recorded dlen ops in
           (ops, None, (s', log @ [Access (rq_method r) (rq_path r) (rec_status rec) (rec_bytes rec)
              (finish - start) (RequestIDFromContext r)]))))"

section \<open>Recovery\<close>

text \<open>
  \<open>%q\<close> of a string: quotes, backslashes and control characters are escaped.  Bytes from 128
  on are taken to be printable UTF-8, which is kept.
\<close>

definition quote_char :: "char \<Rightarrow> string" where
  "quote_char c =
     (let n = of_char c :: nat in
      case map_of [(34, CHR 0x22), (92, CHR 0x5C), (7, CHR ''a''), (8, CHR ''b''), (12, CHR ''f''), (10, CHR ''n''),
                   (13, CHR ''r''), (9, CHR ''t''), (11, CHR ''v'')] n of
        Some e \<Rightarrow> [CHR 0x5C, e]
      | None \<Rightarrow> if n < 32 \<or> n = 127 then [CHR 0x5C, CHR ''x'', hex_digit (n div 16), hex_digit (n mod 16)] else [c])"

definition quoted :: "string \<Rightarrow> string" where
  "quoted s = CHR 0x22 # concat (map quote_char s) @ [CHR 0x22]"

definition Recovery :: "('s, 'd) logged \<Rightarrow> ('s, 'd) logged" where
  "Recovery nxt r s =
     (case nxt r s of
        (ops, None, s') \<Rightarrow> (ops, None, s')
      | (ops, Some p, (s', log)) \<Rightarrow>
          (let rid = RequestIDFromContext r in
           (ops @ [SetHeader ''Content-Type'' ''application/json'', WriteStatus 500,
                   Write (Text (''{\"error\":\"internal error\",\"request_id\":'' @ quoted rid @ ''}''))],
            None, (s', log @ [PanicLine p rid]))))"

section \<open>Signatures\<close>

record hmac_config =
  hc_Secret :: "byte list"
  hc_MaxClockSkew :: "64 word"
  hc_SkipPaths :: "string list"

definition shouldSkipAuth :: "string \<Rightarrow> string list \<Rightarrow> bool" where
  "shouldSkipAuth path skips = (\<exists>p \<in> set skips. has_prefix path p)"

definition signed_message :: "string \<Rightarrow> string \<Rightarrow> string \<Rightarrow> byte list \<Rightarrow> byte list" where
  "signed_message method path timestamp body =
     bytes_of method @ [10] @ bytes_of path @ [10] @ bytes_of timestamp @ [10] @ body"

definition computeSignature :: "byte list \<Rightarrow> string \<Rightarrow> string \<Rightarrow> string \<Rightarrow> byte list \<Rightarrow> string" where
  "computeSignature secret method path timestamp body =
     hex_encode (hmac_sha256 secret (signed_message method path timestamp body))"

definition SignRequest :: "byte list \<Rightarrow> string \<Rightarrow> string \<Rightarrow> string \<Rightarrow> byte list \<Rightarrow> string" where
  "SignRequest secret method path timestamp body = computeSignature secret method path timestamp body"

text \<open>
  \<open>time.Unix\<close> counts from year 1 in a 64-bit number of seconds, which wraps around;
  \<open>time.Since\<close> is a \<open>Duration\<close>, 64 bits of nanoseconds, and saturates at both ends.
  Times here are nanoseconds since year 1.
\<close>

definition time_Unix :: "int \<Rightarrow> gtime" where
  "time_Unix sec = sint (of_int (sec + 62135596800) :: 64 word) * 1000000000"

definition saturate64 :: "int \<Rightarrow> 64 word" where
  "saturate64 d = of_int (max (- 9223372036854775808) (min 9223372036854775807 d))"

definition time_Since :: "gtime \<Rightarrow> gtime \<Rightarrow> 64 word" where
  "time_Since now t = saturate64 (now - t)"

text \<open>The check, and the request with its body restored.\<close>

definition verifyHMAC :: "gtime \<Rightarrow> hmac_config \<Rightarrow> http_request \<Rightarrow> gerr + http_request" where
  "verifyHMAC now cfg r =
     (let sig = rq_header r ''X-Signature'' in
      if sig = [] then Inl (Errorf ''missing X-Signature'')
      else
     (let ts = rq_header r ''X-Timestamp'' in
      if ts = [] then Inl (Errorf ''missing X-Timestamp'')
      else
     (case parse_int64 ts of
        Inl e \<Rightarrow> Inl (Wrapf ''invalid X-Timestamp'' e)
      | Inr tsInt \<Rightarrow>
     (let skew0 = time_Since now (time_Unix tsInt);
          skew = (if sint skew0 < 0 then - skew0 else skew0) in
      if sint (hc_MaxClockSkew cfg) < sint skew then Inl (Errorf ''X-Timestamp skew exceeds max'')
      else
     (case rq_body r of
        Inl e \<Rightarrow> Inl (Wrapf ''read body'' e)
      | Inr body \<Rightarrow>
          if bytes_of (computeSignature (hc_Secret cfg) (rq_method r) (rq_path r) ts body) \<noteq> bytes_of sig
          then Inl (Errorf ''signature mismatch'')
          else Inr (r\<lparr>rq_body := Inr body\<rparr>))))))"

text \<open>The message of an error, of which the model keeps the constant part.\<close>

definition err_text :: "gerr \<Rightarrow> string" where
  "err_text e = (case e of Errorf m \<Rightarrow> m | Wrapf m e' \<Rightarrow> m | Sentinel s \<Rightarrow> [])"

definition HMAC :: "gtime \<Rightarrow> hmac_config \<Rightarrow> ('s, 'd) handler \<Rightarrow> ('s, 'd) handler" where
  "HMAC now cfg0 nxt r s =
     (let cfg = (if hc_MaxClockSkew cfg0 = 0 then cfg0\<lparr>hc_MaxClockSkew := 300000000000\<rparr> else cfg0) in
      if shouldSkipAuth (rq_path r) (hc_SkipPaths cfg) then nxt r s
      else (case verifyHMAC now cfg r of
          Inl e \<Rightarrow> ([SetHeader ''Content-Type'' ''application/json'', WriteStatus 401,
                     Write (Text (''{\"error\":'' @ quoted (err_text e) @ ''}''))], None, s)
        | Inr r' \<Rightarrow> nxt r' s))"

section \<open>The chain of the daemon\<close>

text \<open>What one request brings: random bytes for its id and three clock readings.\<close>

record chain_env =
  ce_rnd :: "byte list"
  ce_start :: gtime
  ce_auth :: gtime
  ce_finish :: gtime

text \<open>\<open>chain\<close> in server/cmd/rgsd/main.go; no secret, no check.\<close>

definition rgsd_chain :: "chain_env \<Rightarrow> ('d \<Rightarrow> nat) \<Rightarrow> byte list option \<Rightarrow> ('s, 'd) logged \<Rightarrow> ('s, 'd) logged" where
  "rgsd_chain env dlen secret h =
     (let h1 = (case secret of
          None \<Rightarrow> h
        | Some k \<Rightarrow> HMAC (ce_auth env) \<lparr>hc_Secret = k, hc_MaxClockSkew = 0, hc_SkipPaths = [''/v1/health'']\<rparr> h)
      in Logging dlen (ce_start env) (ce_finish env) (Recovery (RequestID (ce_rnd env) h1)))"

section \<open>Lemmas\<close>

lemma bytes_of_inject [simp]: "bytes_of s = bytes_of t \<longleftrightarrow> s = t"
proof
  assume "bytes_of s = bytes_of t"
  then have "map (of_char :: char \<Rightarrow> byte) s = map of_char t" by (simp add: bytes_of_def)
  moreover have "inj (of_char :: char \<Rightarrow> byte)"
  proof (rule injI)
    fix c d :: char
    assume "(of_char c :: byte) = of_char d"
    then have "unat (of_nat (of_char c) :: byte) = unat (of_nat (of_char d) :: byte)" by (simp only: of_nat_of_char)
    then have "(of_char c :: nat) = of_char d" by (simp add: unat_of_nat del: of_nat_of_char)
    then show "c = d" by simp
  qed
  ultimately show "s = t" by (simp add: inj_map_eq_map)
qed simp

lemma length_computeSignature [simp]: "length (computeSignature k m p t b) = 64"
  by (simp add: computeSignature_def)

lemma computeSignature_nonempty [simp]: "computeSignature k m p t b \<noteq> []" "[] \<noteq> computeSignature k m p t b"
  using length_computeSignature [of k m p t b] by (metis list.size(3) zero_neq_numeral)+

lemma sint_saturate64: "sint (saturate64 d) = max (- 9223372036854775808) (min 9223372036854775807 d)"
proof -
  have "max (- 9223372036854775808) (min 9223372036854775807 d) \<in> {- (2 ^ 63)..< 2 ^ 63}" by auto
  then show ?thesis
    by (simp add: saturate64_def signed_of_int signed_take_bit_int_eq_self)
qed

text \<open>
  The skew test.  A time stamp more than 292 years ahead saturates at the least duration, whose
  negation is itself, so it counts as no skew at all.
\<close>

definition skew_ok :: "int \<Rightarrow> int \<Rightarrow> bool" where
  "skew_ok limit d \<longleftrightarrow> \<bar>d\<bar> \<le> limit \<or> d \<le> - 9223372036854775808"

lemma skew_test:
  fixes limit :: "64 word"
  assumes "0 \<le> sint limit" and lt: "sint limit < 9223372036854775807"
  shows "(sint limit < sint (if sint (saturate64 d) < 0 then - saturate64 d else saturate64 d)) =
    (\<not> skew_ok (sint limit) d)"
proof -
  consider "d \<le> - 9223372036854775808" | "- 9223372036854775808 < d \<and> d < 0" | "0 \<le> d" by linarith
  then show ?thesis
  proof cases
    case 1
    then have "saturate64 d = of_int (- 9223372036854775808)" by (simp add: saturate64_def)
    then have eq: "- saturate64 d = saturate64 d" by simp
    show ?thesis unfolding eq using 1 assms by (simp add: sint_saturate64 skew_ok_def)
  next
    case 2
    then have "- saturate64 d = saturate64 (- d)" by (simp add: saturate64_def)
    with 2 lt show ?thesis by (auto simp: sint_saturate64 skew_ok_def)
  next
    case 3
    with lt show ?thesis by (auto simp: sint_saturate64 skew_ok_def)
  qed
qed

section \<open>Properties\<close>

text \<open>
  C17: the signature check accepts a request exactly when it carries the signature that
  \<open>SignRequest\<close> computes over its method, path, time stamp and body with the shared secret,
  and the time stamp is a number of seconds that is within the allowed skew of the clock or else more
  than 2^63 nanoseconds (292 years) ahead of it, where the difference saturates; an accepted request
  goes on unchanged, body included.
\<close>

theorem verify_accepts_iff:
  assumes "0 \<le> sint (hc_MaxClockSkew cfg)" and "sint (hc_MaxClockSkew cfg) < 9223372036854775807"
  shows "verifyHMAC now cfg r = Inr r' \<longleftrightarrow> r' = r \<and>
    (\<exists>t body. parse_int64 (rq_header r ''X-Timestamp'') = Inr t \<and> rq_body r = Inr body \<and>
       (\<bar>now - time_Unix t\<bar> \<le> sint (hc_MaxClockSkew cfg) \<or> now + 2 ^ 63 \<le> time_Unix t) \<and>
       rq_header r ''X-Signature'' =
         SignRequest (hc_Secret cfg) (rq_method r) (rq_path r) (rq_header r ''X-Timestamp'') body)"
proof (cases "rq_header r ''X-Signature'' = [] \<or> rq_header r ''X-Timestamp'' = []")
  case True
  then show ?thesis by (auto simp: verifyHMAC_def Let_def SignRequest_def parse_int64_def)
next
  case False
  show ?thesis
  proof (cases "parse_int64 (rq_header r ''X-Timestamp'')")
    case (Inl e)
    with False show ?thesis by (simp add: verifyHMAC_def Let_def)
  next
    case (Inr t)
    note skew = skew_test [OF assms(1,2), of "now - time_Unix t"]
    show ?thesis
    proof (cases "rq_body r")
      case (Inl e)
      with False Inr show ?thesis by (simp add: verifyHMAC_def Let_def)
    next
      case body: (Inr b)
      then have "r\<lparr>rq_body := Inr b\<rparr> = r" by simp
      with False Inr body skew show ?thesis
        by (auto simp: verifyHMAC_def Let_def SignRequest_def time_Since_def skew_ok_def)
    qed
  qed
qed

definition demo_hmac :: hmac_config where
  "demo_hmac = \<lparr>hc_Secret = [1, 2, 3], hc_MaxClockSkew = 300000000000, hc_SkipPaths = []\<rparr>"

text \<open>One second of the Unix era, and a request signed for it.\<close>

definition demo_signed :: http_request where
  "demo_signed = \<lparr>rq_method = ''POST'', rq_path = ''/v1/rounds/start'',
     rq_header = (\<lambda>k. if k = ''X-Signature'' then SignRequest [1, 2, 3] ''POST'' ''/v1/rounds/start'' ''1'' [123, 125]
       else if k = ''X-Timestamp'' then ''1'' else []),
     rq_query = (\<lambda>_. []), rq_body = Inr [123, 125], rq_ctx_id = []\<rparr>"

lemma parse_one: "parse_int64 ''1'' = Inr 1"
  by (simp add: parse_int64_def parse_uint_def is_digit_def digit_val_def Let_def)

theorem verify_accepts_iff_witness:
  "verifyHMAC (62135596802 * 1000000000) demo_hmac demo_signed = Inr demo_signed"
  using verify_accepts_iff [of demo_hmac "62135596802 * 1000000000" demo_signed demo_signed]
  by (simp add: demo_hmac_def demo_signed_def parse_one time_Unix_def signed_of_int
      signed_take_bit_int_eq_self)

text \<open>
  The skew check does not stop a time stamp in the far future: a request signed for second
  99999999999, in the year 5138, is accepted at the start of the Unix era.
\<close>

definition future_signed :: http_request where
  "future_signed = demo_signed\<lparr>rq_header := (\<lambda>k.
     if k = ''X-Signature'' then SignRequest [1, 2, 3] ''POST'' ''/v1/rounds/start'' ''99999999999'' [123, 125]
     else if k = ''X-Timestamp'' then ''99999999999'' else [])\<rparr>"

lemma parse_future: "parse_int64 ''99999999999'' = Inr 99999999999"
  by (simp add: parse_int64_def parse_uint_def is_digit_def digit_val_def Let_def)

lemma future_timestamp_accepted:
  "verifyHMAC (62135596800 * 1000000000) demo_hmac future_signed = Inr future_signed"
  by (simp add: verifyHMAC_def Let_def future_signed_def demo_signed_def demo_hmac_def parse_future
      time_Unix_def time_Since_def saturate64_def signed_of_int signed_take_bit_int_eq_self SignRequest_def)

lemma verify_body: "verifyHMAC now cfg r = Inr r' \<Longrightarrow> r' = r"
  by (cases "rq_body r") (auto simp: verifyHMAC_def Let_def split: if_splits sum.splits)

lemma verify_ctx [simp]: "verifyHMAC now cfg (r\<lparr>rq_ctx_id := i\<rparr>) = map_sum id (\<lambda>q. q\<lparr>rq_ctx_id := i\<rparr>) (verifyHMAC now cfg r)"
  by (auto simp: verifyHMAC_def Let_def split: sum.split)

definition rgsd_hmac :: "byte list \<Rightarrow> hmac_config" where
  "rgsd_hmac k = \<lparr>hc_Secret = k, hc_MaxClockSkew = 300000000000, hc_SkipPaths = [''/v1/health'']\<rparr>"

definition request_id :: "chain_env \<Rightarrow> http_request \<Rightarrow> string" where
  "request_id env r = (if rq_header r ''X-Request-ID'' = [] then newRequestID (ce_rnd env) else rq_header r ''X-Request-ID'')"

text \<open>The chain, with the request that reaches the handler.\<close>

lemma rgsd_chain_refused:
  assumes "\<not> has_prefix (rq_path r) ''/v1/health''" and "verifyHMAC (ce_auth env) (rgsd_hmac k) r = Inl e"
  shows "\<exists>ops bytes. rgsd_chain env dlen (Some k) h r (s, log) =
    (ops, None, (s, log @ [Access (rq_method r) (rq_path r) 401 bytes (ce_finish env - ce_start env) (rq_ctx_id r)])) \<and>
    client_status ops = 401"
  using assms
  by (auto simp: rgsd_chain_def Let_def Logging_def Recovery_def RequestID_def HMAC_def shouldSkipAuth_def
      rgsd_hmac_def recorded_def RequestIDFromContext_def)

text \<open>
  Without a valid signature a request to the daemon does nothing: whatever the handler
  behind the check is, its state is untouched, the client gets 401, and the access log gets
  one line.
\<close>

theorem unsigned_request_has_no_effect:
  assumes "\<not> has_prefix (rq_path r) ''/v1/health''" and "verifyHMAC (ce_auth env) (rgsd_hmac k) r = Inl e"
  shows "\<exists>ops line. rgsd_chain env dlen (Some k) h r (s, log) = (ops, None, (s, log @ [line])) \<and> client_status ops = 401"
  using rgsd_chain_refused [OF assms, of dlen h s log] by blast

definition demo_chain_env :: chain_env where
  "demo_chain_env = \<lparr>ce_rnd = [9], ce_start = 1, ce_auth = 2, ce_finish = 3\<rparr>"

theorem unsigned_request_has_no_effect_witness:
  "\<exists>ops line. rgsd_chain demo_chain_env (\<lambda>_. 0) (Some [1]) (\<lambda>r (n, l). ([WriteStatus 200], None, (Suc n, l)))
     (demo_signed\<lparr>rq_header := (\<lambda>_. [])\<rparr>) (5, []) = (ops :: unit wop list, None, (5, [] @ [line])) \<and>
   client_status ops = 401"
  by (rule unsigned_request_has_no_effect [where e = "Errorf ''missing X-Signature''"])
    (simp_all add: demo_signed_def has_prefix_def verifyHMAC_def)

text \<open>
  C34: no panic of a handler escapes the daemon's chain, and every request leaves exactly one
  access line: the state is the handler's, a panic before anything was sent becomes a 500.
  The request id in the log lines is the one the request had when it arrived, not the one
  \<open>RequestID\<close>, further in, assigns and sends back.
\<close>

theorem chain_recovers_and_logs:
  assumes "h (r\<lparr>rq_ctx_id := request_id env r\<rparr>) (s, log) = (ops, p, (s1, log1))"
  shows "\<exists>ops' st bytes. rgsd_chain env dlen None h r (s, log) = (ops', None, (s1, log1 @
      (case p of None \<Rightarrow> [] | Some v \<Rightarrow> [PanicLine v (rq_ctx_id r)]) @
      [Access (rq_method r) (rq_path r) st bytes (ce_finish env - ce_start env) (rq_ctx_id r)])) \<and>
    rs_header (respond ops') ''X-Request-ID'' \<noteq> None \<and>
    client_status ops' = (if p \<noteq> None \<and> sent_status ops 0 = 0 then 500 else client_status ops)"
proof -
  have hdr: "rs_header (fold write_op xs w) ''X-Request-ID'' \<noteq> None" if "rs_header w ''X-Request-ID'' \<noteq> None"
    for xs and w :: "'a response"
    using that
  proof (induction xs arbitrary: w)
    case (Cons op xs)
    then show ?case by (cases op) auto
  qed simp
  have "rs_header (respond (SetHeader ''X-Request-ID'' v # xs)) ''X-Request-ID'' \<noteq> None" for v and xs :: "'a wop list"
    using hdr [of "write_op (SetHeader ''X-Request-ID'' v) no_response" xs] by (simp add: respond_def no_response_def)
  then show ?thesis
    using assms
    by (cases p) (simp_all add: rgsd_chain_def Logging_def Recovery_def RequestID_def request_id_def Let_def
        RequestIDFromContext_def client_status_def respond_status)
qed

theorem chain_recovers_and_logs_witness:
  "\<exists>ops' st bytes. rgsd_chain demo_chain_env (\<lambda>_. 0) None (\<lambda>r (n, l). ([], Some ''nil map'', (Suc n, l)))
      demo_signed (5, []) = (ops' :: unit wop list, None, (6, [] @ [PanicLine ''nil map'' []] @
      [Access ''POST'' ''/v1/rounds/start'' st bytes 2 []])) \<and> client_status ops' = 500"
  using chain_recovers_and_logs [where h = "\<lambda>r (n, l). ([], Some ''nil map'', (Suc n, l))" and r = demo_signed
      and env = demo_chain_env and s = 5 and log = "[]" and ops = "[]" and p = "Some ''nil map''" and ?s1.0 = 6
      and ?log1.0 = "[]" and dlen = "\<lambda>_. 0"]
  by (auto simp: demo_signed_def demo_chain_env_def)

end
