(* ===== verification/Metrics.thy ===== *)
theory Metrics
  imports Http Float64 "HOL-Library.List_Lexorder" "HOL-Library.Char_ord" "HOL-Library.Multiset"
begin

text \<open>
  Package \<open>metrics\<close> (server/metrics/metrics.go): counters, static-bucket histograms, the
  registry and the exposition document.  Every metric is registered under its name when it
  is made, so the registry is the only way to reach it and a pointer to a metric is its name.
  \<open>%g\<close> of a float is a parameter.
\<close>

section \<open>Counters and histograms\<close>

record counter =
  ct_n :: u64
  ct_name :: string
  ct_help :: string

definition counter_Add :: "u64 \<Rightarrow> counter \<Rightarrow> counter" where
  "counter_Add delta c = c\<lparr>ct_n := ct_n c + delta\<rparr>"

definition counter_Inc :: "counter \<Rightarrow> counter" where
  "counter_Inc c = counter_Add 1 c"

definition counter_emit :: "counter \<Rightarrow> string" where
  "counter_emit c = ct_name c @ '' '' @ format_uint (ct_n c) @ [CHR 0x0A]"

record histogram =
  hg_buckets :: "f64 list"
  hg_counts :: "u64 list"
  hg_sum :: f64
  hg_count :: u64
  hg_name :: string
  hg_help :: string

text \<open>\<open>sort.Float64s\<close>: ascending, NaNs first.\<close>

definition f64_before :: "f64 \<Rightarrow> f64 \<Rightarrow> bool" where
  "f64_before x y = (x = NaN \<or> f64_le x y)"

fun f64_insert :: "f64 \<Rightarrow> f64 list \<Rightarrow> f64 list" where
  "f64_insert x [] = [x]"
| "f64_insert x (y # ys) = (if f64_before x y then x # y # ys else y # f64_insert x ys)"

definition Float64s :: "f64 list \<Rightarrow> f64 list" where
  "Float64s xs = foldr f64_insert xs []"

definition blank_histogram :: "string \<Rightarrow> string \<Rightarrow> f64 list \<Rightarrow> histogram" where
  "blank_histogram name help buckets =
     (let bs = Float64s buckets in
      \<lparr>hg_buckets = bs, hg_counts = replicate (length bs + 1) 0, hg_sum = f64_int 0, hg_count = 0,
       hg_name = name, hg_help = help\<rparr>)"

text \<open>The bucket an observation falls into, the last one if no bound holds it.\<close>

fun find_bucket :: "f64 \<Rightarrow> f64 list \<Rightarrow> nat" where
  "find_bucket v [] = 0"
| "find_bucket v (b # bs) = (if f64_le v b then 0 else Suc (find_bucket v bs))"

definition Observe :: "f64 \<Rightarrow> histogram \<Rightarrow> histogram" where
  "Observe v h =
     (let i = find_bucket v (hg_buckets h) in
      h\<lparr>hg_counts := (hg_counts h)[i := hg_counts h ! i + 1], hg_sum := f64_add (hg_sum h) v,
        hg_count := hg_count h + 1\<rparr>)"

fun emit_buckets :: "(f64 \<Rightarrow> string) \<Rightarrow> string \<Rightarrow> u64 \<Rightarrow> f64 list \<Rightarrow> u64 list \<Rightarrow> string list" where
  "emit_buckets g name cum (b # bs) (c # cs) =
     (name @ ''_bucket{le=\"'' @ g b @ ''\"} '' @ format_uint (cum + c)) # emit_buckets g name (cum + c) bs cs"
| "emit_buckets g name cum [] (c # cs) = [name @ ''_bucket{le=\"+Inf\"} '' @ format_uint (cum + c)]"
| "emit_buckets g name cum _ [] = []"

definition histogram_emit :: "(f64 \<Rightarrow> string) \<Rightarrow> histogram \<Rightarrow> string" where
  "histogram_emit g h =
     concat (map (\<lambda>l. l @ [CHR 0x0A])
       (emit_buckets g (hg_name h) 0 (hg_buckets h) (hg_counts h) @
        [hg_name h @ ''_sum '' @ g (hg_sum h), hg_name h @ ''_count '' @ format_uint (hg_count h)]))"

section \<open>The registry\<close>

datatype metric = CounterMetric counter | HistogramMetric histogram

fun metric_name :: "metric \<Rightarrow> string" where
  "metric_name (CounterMetric c) = ct_name c"
| "metric_name (HistogramMetric h) = hg_name h"

fun metric_help :: "metric \<Rightarrow> string" where
  "metric_help (CounterMetric c) = ct_help c"
| "metric_help (HistogramMetric h) = hg_help h"

fun metric_mtype :: "metric \<Rightarrow> string" where
  "metric_mtype (CounterMetric c) = ''counter''"
| "metric_mtype (HistogramMetric h) = ''histogram''"

fun metric_emit :: "(f64 \<Rightarrow> string) \<Rightarrow> metric \<Rightarrow> string" where
  "metric_emit g (CounterMetric c) = counter_emit c"
| "metric_emit g (HistogramMetric h) = histogram_emit g h"

type_synonym registry = "(string \<times> metric) list"

text \<open>\<open>None\<close> is the panic on a name that is taken.\<close>

definition register :: "string \<Rightarrow> metric \<Rightarrow> registry \<Rightarrow> registry option" where
  "register name m reg = (if map_of reg name \<noteq> None then None else Some (reg @ [(name, m)]))"

definition NewCounter :: "string \<Rightarrow> string \<Rightarrow> registry \<Rightarrow> registry option" where
  "NewCounter name help reg = register name (CounterMetric \<lparr>ct_n = 0, ct_name = name, ct_help = help\<rparr>) reg"

definition NewHistogram :: "string \<Rightarrow> string \<Rightarrow> f64 list \<Rightarrow> registry \<Rightarrow> registry option" where
  "NewHistogram name help buckets reg = register name (HistogramMetric (blank_histogram name help buckets)) reg"

definition ResetForTest :: "registry \<Rightarrow> registry" where
  "ResetForTest reg = []"

text \<open>A call on a metric through its pointer.\<close>

fun on_metric :: "(metric \<Rightarrow> metric) \<Rightarrow> string \<Rightarrow> registry \<Rightarrow> registry" where
  "on_metric f n [] = []"
| "on_metric f n ((k, m) # reg) = (if k = n then (k, f m) # reg else (k, m) # on_metric f n reg)"

fun inc_metric :: "metric \<Rightarrow> metric" where
  "inc_metric (CounterMetric c) = CounterMetric (counter_Inc c)"
| "inc_metric m = m"

fun observe_metric :: "f64 \<Rightarrow> metric \<Rightarrow> metric" where
  "observe_metric v (HistogramMetric h) = HistogramMetric (Observe v h)"
| "observe_metric v m = m"

definition metric_text :: "(f64 \<Rightarrow> string) \<Rightarrow> metric \<Rightarrow> string" where
  "metric_text g m =
     ''# HELP '' @ metric_name m @ '' '' @ metric_help m @ [CHR 0x0A] @
     ''# TYPE '' @ metric_name m @ '' '' @ metric_mtype m @ [CHR 0x0A] @ metric_emit g m"

definition metrics_Handler :: "(f64 \<Rightarrow> string) \<Rightarrow> (registry, 'd) handler" where
  "metrics_Handler g r reg =
     (SetHeader ''Content-Type'' ''text/plain; version=0.0.4'' #
        map (\<lambda>n. Write (Text (metric_text g (the (map_of reg n))))) (sort (map fst reg)),
      None, reg)"

section \<open>What a histogram counts\<close>

lemma f64_insert_set [simp]: "set (f64_insert x xs) = insert x (set xs)"
  by (induction xs) auto

lemma f64_insert_length [simp]: "length (f64_insert x xs) = Suc (length xs)"
  by (induction xs) auto

lemma mset_f64_insert [simp]: "mset (f64_insert x xs) = add_mset x (mset xs)"
  by (induction xs) auto

lemma Float64s_mset [simp]: "mset (Float64s xs) = mset xs"
  by (induction xs) (auto simp: Float64s_def)

lemma Float64s_set [simp]: "set (Float64s xs) = set xs"
  by (induction xs) (auto simp: Float64s_def)

lemma f64_insert_sorted:
  assumes "x \<noteq> NaN" and "NaN \<notin> set xs" and "sorted_wrt f64_le xs"
  shows "sorted_wrt f64_le (f64_insert x xs)"
  using assms
proof (induction xs)
  case (Cons y ys)
  show ?case
  proof (cases "f64_before x y")
    case True
    then have "f64_le x y" using Cons.prems(1) by (simp add: f64_before_def)
    with True Cons.prems show ?thesis by (auto intro: f64_le_trans)
  next
    case False
    then have "f64_le y x" using f64_le_total [of x y] Cons.prems(1,2) by (auto simp: f64_before_def)
    with False Cons show ?thesis by auto
  qed
qed simp

lemma Float64s_sorted: "NaN \<notin> set xs \<Longrightarrow> sorted_wrt f64_le (Float64s xs)"
proof (induction xs)
  case (Cons x xs)
  have "set (foldr f64_insert xs []) = set xs" using Float64s_set [of xs] by (simp add: Float64s_def)
  with Cons show ?case by (auto simp: Float64s_def intro!: f64_insert_sorted)
qed (simp add: Float64s_def)

lemma find_bucket_le: "find_bucket v bs \<le> length bs"
  by (induction bs) auto

text \<open>With sorted bounds an observation is at or below a bound exactly when its bucket is.\<close>

lemma find_bucket_bound:
  "sorted_wrt f64_le bs \<Longrightarrow> i < length bs \<Longrightarrow> f64_le v (bs ! i) \<longleftrightarrow> find_bucket v bs \<le> i"
proof (induction bs arbitrary: i)
  case (Cons b bs)
  show ?case
  proof (cases i)
    case 0
    then show ?thesis by simp
  next
    case (Suc j)
    have "f64_le v (bs ! j)" if "f64_le v b"
      using that Cons.prems Suc f64_le_trans [of v b "bs ! j"] by auto
    with Suc Cons show ?thesis by auto
  qed
qed simp

definition observe_all :: "f64 list \<Rightarrow> histogram \<Rightarrow> histogram" where
  "observe_all vs h = fold Observe vs h"

lemma observe_all_fields:
  "hg_buckets (observe_all vs h) = hg_buckets h" "hg_name (observe_all vs h) = hg_name h"
  "length (hg_counts (observe_all vs h)) = length (hg_counts h)"
  "hg_count (observe_all vs h) = hg_count h + of_nat (length vs)"
  by (induction vs arbitrary: h) (simp_all add: observe_all_def Observe_def Let_def)

lemma observe_all_counts:
  assumes "length (hg_counts h) = Suc (length (hg_buckets h))" and "i < length (hg_counts h)"
  shows "hg_counts (observe_all vs h) ! i =
    hg_counts h ! i + of_nat (length (filter (\<lambda>v. find_bucket v (hg_buckets h) = i) vs))"
  using assms
proof (induction vs arbitrary: h)
  case (Cons v vs)
  have "observe_all (v # vs) h = observe_all vs (Observe v h)" by (simp add: observe_all_def)
  with Cons.IH [of "Observe v h"] Cons.prems show ?case
    by (simp add: Observe_def Let_def nth_list_update)
qed (simp add: observe_all_def)

text \<open>The cumulative count up to a bucket.\<close>

lemma sum_filter_buckets:
  fixes f :: "'a \<Rightarrow> nat"
  shows
  "(\<Sum>j \<le> i. of_nat (length (filter (\<lambda>v. f v = j) vs)) :: u64) = of_nat (length (filter (\<lambda>v. f v \<le> i) vs))"
proof (induction vs)
  case (Cons v vs)
  have "(\<Sum>j \<le> i. (if f v = j then 1 else 0) :: u64) = (if f v \<le> i then 1 else 0)"
    using sum.delta' [of "{..i}" "f v" "\<lambda>_. 1 :: u64"] by simp
  moreover have "(of_nat (length (filter (\<lambda>x. f x = j) (v # vs))) :: u64) =
      (if f v = j then 1 else 0) + of_nat (length (filter (\<lambda>x. f x = j) vs))" for j by simp
  ultimately show ?case using Cons by (simp add: sum.distrib del: sum.delta sum.delta')
qed simp

lemma emit_buckets_nth:
  assumes "length cs = Suc (length bs)"
  shows "length (emit_buckets g name cum bs cs) = length cs \<and>
    (\<forall>i < length bs. emit_buckets g name cum bs cs ! i =
       name @ ''_bucket{le=\"'' @ g (bs ! i) @ ''\"} '' @ format_uint (cum + (\<Sum>j \<le> i. cs ! j))) \<and>
    emit_buckets g name cum bs cs ! length bs =
       name @ ''_bucket{le=\"+Inf\"} '' @ format_uint (cum + (\<Sum>j \<le> length bs. cs ! j))"
  using assms
proof (induction bs arbitrary: cum cs)
  case Nil
  then obtain c where "cs = [c]" by (cases cs) auto
  then show ?case by simp
next
  case (Cons b bs)
  then obtain c cs' where cs: "cs = c # cs'" "length cs' = Suc (length bs)" by (cases cs) auto
  have shift: "c + (\<Sum>j \<le> n. cs' ! j) = (\<Sum>j \<le> Suc n. cs ! j)" for n
    by (simp add: cs sum.atMost_Suc_shift del: sum.atMost_Suc)
  note IH = Cons.IH [OF cs(2), of "cum + c"]
  show ?case
  proof (intro conjI allI impI)
    show "length (emit_buckets g name cum (b # bs) cs) = length cs" using IH cs by simp
  next
    fix i assume i: "i < length (b # bs)"
    show "emit_buckets g name cum (b # bs) cs ! i = name @ ''_bucket{le=\"'' @ g ((b # bs) ! i) @ ''\"} '' @
        format_uint (cum + (\<Sum>j \<le> i. cs ! j))"
      using IH i cs shift by (cases i) (auto simp: add.assoc simp del: sum.atMost_Suc)
  next
    show "emit_buckets g name cum (b # bs) cs ! length (b # bs) = name @ ''_bucket{le=\"+Inf\"} '' @
        format_uint (cum + (\<Sum>j \<le> length (b # bs). cs ! j))"
      using IH cs shift by (simp add: add.assoc del: sum.atMost_Suc)
  qed
qed

text \<open>Duplicate bounds: the histogram has them all, and a scrape gets the same line twice.\<close>

lemma duplicate_bounds_kept:
  "emit_buckets g ''d'' 0 (hg_buckets (blank_histogram ''d'' ''h'' [f64_int 1, f64_int 1]))
     (hg_counts (blank_histogram ''d'' ''h'' [f64_int 1, f64_int 1])) =
   [''d_bucket{le=\"'' @ g (f64_int 1) @ ''\"} '' @ format_uint 0, ''d_bucket{le=\"'' @ g (f64_int 1) @ ''\"} '' @ format_uint 0,
    ''d_bucket{le=\"+Inf\"} '' @ format_uint 0]"
  by (simp add: blank_histogram_def Float64s_def Let_def numeral_2_eq_2)

section \<open>Properties\<close>

text \<open>
  C40: the lines of an exposed histogram: one for each bound that was given, in ascending order, which
  counts the observations at or below it, then one of \<open>+Inf\<close>, which counts them all, also those that
  are no number, and equals the total count.  A bound that was given twice keeps both its lines, with
  the same count: duplicates are not rejected, whatever the comment in \<open>NewHistogram\<close> says.
\<close>

theorem histogram_exposes_counts:
  assumes "NaN \<notin> set buckets" and "h = observe_all vs (blank_histogram name help buckets)"
  shows "(\<forall>i < length (Float64s buckets). emit_buckets g name 0 (hg_buckets h) (hg_counts h) ! i =
       name @ ''_bucket{le=\"'' @ g (Float64s buckets ! i) @ ''\"} '' @
       format_uint (of_nat (length (filter (\<lambda>v. f64_le v (Float64s buckets ! i)) vs)))) \<and>
    emit_buckets g name 0 (hg_buckets h) (hg_counts h) ! length (Float64s buckets) =
       name @ ''_bucket{le=\"+Inf\"} '' @ format_uint (of_nat (length vs)) \<and>
    hg_count h = of_nat (length vs) \<and> mset (Float64s buckets) = mset buckets \<and>
    sorted_wrt f64_le (Float64s buckets)"
proof -
  let ?bs = "Float64s buckets" and ?h0 = "blank_histogram name help buckets"
  have bs: "hg_buckets h = ?bs" and len: "length (hg_counts h) = Suc (length ?bs)"
    by (simp_all add: assms(2) observe_all_fields blank_histogram_def Let_def)
  have counts: "hg_counts h ! j = of_nat (length (filter (\<lambda>v. find_bucket v ?bs = j) vs))" if "j \<le> length ?bs" for j
  proof -
    have "hg_buckets ?h0 = ?bs" "hg_counts ?h0 = replicate (Suc (length ?bs)) 0"
      by (simp_all add: blank_histogram_def Let_def)
    moreover have "replicate (Suc (length ?bs)) (0 :: u64) ! j = 0" using that by (simp del: replicate_Suc)
    ultimately show ?thesis
      using observe_all_counts [of ?h0 j vs] that by (simp add: assms(2) del: replicate_Suc)
  qed
  have cum: "(\<Sum>j \<le> i. hg_counts h ! j) = of_nat (length (filter (\<lambda>v. find_bucket v ?bs \<le> i) vs))"
    if "i \<le> length ?bs" for i
  proof -
    have "(\<Sum>j \<le> i. hg_counts h ! j) = (\<Sum>j \<le> i. of_nat (length (filter (\<lambda>v. find_bucket v ?bs = j) vs)))"
      using that counts by (intro sum.cong) auto
    then show ?thesis by (simp only: sum_filter_buckets)
  qed
  have "find_bucket v ?bs \<le> i \<longleftrightarrow> f64_le v (?bs ! i)" if "i < length ?bs" for v i
    using find_bucket_bound [OF Float64s_sorted [OF assms(1)] that, of v] by simp
  moreover have "filter (\<lambda>v. find_bucket v ?bs \<le> length ?bs) vs = vs"
    by (simp add: find_bucket_le)
  ultimately show ?thesis
    using emit_buckets_nth [OF len, of g name 0] cum Float64s_sorted [OF assms(1)]
    by (simp add: bs assms(2) observe_all_fields) (simp add: blank_histogram_def Let_def)
qed

theorem histogram_exposes_counts_witness:
  "emit_buckets (\<lambda>b. if b = f64_int 1 then ''1'' else ''2'') ''d'' 0
     (hg_buckets (observe_all [f64_int 3, f64_int 2, NaN] (blank_histogram ''d'' ''h'' [f64_int 2, f64_int 1])))
     (hg_counts (observe_all [f64_int 3, f64_int 2, NaN] (blank_histogram ''d'' ''h'' [f64_int 2, f64_int 1]))) ! 2 =
   ''d_bucket{le=\"+Inf\"} '' @ format_uint 3"
proof -
  have "NaN \<notin> set [f64_int 2, f64_int 1]" by (simp add: f64_int_def)
  moreover have "length (Float64s [f64_int 2, f64_int 1]) = 2"
    by (simp add: Float64s_def)
  ultimately show ?thesis
    using histogram_exposes_counts [OF _ refl, of "[f64_int 2, f64_int 1]"
      "\<lambda>b. if b = f64_int 1 then ''1'' else ''2''" "''d''" "[f64_int 3, f64_int 2, NaN]" "''h''"] by simp
qed

text \<open>Names are unique, so the document has one block per metric, in order of name.\<close>

lemma register_distinct:
  "distinct (map fst reg) \<Longrightarrow> register name m reg = Some reg' \<Longrightarrow> distinct (map fst reg')"
  by (auto simp: register_def map_of_eq_None_iff split: if_splits)

lemma on_metric_names [simp]: "map fst (on_metric f n reg) = map fst reg"
  by (induction f n reg rule: on_metric.induct) auto

lemma map_of_on_metric:
  "map_of (on_metric f n reg) k = (if k = n then map_option f (map_of reg k) else map_of reg k)"
  by (induction f n reg rule: on_metric.induct) auto

end
