(* ===== verification/Rgsd.thy ===== *)
theory Rgsd
  imports Rgs_Api Middleware Metrics
begin

text \<open>
  The daemon of the operator (server/cmd/rgsd/main.go): the wallet and the simulator with
  their counters, the settings read from the environment, and the root of the HTTP server,
  which puts the chain of \<open>Middleware\<close> before the surface of \<open>Rgs_Api\<close> and serves the
  metrics of \<open>Metrics\<close>.
\<close>

section \<open>Instrumentation\<close>

text \<open>The metrics the daemon registers at its start.\<close>

definition round_buckets :: "f64 list" where
  "round_buckets = map f64_int [1, 2, 5, 10, 20, 30, 60, 120]"

definition rgsd_metrics :: "registry option" where
  "rgsd_metrics =
     (case NewCounter ''rgsd_rounds_total'' ''rounds run by this rgsd'' [] of None \<Rightarrow> None
      | Some r1 \<Rightarrow> (case NewCounter ''rgsd_bets_total'' ''bets placed and accepted'' r1 of None \<Rightarrow> None
      | Some r2 \<Rightarrow> (case NewCounter ''rgsd_bet_errors_total'' ''bets rejected (any reason)'' r2 of None \<Rightarrow> None
      | Some r3 \<Rightarrow> NewHistogram ''rgsd_round_duration_seconds''
          ''wall clock from RunNextRound entry to manifest persisted'' round_buckets r3)))"

text \<open>\<open>countingWallet\<close> overrides \<open>Debit\<close> and inherits the rest.\<close>

definition counting_wallet :: "'w wallet \<Rightarrow> ('w \<times> registry) wallet" where
  "counting_wallet W =
     \<lparr>w_Debit = (\<lambda>pl a tx (w, reg). case w_Debit W pl a tx w of
          (Some e, w') \<Rightarrow> (Some e, (w', on_metric inc_metric ''rgsd_bet_errors_total'' reg))
        | (None, w') \<Rightarrow> (None, (w', on_metric inc_metric ''rgsd_bets_total'' reg))),
      w_Credit = (\<lambda>pl a tx (w, reg). case w_Credit W pl a tx w of (e, w') \<Rightarrow> (e, (w', reg))),
      w_Balance = (\<lambda>pl (w, reg). w_Balance W pl w)\<rparr>"

definition instrumentedSim :: "(sim_request \<Rightarrow> gerr + sim_result) \<Rightarrow> f64 \<Rightarrow> sim_request \<Rightarrow> registry \<Rightarrow>
    (gerr + sim_result) \<times> registry" where
  "instrumentedSim inner elapsed req reg =
     (case inner req of
        Inl e \<Rightarrow> (Inl e, reg)
      | Inr res \<Rightarrow> (Inr res, on_metric (observe_metric elapsed) ''rgsd_round_duration_seconds''
          (on_metric inc_metric ''rgsd_rounds_total'' reg)))"

text \<open>Counting does not change what a wallet promises.\<close>

context wallet_contract
begin

lemma counting_contract: "wallet_contract (counting_wallet W) (\<lambda>s. bal (fst s)) (\<lambda>s. posted (fst s))"
proof (unfold_locales, goal_cases)
  case (1 s p b tx a)
  obtain w reg where s: "s = (w, reg)" by (cases s)
  with 1 debit_ok [of w p b tx a] show ?case by (auto simp: counting_wallet_def)
next
  case (2 s p b tx a)
  obtain w reg where s: "s = (w, reg)" by (cases s)
  with 2 debit_short [of w p b tx a] show ?case by (auto simp: counting_wallet_def)
next
  case (3 s p a tx)
  obtain w reg where s: "s = (w, reg)" by (cases s)
  with 3 debit_unknown [of w p a tx] show ?case by (auto simp: counting_wallet_def)
next
  case (4 tx s p a)
  obtain w reg e w' where s: "s = (w, reg)" "w_Debit W p a tx w = (e, w')" by (cases s) fastforce
  with 4 debit_replay [of tx w p a] show ?case by (cases e) (auto simp: counting_wallet_def)
next
  case (5 s p b tx a)
  obtain w reg where s: "s = (w, reg)" by (cases s)
  with 5 credit_ok [of w p b tx a] show ?case by (auto simp: counting_wallet_def)
next
  case (6 s p a tx)
  obtain w reg where s: "s = (w, reg)" by (cases s)
  with 6 credit_unknown [of w p a tx] show ?case by (auto simp: counting_wallet_def)
next
  case (7 tx s p a)
  obtain w reg e w' where s: "s = (w, reg)" "w_Credit W p a tx w = (e, w')" by (cases s) fastforce
  with 7 credit_replay [of tx w p a] show ?case by (auto simp: counting_wallet_def)
next
  case (8 s p b)
  obtain w reg where s: "s = (w, reg)" by (cases s)
  with 8 balance_known [of w p b] show ?case by (auto simp: counting_wallet_def)
next
  case (9 s p)
  obtain w reg where s: "s = (w, reg)" by (cases s)
  with 9 balance_unknown [of w p] show ?case by (auto simp: counting_wallet_def)
qed

end

interpretation counted: wallet_contract "counting_wallet MockWallet" "\<lambda>s. mock_bal (fst s)" "\<lambda>s. mock_posted (fst s)"
  by (rule mock.counting_contract)

section \<open>Settings\<close>

definition envOr :: "(string \<Rightarrow> string) \<Rightarrow> string \<Rightarrow> string \<Rightarrow> string" where
  "envOr getenv key dflt = (let v = TrimSpace (getenv key) in if v \<noteq> [] then v else dflt)"

text \<open>
  The scan, then the value in a 64-bit \<open>int\<close> that wraps around.
\<close>

fun all_digits_from :: "nat \<Rightarrow> string \<Rightarrow> bool" where
  "all_digits_from i [] = True"
| "all_digits_from i (c # cs) = ((is_digit c \<or> (i = 0 \<and> c = CHR ''-'')) \<and> all_digits_from (Suc i) cs)"

fun digits_value :: "64 word \<Rightarrow> string \<Rightarrow> 64 word" where
  "digits_value n [] = n"
| "digits_value n (c # cs) = digits_value (n * 10 + of_nat (digit_val c)) cs"

definition parseIntStrict :: "string \<Rightarrow> gerr + int" where
  "parseIntStrict s =
     (if \<not> all_digits_from 0 s then Inl (Errorf ''not an integer'')
      else (case s of
          [] \<Rightarrow> Inr 0
        | c # cs \<Rightarrow> if c = CHR ''-'' then Inr (sint (digits_value 0 cs * - 1)) else Inr (sint (digits_value 0 s))))"

definition envIntOr :: "(string \<Rightarrow> string) \<Rightarrow> string \<Rightarrow> int \<Rightarrow> int" where
  "envIntOr getenv key dflt =
     (let v = TrimSpace (getenv key) in
      if v = [] then dflt else (case parseIntStrict v of Inl e \<Rightarrow> dflt | Inr n \<Rightarrow> n))"

text \<open>
  The flags, whose defaults come from the environment; \<open>uint\<close> and \<open>uint64\<close> of a negative
  number wrap around.
\<close>

record rgsd_flags =
  rf_godotBin :: string
  rf_projectPath :: string
  rf_replayRoot :: string
  rf_addr :: string
  rf_rtpBps :: u64
  rf_buyIn :: u64
  rf_marbles :: int
  rf_simTimeout :: int
  rf_seedAlice :: u64
  rf_hmacSecret :: string

definition rgsd_flag_defaults :: "(string \<Rightarrow> string) \<Rightarrow> rgsd_flags" where
  "rgsd_flag_defaults getenv =
     \<lparr>rf_godotBin = envOr getenv ''RGSD_GODOT_BIN'' [], rf_projectPath = envOr getenv ''RGSD_PROJECT_PATH'' [],
      rf_replayRoot = envOr getenv ''RGSD_REPLAY_ROOT'' [], rf_addr = envOr getenv ''RGSD_ADDR'' '':8090'',
      rf_rtpBps = of_int (envIntOr getenv ''RGSD_RTP_BPS'' 9500), rf_buyIn = of_int (envIntOr getenv ''RGSD_BUY_IN'' 100),
      rf_marbles = envIntOr getenv ''RGSD_MARBLES'' 20, rf_simTimeout = 60000000000, rf_seedAlice = 0,
      rf_hmacSecret = envOr getenv ''RGSD_HMAC_SECRET'' []\<rparr>"

text \<open>
  \<open>main\<close> up to the listener: the exit code (2 also for a panic), or the configured manager, its state with the
  metrics registered, and the key of the signature check.
\<close>

definition rgsd_config :: "(f64 \<Rightarrow> u64) \<Rightarrow> rgsd_flags \<Rightarrow> (mock_wallet \<times> registry) mgr_config" where
  "rgsd_config oor fl =
     \<lparr>cfg_Wallet = counting_wallet MockWallet, cfg_GodotBin = rf_godotBin fl, cfg_ProjectPath = rf_projectPath fl,
      cfg_WorkRoot = Join2 (rf_replayRoot fl) ''.work'', cfg_BuyIn = rf_buyIn fl, cfg_RTPBps = ucast (rf_rtpBps fl),
      cfg_MaxMarbles = rf_marbles fl, cfg_SimTimeout = rf_simTimeout fl, cfg_TrackPool = [], cfg_oor = oor\<rparr>"

definition rgsd_secret :: "rgsd_flags \<Rightarrow> gerr + byte list option" where
  "rgsd_secret fl = (if rf_hmacSecret fl = [] then Inr None else map_sum id Some (hex_decode (rf_hmacSecret fl)))"

definition rgsd_start :: "(f64 \<Rightarrow> u64) \<Rightarrow> (string \<Rightarrow> gerr + disk) \<Rightarrow> rgsd_flags \<Rightarrow>
    int + ((mock_wallet \<times> registry) mgr_config \<times> (mock_wallet \<times> registry) api_state \<times> byte list option)" where
  "rgsd_start oor replay_New fl =
     (if rf_godotBin fl = [] \<or> rf_projectPath fl = [] \<or> rf_replayRoot fl = [] then Inl 2
      else
     (case replay_New (rf_replayRoot fl) of
        Inl e \<Rightarrow> Inl 1
      | Inr fs \<Rightarrow>
     (let w = (if 0 < rf_seedAlice fl then SetBalance ''alice'' (rf_seedAlice fl) NewMockWallet else NewMockWallet) in
      case rgsd_metrics of
        None \<Rightarrow> Inl 2
      | Some reg \<Rightarrow>
     (case NewManager True True True (rgsd_config oor fl) (w, reg) fs of
        Inl e \<Rightarrow> Inl 1
      | Inr (cfg, m) \<Rightarrow>
     (case rgsd_secret fl of
        Inl e \<Rightarrow> Inl 2
      | Inr secret \<Rightarrow> Inr (cfg, \<lparr>as_mgr = m, as_spawned = 0\<rparr>, secret))))))"

section \<open>The server\<close>

definition with_log :: "('s, 'd) handler \<Rightarrow> ('s, 'd) logged" where
  "with_log h r s = (case h r (fst s) of (ops, p, s') \<Rightarrow> (ops, p, (s', snd s)))"

definition rgsd_root :: "(f64 \<Rightarrow> string) \<Rightarrow> (rgs_doc \<Rightarrow> nat) \<Rightarrow> byte list option \<Rightarrow> ('w \<times> registry) mgr_config \<Rightarrow>
    chain_env \<Rightarrow> api_env \<Rightarrow> (('w \<times> registry) api_state, rgs_doc) logged" where
  "rgsd_root g dlen secret cfg cenv aenv r s =
     (if mux_redirects r then (ae_mux aenv r, None, s)
      else if has_prefix (rq_path r) ''/v1/'' then rgsd_chain cenv dlen secret (with_log (rgs_api cfg aenv)) r s
      else if rq_path r = ''/metrics'' then
        (case metrics_Handler g r (snd (mg_wallet (as_mgr (fst s)))) of (ops, p, reg) \<Rightarrow> (ops, p, s))
      else (ae_mux aenv r, None, s))"

text \<open>What \<open>main\<close> does with the result of \<open>ListenAndServe\<close>: the exit code of the process.\<close>

datatype listen_error = ServerClosed | ListenFailed gerr

definition rgsd_exit :: "listen_error option \<Rightarrow> int" where
  "rgsd_exit err = (if err \<noteq> None \<and> err \<noteq> Some ServerClosed then 1 else 0)"

section \<open>Lemmas\<close>

lemma digits_value_parse:
  "parse_digits k s = Inr n \<Longrightarrow> all_digits_from i s \<and> digits_value (of_nat k) s = of_nat n"
proof (induction k s arbitrary: i rule: parse_digits.induct)
  case (2 k c cs)
  then have d: "is_digit c" "\<not> two64 \<le> 10 * k + digit_val c" "parse_digits (10 * k + digit_val c) cs = Inr n"
    by (auto split: if_splits)
  have "(of_nat (10 * k + digit_val c) :: 64 word) = of_nat k * 10 + of_nat (digit_val c)" by (simp add: mult.commute)
  with d "2.IH" [OF _ d(2,3)] show ?case by (simp add: mult.commute)
qed simp

lemma sint_small:
  "- 9223372036854775808 \<le> k \<Longrightarrow> k < 9223372036854775808 \<Longrightarrow> sint (of_int k :: 64 word) = k"
  by (simp add: signed_of_int signed_take_bit_int_eq_self)

lemma parse_uint_digits:
  assumes "parse_uint t = Inr u"
  shows "t \<noteq> [] \<and> all_digits_from i t \<and> digits_value 0 t = of_nat (unat u)"
proof -
  obtain n where n: "t \<noteq> []" "parse_digits 0 t = Inr n" "u = of_nat n"
    using assms by (cases "parse_digits 0 t") (auto simp: parse_uint_def split: if_splits)
  then show ?thesis using digits_value_parse [of 0 t n i] by simp
qed

lemma rgs_api_mgr_move:
  assumes "seed_ok (ae_seed env)" and "seed_ok (re_seed (ae_run env))" and "rgs_api cfg env r st = (ops, p, st')"
  shows "mgr_move cfg (as_mgr st) (as_mgr st')"
  using rgs_api_move [OF assms(1,2), of cfg st r] assms(3) by simp

text \<open>The chain moves the state as the handler behind it does, or not at all.\<close>

lemma rgsd_chain_state:
  obtains "fst (snd (snd (rgsd_chain cenv dlen secret (with_log h) r s))) = fst s"
  | q where "fst (snd (snd (rgsd_chain cenv dlen secret (with_log h) r s))) = snd (snd (h q (fst s)))"
proof -
  let ?rid = "if rq_header r ''X-Request-ID'' = [] then newRequestID (ce_rnd cenv) else rq_header r ''X-Request-ID''"
  let ?r1 = "r\<lparr>rq_ctx_id := ?rid\<rparr>"
  have inner: "fst (snd (snd (Logging dlen t1 t2 (Recovery k) r s))) = fst (snd (snd (k r s)))" for t1 t2 k
    by (auto simp: Logging_def Recovery_def Let_def split: prod.split option.split)
  have rid: "snd (snd (RequestID (ce_rnd cenv) k r s)) = snd (snd (k ?r1 s))" for k
    by (simp add: RequestID_def Let_def split: prod.split)
  have wl: "fst (snd (snd (with_log h q s))) = snd (snd (h q (fst s)))" for q
    by (simp add: with_log_def split: prod.split)
  show thesis
  proof (cases secret)
    case None
    with that(2) [of ?r1] show thesis by (simp add: rgsd_chain_def inner rid wl)
  next
    case (Some k)
    let ?hm = "HMAC (ce_auth cenv) \<lparr>hc_Secret = k, hc_MaxClockSkew = 0, hc_SkipPaths = [''/v1/health'']\<rparr> (with_log h)"
    have "fst (snd (snd (?hm ?r1 s))) = fst s \<or> (\<exists>q. fst (snd (snd (?hm ?r1 s))) = snd (snd (h q (fst s))))"
      by (auto simp: HMAC_def Let_def wl split: sum.split)
    with Some that show thesis by (auto simp: rgsd_chain_def inner rid Let_def)
  qed
qed

lemma rgsd_chain_no_panic: "fst (snd (rgsd_chain cenv dlen secret h r s)) = None"
  by (auto simp: rgsd_chain_def Logging_def Recovery_def Let_def split: prod.split option.split)

section \<open>Properties\<close>

text \<open>
  Where \<open>strconv.Atoi\<close> reads an integer without a plus sign, \<open>parseIntStrict\<close> reads the
  same one.
\<close>

theorem parseIntStrict_agrees:
  assumes "parse_int64 s = Inr n" and "hd s \<noteq> CHR ''+''"
  shows "parseIntStrict s = Inr n"
proof (cases s)
  case Nil
  with assms(1) show ?thesis by (simp add: parse_int64_def)
next
  case (Cons c cs)
  show ?thesis
  proof (cases "c = CHR ''-''")
    case True
    then obtain u where u: "parse_uint cs = Inr u" "unat u \<le> 9223372036854775808" "n = - int (unat u)"
      using assms(1) Cons by (auto simp: parse_int64_def Let_def split: sum.splits if_splits)
    note d = parse_uint_digits [OF u(1), of "Suc 0"]
    have "digits_value 0 cs * - 1 = of_int n" using d u(3) by simp
    moreover have "sint (of_int n :: 64 word) = n" using u(2,3) by (intro sint_small) linarith+
    ultimately show ?thesis using d Cons True by (simp add: parseIntStrict_def del: of_nat_unat)
  next
    case False
    then obtain u where u: "parse_uint s = Inr u" "unat u < 9223372036854775808" "n = int (unat u)"
      using assms Cons by (auto simp: parse_int64_def Let_def split: sum.splits if_splits)
    note d = parse_uint_digits [OF u(1), of 0]
    have "digits_value 0 s = of_int n" using d u(3) by simp
    moreover have "sint (of_int n :: 64 word) = n" using u(2,3) by (intro sint_small) linarith+
    ultimately show ?thesis using d Cons False by (simp add: parseIntStrict_def)
  qed
qed

theorem parseIntStrict_agrees_witness:
  "parseIntStrict ''-42'' = Inr (- 42)"
  by (rule parseIntStrict_agrees) (simp_all add: parse_int64_def parse_uint_def is_digit_def digit_val_def Let_def)

text \<open>
  Beyond that they differ: a lone minus sign is 0, a value beyond 64 bits wraps around, and a
  plus sign is refused.
\<close>

lemma parseIntStrict_differs:
  "parseIntStrict ''-'' = Inr 0 \<and> parse_int64 ''-'' = Inl (Errorf ''invalid syntax'')"
  "parseIntStrict ''18446744073709551617'' = Inr 1 \<and>
   parse_int64 ''18446744073709551617'' = Inl (Errorf ''value out of range'')"
  "parseIntStrict ''+5'' = Inl (Errorf ''not an integer'') \<and> parse_int64 ''+5'' = Inr 5"
  by (simp_all add: parseIntStrict_def parse_int64_def parse_uint_def is_digit_def digit_val_def Let_def)

text \<open>
  C22: the daemon answers every request without a panic, and a request changes the manager by
  at most one of its own calls; with a secret configured, a request outside the health path
  whose signature does not verify changes nothing at all behind the log.
\<close>

theorem daemon_serves_safely:
  assumes "seed_ok (ae_seed aenv)" and "seed_ok (re_seed (ae_run aenv))"
    and "rgsd_root g dlen secret cfg cenv aenv r s = (ops, p, s')"
  shows "p = None \<and> mgr_move cfg (as_mgr (fst s)) (as_mgr (fst s')) \<and>
    (\<forall>k e. secret = Some k \<and> \<not> has_prefix (rq_path r) ''/v1/health'' \<and>
       verifyHMAC (ce_auth cenv) (rgsd_hmac k) r = Inl e \<longrightarrow> fst s' = fst s)"
proof (cases "has_prefix (rq_path r) ''/v1/'' \<and> \<not> mux_redirects r")
  case True
  then have run: "rgsd_chain cenv dlen secret (with_log (rgs_api cfg aenv)) r s = (ops, p, s')"
    using assms(3) by (simp add: rgsd_root_def)
  have "p = None" using rgsd_chain_no_panic [of cenv dlen secret "with_log (rgs_api cfg aenv)" r s] run by simp
  moreover have "mgr_move cfg (as_mgr (fst s)) (as_mgr (fst s'))"
    using rgsd_chain_state [of cenv dlen secret "rgs_api cfg aenv" r s] rgs_api_move [OF assms(1,2)] mgr_moveI(1) run
    by (metis snd_conv)
  moreover have "fst s' = fst s" if "secret = Some k" "\<not> has_prefix (rq_path r) ''/v1/health''"
    "verifyHMAC (ce_auth cenv) (rgsd_hmac k) r = Inl e" for k e
    using rgsd_chain_refused [OF that(2,3), of dlen "with_log (rgs_api cfg aenv)" "fst s" "snd s"] run that(1) by auto
  ultimately show ?thesis by blast
next
  case False
  then have "p = None" "s' = s"
    using assms(3) by (auto simp: rgsd_root_def metrics_Handler_def split: if_splits)
  then show ?thesis by (simp add: mgr_moveI(1))
qed

lemma rgsd_secret_None: "rgsd_secret fl = Inr secret \<Longrightarrow> secret = None \<longleftrightarrow> rf_hmacSecret fl = []"
  by (cases "hex_decode (rf_hmacSecret fl)") (auto simp: rgsd_secret_def split: if_splits)

text \<open>A daemon that starts has a fresh manager whose players are those of the seeded wallet.\<close>

lemma rgsd_start_init:
  assumes "rgsd_start oor nw fl = Inr (cfg, st, secret)"
  shows "api_init st \<and> cfg = default_config (rgsd_config oor fl) \<and> 0 < cfg_MaxMarbles cfg \<and> cfg_TrackPool cfg \<noteq> [] \<and>
    (secret = None \<longleftrightarrow> rf_hmacSecret fl = []) \<and>
    mock_bal (fst (mg_wallet (as_mgr st))) = (if 0 < rf_seedAlice fl then [''alice'' \<mapsto> unat (rf_seedAlice fl)] else Map.empty)"
  using assms
  by (auto simp: rgsd_start_def NewManager_def Let_def rgsd_secret_None api_init_def fresh_mgr_def default_config_def
      rgsd_config_def blank_mgr_def mock_bal_def SetBalance_def NewMockWallet_def fun_eq_iff split: if_splits sum.splits option.splits)

definition daemon_cfg :: "(mock_wallet \<times> registry) mgr_config" where
  "daemon_cfg = \<lparr>cfg_Wallet = counting_wallet MockWallet, cfg_GodotBin = ''godot'', cfg_ProjectPath = ''game'',
     cfg_WorkRoot = ''w'', cfg_BuyIn = 100, cfg_RTPBps = 9500, cfg_MaxMarbles = 20, cfg_SimTimeout = 60000000000,
     cfg_TrackPool = [0, 1, 2, 3, 4, 5], cfg_oor = (\<lambda>_. 0)\<rparr>"

definition daemon_start :: "(mock_wallet \<times> registry) api_state \<times> log_entry list" where
  "daemon_start = (\<lparr>as_mgr = blank_mgr (NewMockWallet, the rgsd_metrics) [], as_spawned = 0\<rparr>, [])"

theorem daemon_serves_safely_witness:
  "fst (snd (snd (rgsd_root (\<lambda>_. []) (\<lambda>_. 0) (Some [1]) daemon_cfg demo_chain_env demo_api_env (demo_request []) daemon_start)))
   = fst daemon_start"
proof -
  obtain ops p s' where run: "rgsd_root (\<lambda>_. []) (\<lambda>_. 0) (Some [1]) daemon_cfg demo_chain_env demo_api_env (demo_request [])
      daemon_start = (ops, p, s')" by (metis prod.collapse)
  have "seed_ok (ae_seed demo_api_env)" "seed_ok (re_seed (ae_run demo_api_env))"
    by (simp_all add: seed_ok_def demo_api_env_def demo_run_env_def)
  moreover have "\<not> has_prefix (rq_path (demo_request [])) ''/v1/health''"
    "verifyHMAC (ce_auth demo_chain_env) (rgsd_hmac [1]) (demo_request []) = Inl (Errorf ''missing X-Signature'')"
    by (simp_all add: demo_request_def has_prefix_def verifyHMAC_def)
  ultimately have "fst s' = fst daemon_start"
    using daemon_serves_safely [OF _ _ run] by blast
  with run show ?thesis by simp
qed

end
