(* ===== verification/Manager_Round.thy ===== *)
theory Manager_Round
  imports Manager_Props
begin

text \<open>
  The round that goes through (server/rgs/manager.go, \<open>RunNextRound\<close>): when it does, what it
  publishes about the announced round, and whom it pays.
\<close>

section \<open>When a run goes through\<close>

lemma run_settle_ok:
  assumes ps: "distinct ps" "\<forall>p \<in> set ps. racing (mg_heap m p)"
    and "settle \<lparr>RTPBasisPoints = cfg_RTPBps cfg\<rparr> (replicate (nat (cfg_MaxMarbles cfg)) (cfg_BuyIn cfg))
      (sim_WinnerMarbleIndex simRes) = Inr (prize, house)"
    and "credit_winners (cfg_Wallet cfg) (sim_WinnerMarbleIndex simRes) prize (map (mg_heap m) ps) (mg_wallet m) = (None, w1)"
    and "persist_round env (manifest_of (pr_spec (mg_rounds m pr)) r revealed simRes) (sim_ReplayPath simRes) (mg_disk m) =
      (Inr mf, fs)"
    and "settle_round_bets (cfg_Wallet cfg) (cfg_oor cfg) (sim_WinnerMarbleIndex simRes) (pr_bets (mg_rounds m pr)) w1 =
      (Inr rbs, w2)"
  shows "\<exists>outs m'. run_settle cfg env ps pr r simRes revealed m = Some (Inr (mf, outs, rbs), m')"
proof -
  let ?w = "sim_WinnerMarbleIndex simRes"
  obtain h' where eq: "settle_sessions (cfg_Wallet cfg) (re_settle env) ?w prize ps (mg_heap m) (mg_wallet m) =
      (case credit_winners (cfg_Wallet cfg) ?w prize (map (mg_heap m) ps) (mg_wallet m) of
       (None, w') \<Rightarrow> Some (Inr (map (\<lambda>p. session_outcome (re_settle env) ?w prize (the (ses_Bet (mg_heap m p)))) ps),
                         settle_heap (re_settle env) ?w prize ps (mg_heap m), w')
     | (Some e, w') \<Rightarrow> Some (Inl (Wrapf ''rgs: credit winner'' e), h', w'))"
    using settle_sessions_eq [OF ps, of "cfg_Wallet cfg" "re_settle env" ?w prize "mg_wallet m"] by blast
  show ?thesis
    using assms(3-6) eq by (simp add: run_settle_def Let_def)
qed

text \<open>What the environment and the wallet have to deliver, in the order the run needs it.\<close>

definition run_ready :: "'w mgr_config \<Rightarrow> run_env \<Rightarrow> nat \<Rightarrow> nat list \<Rightarrow> 'w mgr \<Rightarrow> bool" where
  "run_ready cfg env pr ps m \<longleftrightarrow>
     (\<exists>simRes prize house w1 rbs w2 bytes.
        let winner = sim_WinnerMarbleIndex simRes; spec = pr_spec (mg_rounds m pr) in
        (\<forall>req. sr_RoundID req = sp_RoundID spec \<and> sr_TrackID req = sp_TrackID spec \<longrightarrow> re_sim env req = Inr simRes) \<and>
        settle \<lparr>RTPBasisPoints = cfg_RTPBps cfg\<rparr> (replicate (nat (cfg_MaxMarbles cfg)) (cfg_BuyIn cfg)) winner =
          Inr (prize, house) \<and>
        (if winner < int (length ps)
         then (let s = mg_heap m (ps ! nat winner) in
               w_Credit (cfg_Wallet cfg) (ses_PlayerID s) prize (bet_BetID (the (ses_Bet s)) @ '':credit'') (mg_wallet m) = (None, w1))
         else w1 = mg_wallet m) \<and>
        re_open env (sim_ReplayPath simRes) = Inr bytes \<and>
        (\<forall>c. c \<noteq> RemoveTmp \<longrightarrow> se_fault (re_save env) c = None) \<and>
        sp_RoundID spec \<noteq> 0 \<and> map_of (mg_disk m) (roundDir (sp_RoundID spec)) = None \<and>
        map_of (mg_disk m) (tmp_name (re_save env) (sp_RoundID spec)) = None \<and>
        settle_round_bets (cfg_Wallet cfg) (cfg_oor cfg) winner (pr_bets (mg_rounds m pr)) w1 = (Inr rbs, w2))"

text \<open>The manifest of a raced field is one the store accepts.\<close>

lemma field_manifest_valid:
  assumes "sp_RoundID spec \<noteq> 0" and "0 < cfg_MaxMarbles cfg" and "int (length names) \<le> cfg_MaxMarbles cfg"
    and "length seed = 32"
  shows "validateManifestForSave (Some (manifest_of spec (field_round cfg env spec seed names) seed simRes)) = None"
proof -
  have "length (hex_encode seed) = 64" "length (hex_encode (sha256 seed)) = 64" using assms(4) by simp_all
  then have "hex_encode seed \<noteq> []" "hex_encode (sha256 seed) \<noteq> []" by fastforce+
  moreover have "entrants 0 (field_names (cfg_MaxMarbles cfg) names) \<noteq> []"
    using length_field_names [OF assms(3)] assms(2) by (metis length_entrants list.size(3) nat_0_iff not_le)
  ultimately show ?thesis
    using assms(1) by (simp add: validateManifestForSave_def manifest_of_def field_round_def new_round_def
        round_CommitHash_def round_Participants_def)
qed

lemma persist_round_ok:
  assumes "re_open env path = Inr bytes" and "\<forall>c. c \<noteq> RemoveTmp \<longrightarrow> se_fault (re_save env) c = None"
    and "validateManifestForSave (Some mf) = None" and "map_of fs (roundDir (mf_RoundID mf)) = None"
    and "map_of fs (tmp_name (re_save env) (mf_RoundID mf)) = None"
  shows "\<exists>mf' fs'. persist_round env mf path fs = (Inr mf', fs')"
proof -
  obtain e m' tr where sv: "Save (re_save env) (Some mf) bytes fs = (e, m', tr)" by (cases "Save (re_save env) (Some mf) bytes fs")
  with save_no_fault [OF assms(2-5), of bytes] have "e = None" by simp
  with sv assms(1) show ?thesis by (simp add: persist_round_def)
qed

lemma raced_bet:
  "waiting s \<Longrightarrow> the (ses_Bet (raced now i s)) = (the (ses_Bet s))\<lparr>bet_MarbleIndex := i\<rparr>"
  by (auto simp: waiting_def)

lemma run_round_ok:
  assumes cfg: "cfg_ok cfg" and entry: "round_entry_ok cfg m pr" and clk: "clock_ok env"
    and ps: "distinct ps" "\<forall>p \<in> set ps. waiting (mg_heap m p)"
      "[] \<notin> set (map (\<lambda>p. ses_PlayerID (mg_heap m p)) ps)" "int (length ps) \<le> cfg_MaxMarbles cfg"
    and ready: "run_ready cfg env pr ps m"
  shows "\<exists>mf outs rbs m'. run_round cfg env ps pr m = Some (Inr (mf, outs, rbs), m')"
proof -
  let ?names = "map (\<lambda>p. ses_PlayerID (mg_heap m p)) ps"
  let ?spec = "pr_spec (mg_rounds m pr)"
  obtain seed where seed: "hex_decode (sp_ServerSeedHex ?spec) = Inr seed" "seed32 seed = seed" "length seed = 32"
    using hex_decode_seed [OF entry] seed32_id by blast
  let ?r = "field_round cfg env ?spec seed ?names"
  have bld: "build_round cfg env ?spec seed ?names = Inr ?r"
    using build_round_eq [OF ps(3), of cfg env ?spec seed] cfg ps(4) by (simp add: cfg_ok_def)
  obtain h where h: "assign_all (re_assign env) 0 ps (mg_heap m) = (None, h)"
      "\<forall>k < length ps. h (ps ! k) = raced (re_assign env) (int k) (mg_heap m (ps ! k))"
    using assign_all_ok [OF ps(1,2), of "re_assign env" 0] by auto
  have racing: "\<forall>p \<in> set ps. racing (h p)"
    by (metis h(2) ps(2) in_set_conv_nth raced_sel(2,3) racing_def waiting_def option.map_disc_iff)
  obtain simRes prize house w1 rbs w2 bytes where
    sim: "\<forall>req. sr_RoundID req = sp_RoundID ?spec \<and> sr_TrackID req = sp_TrackID ?spec \<longrightarrow> re_sim env req = Inr simRes"
    and st: "settle \<lparr>RTPBasisPoints = cfg_RTPBps cfg\<rparr> (replicate (nat (cfg_MaxMarbles cfg)) (cfg_BuyIn cfg))
        (sim_WinnerMarbleIndex simRes) = Inr (prize, house)"
    and cr: "if sim_WinnerMarbleIndex simRes < int (length ps)
         then w_Credit (cfg_Wallet cfg) (ses_PlayerID (mg_heap m (ps ! nat (sim_WinnerMarbleIndex simRes)))) prize
           (bet_BetID (the (ses_Bet (mg_heap m (ps ! nat (sim_WinnerMarbleIndex simRes))))) @ '':credit'') (mg_wallet m) = (None, w1)
         else w1 = mg_wallet m"
    and sv: "re_open env (sim_ReplayPath simRes) = Inr bytes" "\<forall>c. c \<noteq> RemoveTmp \<longrightarrow> se_fault (re_save env) c = None"
      "sp_RoundID ?spec \<noteq> 0" "map_of (mg_disk m) (roundDir (sp_RoundID ?spec)) = None"
      "map_of (mg_disk m) (tmp_name (re_save env) (sp_RoundID ?spec)) = None"
    and rb: "settle_round_bets (cfg_Wallet cfg) (cfg_oor cfg) (sim_WinnerMarbleIndex simRes) (pr_bets (mg_rounds m pr)) w1 = (Inr rbs, w2)"
    using ready unfolding run_ready_def Let_def by blast
  let ?w = "sim_WinnerMarbleIndex simRes"
  have w: "0 \<le> ?w" using st by (auto simp: settle_Inr_iff)
  have bets: "the (ses_Bet (h (ps ! k))) = (the (ses_Bet (mg_heap m (ps ! k))))\<lparr>bet_MarbleIndex := int k\<rparr> \<and>
      ses_PlayerID (h (ps ! k)) = ses_PlayerID (mg_heap m (ps ! k))" if "k < length ps" for k
    using that h(2) ps(2) nth_mem [OF that] by (simp add: raced_bet del: raced_sel(3))
  have "\<forall>k < length (map h ps). marble_of (map h ps ! k) = 0 + int k"
    using bets by (simp add: marble_of_def)
  note eq = credit_winners_marbles [OF this, of "cfg_Wallet cfg" ?w prize "mg_wallet m"]
  have credit: "credit_winners (cfg_Wallet cfg) ?w prize (map h ps) (mg_wallet m) = (None, w1)"
  proof (cases "?w < int (length ps)")
    case True
    then have k: "nat ?w < length ps" using w by linarith
    with eq cr w True bets [OF k] show ?thesis by (simp add: Let_def)
  next
    case False
    with eq cr w show ?thesis by simp
  qed
  let ?r2 = "?r\<lparr>rnd_phase := PhaseSettle, rnd_phaseStart := re_finish env, rnd_hasResult := True,
      rnd_result := \<lparr>res_WinnerIndex = ?w, res_FinishedAt = re_finish env\<rparr>\<rparr>"
  have race: "run_race cfg env ?spec seed ?r = Inr (simRes, ?r2, seed)"
    using run_race_ok [OF clk, of ?r cfg ?spec seed] sim
    by (simp add: field_round_def new_round_def sim_request_of_def)
  have valid: "validateManifestForSave (Some (manifest_of ?spec ?r2 seed simRes)) = None"
    unfolding run_race_manifest(2) [OF race]
    using field_manifest_valid [of ?spec cfg ?names seed env simRes] sv(3) cfg ps(4) seed(3)
    by (simp add: cfg_ok_def)
  have rid: "mf_RoundID (manifest_of ?spec ?r2 seed simRes) = sp_RoundID ?spec" by (simp add: manifest_of_def)
  obtain mf fs where "persist_round env (manifest_of ?spec ?r2 seed simRes) (sim_ReplayPath simRes) (mg_disk m) = (Inr mf, fs)"
    using persist_round_ok [OF sv(1,2) valid, of "mg_disk m", unfolded rid, OF sv(4,5)] by blast
  then have "\<exists>outs m'. run_settle cfg env ps pr ?r2 simRes seed (m\<lparr>mg_heap := h\<rparr>) = Some (Inr (mf, outs, rbs), m')"
    using ps(1) racing st credit rb by (intro run_settle_ok) auto
  with seed bld h(1) race show ?thesis by (auto simp: run_round_def Let_def)
qed

section \<open>The announced round, from the queue on\<close>

lemma persist_round_Inr:
  assumes "persist_round env mf0 path fs = (Inr mf, fs')"
  shows "\<exists>bytes. re_open env path = Inr bytes \<and> mf = stamped (re_save env) bytes mf0 \<and>
    published (re_save env) mf0 bytes fs fs'"
proof -
  obtain bytes where b: "re_open env path = Inr bytes"
    using assms by (cases "re_open env path") (simp_all add: persist_round_def)
  obtain e m' tr where sv: "Save (re_save env) (Some mf0) bytes fs = (e, m', tr)"
    by (cases "Save (re_save env) (Some mf0) bytes fs")
  with assms b have "e = None" "mf = the m'" "fs' = last tr"
    by (auto simp: persist_round_def split: option.splits)
  with b sv Save_run [of "re_save env" mf0 bytes fs] show ?thesis by (auto simp: saved_run_def)
qed

lemma announced_entry:
  assumes "mgr_inv cfg m" and "mg_pendingRounds m = pr # prs"
  shows "round_entry_ok cfg (consumed m) pr"
  using assms by (simp add: mgr_inv_def rounds_ok_def round_entry_ok_def)

lemma round_account_consumed:
  "round_account cfg env spec seed bets ps (consumed m) mf outs rbs m' =
    round_account cfg env spec seed bets ps m mf outs rbs m'"
  by (simp only: round_account_def consumed_sel)

lemma announced_account:
  assumes "reach fresh_mgr (mgr_step cfg) m" and "cfg_ok cfg" and "mg_pendingRounds m = pr # prs"
    and "RunNextRound cfg env m = Some (Inr (mf, outs, rbs), m')"
  shows "\<exists>seed. length seed = 32 \<and> sp_ServerSeedHex (pr_spec (mg_rounds m pr)) = hex_encode seed \<and>
    round_account cfg env (pr_spec (mg_rounds m pr)) seed (pr_bets (mg_rounds m pr)) (mg_pending m) m mf outs rbs m' \<and>
    mg_pending m' = [] \<and> mg_pendingRounds m' = prs \<and> mg_sessions m' = mg_sessions m"
proof -
  have inv: "mgr_inv cfg m" using mgr.reach_inv [OF assms(1)] assms(2) by simp
  note q = queue_waiting [OF inv]
  have "run_round cfg env (mg_pending m) pr (consumed m) = Some (Inr (mf, outs, rbs), m')"
    using assms(4) unfolding run_announced [OF assms(3)] .
  note run_round_Inr [OF this assms(2) announced_entry [OF inv assms(3)], unfolded consumed_sel round_account_consumed,
      OF q]
  with assms(3) show ?thesis by simp
qed

lemma announced_runs:
  assumes "reach fresh_mgr (mgr_step cfg) m" and "cfg_ok cfg" and "mg_pendingRounds m = pr # prs"
    and "int (length (mg_pending m)) \<le> cfg_MaxMarbles cfg" and "clock_ok env"
    and "run_ready cfg env pr (mg_pending m) m"
  shows "\<exists>mf outs rbs m'. RunNextRound cfg env m = Some (Inr (mf, outs, rbs), m')"
proof -
  have inv: "mgr_inv cfg m" using mgr.reach_inv [OF assms(1)] assms(2) by simp
  have "run_ready cfg env pr (mg_pending m) (consumed m)"
    using assms(6) by (simp only: run_ready_def consumed_sel)
  then show ?thesis
    unfolding run_announced [OF assms(3)] using queue_waiting [OF inv] assms(4)
    by (intro run_round_ok assms announced_entry [OF inv assms(3)]) auto
qed

section \<open>Properties\<close>

text \<open>
  C18: an announced round whose field the bets fit into runs to the end when the simulator,
  the prize, the wallet and the disk deliver what \<open>run_ready\<close> lists: the call succeeds, every
  queued session is SETTLED with its bet cleared, and the queue is empty.
\<close>

theorem round_runs_to_settlement:
  assumes "reach fresh_mgr (mgr_step cfg) m" and "cfg_ok cfg" and "mg_pendingRounds m = pr # prs"
    and "int (length (mg_pending m)) \<le> cfg_MaxMarbles cfg" and "clock_ok env"
    and "run_ready cfg env pr (mg_pending m) m"
  shows "\<exists>mf outs rbs m'. RunNextRound cfg env m = Some (Inr (mf, outs, rbs), m') \<and>
    mg_pending m' = [] \<and> mg_pendingRounds m' = prs \<and>
    (\<forall>p \<in> set (mg_pending m). ses_State (mg_heap m' p) = SessionSettled \<and> ses_Bet (mg_heap m' p) = None)"
proof -
  obtain mf outs rbs m' where run: "RunNextRound cfg env m = Some (Inr (mf, outs, rbs), m')"
    using announced_runs [OF assms] by blast
  from announced_account [OF assms(1-3) run] run show ?thesis
    by (auto simp: round_account_def Let_def in_set_conv_nth)
qed

text \<open>
  C4: a successful run publishes the round that was announced: the manifest names its id,
  track and seed, the published hash is the SHA-256 of that seed, the field is the bettors in
  betting order and then fillers, on marbles 0, 1, 2, ..., the winner is the answer of a
  simulator that was given this round, seed and track, and the manifest is in the store.
\<close>

theorem run_honours_announcement:
  assumes "reach fresh_mgr (mgr_step cfg) m" and "cfg_ok cfg" and "mg_pendingRounds m = pr # prs"
    and "RunNextRound cfg env m = Some (Inr (mf, outs, rbs), m')"
    and "spec = pr_spec (mg_rounds m pr)"
  shows "mf_RoundID mf = sp_RoundID spec \<and> mf_TrackID mf = sp_TrackID spec \<and>
    mf_ServerSeedHex mf = sp_ServerSeedHex spec \<and>
    map mp_Name (mf_Participants mf) =
      field_names (cfg_MaxMarbles cfg) (map (\<lambda>p. ses_PlayerID (mg_heap m p)) (mg_pending m)) \<and>
    map mp_MarbleIndex (mf_Participants mf) = map int [0..<nat (cfg_MaxMarbles cfg)] \<and>
    (\<exists>seed req simRes bytes. sp_ServerSeedHex spec = hex_encode seed \<and>
       mf_ServerSeedHashHex mf = hex_encode (sha256 seed) \<and>
       sr_RoundID req = sp_RoundID spec \<and> sr_TrackID req = sp_TrackID spec \<and> sr_ServerSeed req = seed \<and>
       re_sim env req = Inr simRes \<and> mw_MarbleIndex (mf_Winner mf) = sim_WinnerMarbleIndex simRes \<and>
       map_of (mg_disk m') (roundDir (sp_RoundID spec)) = Some (stored mf bytes))"
proof -
  obtain seed simRes where seed: "sp_ServerSeedHex spec = hex_encode seed"
    and acc: "re_sim env (sim_request_of cfg spec seed (re_workDir env) (field_round cfg env spec seed
        (map (\<lambda>p. ses_PlayerID (mg_heap m p)) (mg_pending m)))) = Inr simRes"
      "int (length (mg_pending m)) \<le> cfg_MaxMarbles cfg"
      "persist_round env (manifest_of spec (field_round cfg env spec seed
        (map (\<lambda>p. ses_PlayerID (mg_heap m p)) (mg_pending m))) seed simRes) (sim_ReplayPath simRes) (mg_disk m)
       = (Inr mf, mg_disk m')"
    using announced_account [OF assms(1-4)] by (auto simp: round_account_def Let_def assms(5))
  let ?names = "map (\<lambda>p. ses_PlayerID (mg_heap m p)) (mg_pending m)"
  let ?req = "sim_request_of cfg spec seed (re_workDir env) (field_round cfg env spec seed ?names)"
  obtain bytes where mf: "mf = stamped (re_save env) bytes
        (manifest_of spec (field_round cfg env spec seed ?names) seed simRes)"
      and pub: "published (re_save env) (manifest_of spec (field_round cfg env spec seed ?names) seed simRes)
        bytes (mg_disk m) (mg_disk m')"
    using persist_round_Inr [OF acc(3)] by blast
  have "map_of (mg_disk m') (roundDir (sp_RoundID spec)) = Some (stored mf bytes)"
    using pub mf by (simp add: published_def manifest_of_def)
  moreover have "sr_RoundID ?req = sp_RoundID spec \<and> sr_TrackID ?req = sp_TrackID spec \<and> sr_ServerSeed ?req = seed"
    by (simp add: sim_request_of_def)
  moreover have "map mp_MarbleIndex (mf_Participants mf) = map int [0..<nat (cfg_MaxMarbles cfg)]"
    "map mp_Name (mf_Participants mf) = field_names (cfg_MaxMarbles cfg) ?names"
    using length_field_names [of ?names "cfg_MaxMarbles cfg"] acc(2)
    by (auto simp: mf stamped_def manifest_of_def field_round_def round_Participants_def entrant_def
        nth_entrants intro!: nth_equalityI)
  moreover have "mf_RoundID mf = sp_RoundID spec \<and> mf_TrackID mf = sp_TrackID spec \<and>
      mf_ServerSeedHex mf = hex_encode seed \<and> mf_ServerSeedHashHex mf = hex_encode (sha256 seed) \<and>
      mw_MarbleIndex (mf_Winner mf) = sim_WinnerMarbleIndex simRes"
    by (simp add: mf stamped_def manifest_of_def field_round_def new_round_def round_CommitHash_def)
  ultimately show ?thesis using seed acc(1) by auto
qed

text \<open>
  C2: a successful run pays once per round through the sessions: only the player whose
  session is on the winning marble is credited, with the prize of the field's pot, under the
  id of the winning bet; if a filler wins nobody is; then the bets on the round are settled.
  Every queued session records its own outcome, won exactly on the winning marble.
\<close>

theorem run_pays_the_winner:
  assumes "reach fresh_mgr (mgr_step cfg) m" and "cfg_ok cfg" and "mg_pendingRounds m = pr # prs"
    and "RunNextRound cfg env m = Some (Inr (mf, outs, rbs), m')"
    and "winner = mw_MarbleIndex (mf_Winner mf)"
  shows "\<exists>prize house w1.
    settle \<lparr>RTPBasisPoints = cfg_RTPBps cfg\<rparr> (replicate (nat (cfg_MaxMarbles cfg)) (cfg_BuyIn cfg)) winner =
      Inr (prize, house) \<and>
    (if 0 \<le> winner \<and> winner < int (length (mg_pending m))
     then (let s = mg_heap m (mg_pending m ! nat winner) in
           w_Credit (cfg_Wallet cfg) (ses_PlayerID s) prize (bet_BetID (the (ses_Bet s)) @ '':credit'') (mg_wallet m)
           = (None, w1))
     else w1 = mg_wallet m) \<and>
    settle_round_bets (cfg_Wallet cfg) (cfg_oor cfg) winner (pr_bets (mg_rounds m pr)) w1 = (Inr rbs, mg_wallet m') \<and>
    (\<forall>k < length (mg_pending m). ses_LastResult (mg_heap m' (mg_pending m ! k)) = Some (outs ! k) \<and>
       so_Won (outs ! k) = (int k = winner) \<and> so_PrizeAmount (outs ! k) = (if int k = winner then prize else 0) \<and>
       so_Amount (outs ! k) = bet_Amount (the (ses_Bet (mg_heap m (mg_pending m ! k)))))"
proof -
  obtain seed simRes prize house w1 where
    acc: "settle \<lparr>RTPBasisPoints = cfg_RTPBps cfg\<rparr> (replicate (nat (cfg_MaxMarbles cfg)) (cfg_BuyIn cfg))
        (sim_WinnerMarbleIndex simRes) = Inr (prize, house)"
      "if 0 \<le> sim_WinnerMarbleIndex simRes \<and> sim_WinnerMarbleIndex simRes < int (length (mg_pending m))
       then (let s = mg_heap m (mg_pending m ! nat (sim_WinnerMarbleIndex simRes)) in
           w_Credit (cfg_Wallet cfg) (ses_PlayerID s) prize (bet_BetID (the (ses_Bet s)) @ '':credit'') (mg_wallet m)
           = (None, w1))
       else w1 = mg_wallet m"
      "outs = map (\<lambda>k. bet_result env (sim_WinnerMarbleIndex simRes) prize k (mg_heap m (mg_pending m ! k)))
        [0..<length (mg_pending m)]"
      "\<forall>k < length (mg_pending m). ses_LastResult (mg_heap m' (mg_pending m ! k)) = Some (outs ! k)"
      "settle_round_bets (cfg_Wallet cfg) (cfg_oor cfg) (sim_WinnerMarbleIndex simRes) (pr_bets (mg_rounds m pr)) w1
        = (Inr rbs, mg_wallet m')"
    and pe: "persist_round env (manifest_of (pr_spec (mg_rounds m pr)) (field_round cfg env (pr_spec (mg_rounds m pr)) seed
        (map (\<lambda>p. ses_PlayerID (mg_heap m p)) (mg_pending m))) seed simRes) (sim_ReplayPath simRes) (mg_disk m)
       = (Inr mf, mg_disk m')"
    using announced_account [OF assms(1-4)] unfolding round_account_def Let_def by blast
  have "winner = sim_WinnerMarbleIndex simRes"
    using persist_round_Inr [OF pe] by (auto simp: assms(5) stamped_def manifest_of_def)
  note acc' = acc [folded this]
  have "so_Won (outs ! k) = (int k = winner) \<and> so_PrizeAmount (outs ! k) = (if int k = winner then prize else 0) \<and>
       so_Amount (outs ! k) = bet_Amount (the (ses_Bet (mg_heap m (mg_pending m ! k))))"
    if "k < length (mg_pending m)" for k
    using that by (simp add: acc'(3) bet_result_def session_outcome_def)
  with acc'(1,2,4,5) show ?thesis by blast
qed

section \<open>Witnesses\<close>

lemma demo_mgr_wallet:
  "balances (mg_wallet demo_mgr) ''alice'' = Some 900 \<and>
   applied (mg_wallet demo_mgr) (bet_BetID (the (ses_Bet (mg_heap demo_mgr 0))) @ '':credit'') = None \<and>
   mg_disk demo_mgr = []"
  by (simp add: demo_mgr_def demo_events_def demo_mgr0_def demo_cfg_def blank_mgr_def OpenSession_def
      PlaceBet_def Let_def MockWallet_def mock_debit_def SetBalance_def NewMockWallet_def
      new_session_def session_place_bet_def GenerateRoundSpec_def mgr_select_track_def)

definition demo_sim_result :: sim_result where
  "demo_sim_result = \<lparr>sim_RoundID = 11, sim_WinnerMarbleIndex = 0, sim_FinishTick = 900,
     sim_ReplayPath = ''replay.bin'', sim_ServerSeedHashHex = [], sim_TickRateHz = 60\<rparr>"

lemma demo_ready: "run_ready demo_cfg demo_run_env 0 (mg_pending demo_mgr) demo_mgr"
proof -
  let ?b = "the (ses_Bet (mg_heap demo_mgr 0))"
  have st: "settle \<lparr>RTPBasisPoints = 9500\<rparr> (replicate (nat 2) 100) 0 = Inr (190, 10)"
    by (simp add: settle_Inr_iff sum_list_replicate_nat)
  obtain w1 where "w_Credit MockWallet ''alice'' 190 (bet_BetID ?b @ '':credit'') (mg_wallet demo_mgr) = (None, w1)"
    using demo_mgr_wallet by (auto simp: mock_credit_def)
  then show ?thesis
    unfolding run_ready_def Let_def
    by (intro exI [of _ demo_sim_result] exI [of _ 190] exI [of _ 10] exI [of _ w1] exI [of _ "[]"] exI [of _ "[1, 2, 3]"])
      (use st demo_mgr_state demo_mgr_wallet in
        \<open>simp add: demo_run_env_def demo_sim_result_def demo_cfg_def demo_env_def\<close>)
qed

lemma demo_queue:
  "mg_pendingRounds demo_mgr = 0 # []" "int (length (mg_pending demo_mgr)) \<le> cfg_MaxMarbles demo_cfg"
  using demo_mgr_state by (simp_all add: demo_cfg_def)

theorem round_runs_to_settlement_witness:
  "\<exists>mf outs rbs m'. RunNextRound demo_cfg demo_run_env demo_mgr = Some (Inr (mf, outs, rbs), m') \<and>
     ses_State (mg_heap m' 0) = SessionSettled"
  using round_runs_to_settlement [OF demo_mgr_reach demo_cfg_ok demo_queue demo_clock(1) demo_ready]
    demo_mgr_state by auto

theorem run_honours_announcement_witness:
  "\<exists>mf outs rbs m'. RunNextRound demo_cfg demo_run_env demo_mgr = Some (Inr (mf, outs, rbs), m') \<and>
     mf_RoundID mf = 11 \<and> mf_TrackID mf = 3 \<and>
     map mp_Name (mf_Participants mf) = [''alice'', ''filler_01'']"
proof -
  obtain mf outs rbs m' where run: "RunNextRound demo_cfg demo_run_env demo_mgr = Some (Inr (mf, outs, rbs), m')"
    using announced_runs [OF demo_mgr_reach demo_cfg_ok demo_queue demo_clock(1) demo_ready] by blast
  have "field_names (cfg_MaxMarbles demo_cfg) [''alice''] = [''alice'', ''filler_01'']"
    by (simp add: field_names_def demo_cfg_def filler_name_def numeral_2_eq_2 format_nat.simps [of "Suc 0"] dec_digit_def char_of_def bit_Suc_0_iff)
  with run_honours_announcement [OF demo_mgr_reach demo_cfg_ok demo_queue(1) run refl] run demo_mgr_state
  show ?thesis by simp
qed

theorem run_pays_the_winner_witness:
  "\<exists>mf outs rbs m'. RunNextRound demo_cfg demo_run_env demo_mgr = Some (Inr (mf, outs, rbs), m') \<and>
     so_Amount (outs ! 0) = 100 \<and> so_Won (outs ! 0) = (0 = mw_MarbleIndex (mf_Winner mf))"
proof -
  obtain mf outs rbs m' where run: "RunNextRound demo_cfg demo_run_env demo_mgr = Some (Inr (mf, outs, rbs), m')"
    using announced_runs [OF demo_mgr_reach demo_cfg_ok demo_queue demo_clock(1) demo_ready] by blast
  with run_pays_the_winner [OF demo_mgr_reach demo_cfg_ok demo_queue(1) run refl] demo_mgr_state
  show ?thesis by auto
qed

end
