(* ===== verification/Roundd.thy ===== *)
theory Roundd
  imports Manager_Round
begin

text \<open>
  The batch daemon (server/cmd/roundd/main.go): one round from seed to audit entry with mock
  participants, and the loop over rounds that threads the last track.  The reading of seed,
  clock, simulator and disk is the environment record of \<open>Manager_Run\<close>.
\<close>

section \<open>The code\<close>

record round_config =
  rc_godotBin :: string
  rc_projectPath :: string
  rc_marbles :: int
  rc_rtpBps :: u32
  rc_buyIn :: u64
  rc_timeout :: int
  rc_liveStreamAddr :: string
  rc_previousTrack :: int

definition player_name :: "nat \<Rightarrow> string" where
  "player_name i = ''player_'' @ (if i < 10 then ''0'' else []) @ format_nat i"

definition roundd_request :: "round_config \<Rightarrow> u64 \<Rightarrow> byte list \<Rightarrow> u8 \<Rightarrow> string \<Rightarrow> participant list \<Rightarrow> sim_request" where
  "roundd_request cfg roundID seed trackID workDir parts =
     \<lparr>sr_GodotBin = rc_godotBin cfg, sr_ProjectPath = rc_projectPath cfg, sr_WorkDir = workDir,
      sr_RoundID = roundID, sr_ServerSeed = seed, sr_ClientSeeds = map part_ClientSeed parts,
      sr_TrackID = trackID, sr_Timeout = rc_timeout cfg, sr_LiveStreamAddr = rc_liveStreamAddr cfg\<rparr>"

definition roundd_manifest :: "u64 \<Rightarrow> u8 \<Rightarrow> round_state \<Rightarrow> byte list \<Rightarrow> participant list \<Rightarrow> sim_result \<Rightarrow> manifest" where
  "roundd_manifest roundID trackID r revealed parts simRes =
     \<lparr>mf_RoundID = roundID, mf_CreatedAt = 0, mf_ProtocolVersion = 3, mf_TickRateHz = sim_TickRateHz simRes,
      mf_TrackID = trackID, mf_ServerSeedHashHex = hex_encode (round_CommitHash r),
      mf_ServerSeedHex = hex_encode revealed,
      mf_Participants = map (\<lambda>p. \<lparr>mp_MarbleIndex = part_MarbleIndex p, mp_Name = part_Name p,
        mp_ClientSeed = part_ClientSeed p\<rparr>) parts,
      mf_Winner = \<lparr>mw_MarbleIndex = sim_WinnerMarbleIndex simRes, mw_FinishTick = sim_FinishTick simRes\<rparr>,
      mf_ReplaySHA256Hex = []\<rparr>"

text \<open>Steps 6 to 8: close the round, compute the payout, persist the entry.\<close>

definition roundd_finish :: "round_config \<Rightarrow> run_env \<Rightarrow> u64 \<Rightarrow> u8 \<Rightarrow> round_state \<Rightarrow> sim_result \<Rightarrow> disk \<Rightarrow>
    (gerr + u8) \<times> disk" where
  "roundd_finish cfg env roundID trackID r simRes fs =
     (case FinishRace \<lparr>res_WinnerIndex = sim_WinnerMarbleIndex simRes, res_FinishedAt = re_finish env\<rparr>
             (re_finish env) r of
        (Some e, r1) \<Rightarrow> (Inl (Wrapf ''FinishRace'' e), fs)
      | (None, r1) \<Rightarrow>
     (case round_RevealedSeed r1 of
        (revealed, False) \<Rightarrow> (Inl (Errorf ''seed unexpectedly not revealed in SETTLE''), fs)
      | (revealed, True) \<Rightarrow>
     (let parts = round_Participants r in
      case settle \<lparr>RTPBasisPoints = rc_rtpBps cfg\<rparr> (replicate (length parts) (rc_buyIn cfg))
             (sim_WinnerMarbleIndex simRes) of
        Inl e \<Rightarrow> (Inl (Wrapf ''rtp.Settle'' e), fs)
      | Inr (prize, houseCut) \<Rightarrow>
     (case re_open env (sim_ReplayPath simRes) of
        Inl e \<Rightarrow> (Inl (Wrapf ''open replay'' e), fs)
      | Inr bytes \<Rightarrow>
     (case Save (re_save env) (Some (roundd_manifest roundID trackID r1 revealed parts simRes)) bytes fs of
        (Some e, mf', tr) \<Rightarrow> (Inl (Wrapf ''store.Save'' e), last tr)
      | (None, mf', tr) \<Rightarrow> (Inr trackID, last tr))))))"

definition runOneRound :: "round_config \<Rightarrow> run_env \<Rightarrow> disk \<Rightarrow> ((gerr + u8) \<times> disk) option" where
  "runOneRound cfg env fs =
     (case re_seed env of
        Inl e \<Rightarrow> Some (Inl (Wrapf ''generate seed'' e), fs)
      | Inr seed \<Rightarrow>
     (let roundID = re_freshID env; r = new_round roundID seed (rc_marbles cfg) (re_now env) in
      case roundd_select_track roundID (rc_previousTrack cfg) selectableTrackIDs of
        None \<Rightarrow> None
      | Some trackID \<Rightarrow>
     (case OpenBuyIn (re_now env) r of
        (Some e, r0) \<Rightarrow> Some (Inl (Wrapf ''OpenBuyIn'' e), fs)
      | (None, r0) \<Rightarrow>
     (case add_all ''AddParticipant'' (map player_name [0..<nat (rc_marbles cfg)]) r0 of
        Inl e \<Rightarrow> Some (Inl e, fs)
      | Inr r1 \<Rightarrow>
     (case StartRace (re_start env) r1 of
        (Some e, r2) \<Rightarrow> Some (Inl (Wrapf ''StartRace'' e), fs)
      | (None, r2) \<Rightarrow>
     (case re_sim env (roundd_request cfg roundID seed trackID (re_workDir env) (round_Participants r2)) of
        Inl e \<Rightarrow> Some (Inl (Wrapf ''sim.Run'' e), fs)
      | Inr simRes \<Rightarrow> Some (roundd_finish cfg env roundID trackID r2 simRes fs)))))))"

text \<open>The loop of \<open>main\<close>: a failed round is logged and does not change the last track.\<close>

fun roundd_loop :: "round_config \<Rightarrow> int \<Rightarrow> run_env list \<Rightarrow> disk \<Rightarrow> ((gerr + u8) list \<times> disk) option" where
  "roundd_loop cfg previousTrack [] fs = Some ([], fs)"
| "roundd_loop cfg previousTrack (env # envs) fs =
     (case runOneRound (cfg\<lparr>rc_previousTrack := previousTrack\<rparr>) env fs of
        None \<Rightarrow> None
      | Some (res, fs1) \<Rightarrow>
          (case roundd_loop cfg (case res of Inl e \<Rightarrow> previousTrack | Inr picked \<Rightarrow> uint picked) envs fs1 of
             None \<Rightarrow> None
           | Some (ress, fs2) \<Rightarrow> Some (res # ress, fs2)))"

section \<open>One round\<close>

text \<open>What a finished round leaves on the disk.\<close>

definition audited :: "round_config \<Rightarrow> run_env \<Rightarrow> u8 \<Rightarrow> disk \<Rightarrow> bool" where
  "audited cfg env t fs \<longleftrightarrow> (\<exists>seed (simRes :: sim_result) mf bytes. re_seed env = Inr seed \<and>
     map_of fs (roundDir (re_freshID env)) = Some (stored mf bytes) \<and>
     mf_RoundID mf = re_freshID env \<and> mf_TrackID mf = t \<and> mf_ServerSeedHex mf = hex_encode seed \<and>
     mf_ServerSeedHashHex mf = hex_encode (sha256 seed) \<and>
     mf_ReplaySHA256Hex mf = hex_encode (sha256 bytes) \<and>
     map mp_Name (mf_Participants mf) = map player_name [0..<nat (rc_marbles cfg)] \<and>
     mw_MarbleIndex (mf_Winner mf) = sim_WinnerMarbleIndex simRes \<and>
     0 \<le> sim_WinnerMarbleIndex simRes \<and> sim_WinnerMarbleIndex simRes < rc_marbles cfg)"

lemma roundd_field:
  assumes "OpenBuyIn now (new_round rid seed n now) = (None, r0)"
    and "add_all msg (map player_name [0..<nat n]) r0 = Inr r1" and "StartRace t r1 = (None, r2)"
  shows "map part_Name (round_Participants r2) = map player_name [0..<nat n]" and "rnd_serverSeed r2 = seed"
    and "round_CommitHash r2 = sha256 seed" and "rnd_phase r2 = PhaseRacing"
proof -
  have r0: "r0 = (new_round rid seed n now)\<lparr>rnd_phase := PhaseBuyIn\<rparr>"
    using assms(1) by (simp add: OpenBuyIn_def round_advance_def new_round_def)
  let ?ns = "map player_name [0..<nat n]"
  have "[] \<notin> set ?ns" by (auto simp: player_name_def)
  moreover have "int (length ?ns) \<le> rnd_maxMarbles r0" if "0 \<le> n" using that by (simp add: r0 new_round_def)
  moreover have "?ns = []" if "n < 0" using that by simp
  ultimately have r1: "r1 = r0\<lparr>rnd_participants := entrants 0 ?ns\<rparr>"
    using assms(2) add_all_ok [of r0 ?ns msg] by (cases "0 \<le> n") (auto simp: r0 new_round_def)
  from assms(3) r1 r0 show "rnd_serverSeed r2 = seed" "round_CommitHash r2 = sha256 seed" "rnd_phase r2 = PhaseRacing"
    by (auto simp: StartRace_def round_advance_def new_round_def round_CommitHash_def split: if_splits)
  have "round_Participants r2 = entrants 0 ?ns"
    using assms(3) r1 r0
    by (auto simp: StartRace_def round_advance_def new_round_def round_Participants_def split: if_splits)
  then show "map part_Name (round_Participants r2) = ?ns"
    by (auto simp: nth_entrants entrant_def intro!: nth_equalityI)
qed

lemma roundd_finish_keeps: "roundd_finish cfg env rid t r simRes fs = (res, fs') \<Longrightarrow> keeps_rounds fs fs'"
  by (auto simp: roundd_finish_def Let_def dest: Save_keeps
      split: prod.splits option.splits bool.splits sum.splits)

lemma roundd_finish_Inr:
  assumes "roundd_finish cfg env rid t r simRes fs = (Inr t', fs')"
    and "map part_Name (round_Participants r) = names" and "rnd_serverSeed r = seed" and "round_CommitHash r = sha256 seed"
  shows "t' = t \<and> (\<exists>mf bytes. map_of fs' (roundDir rid) = Some (stored mf bytes) \<and> mf_RoundID mf = rid \<and>
    mf_TrackID mf = t \<and> mf_ServerSeedHex mf = hex_encode seed \<and> mf_ServerSeedHashHex mf = hex_encode (sha256 seed) \<and>
    mf_ReplaySHA256Hex mf = hex_encode (sha256 bytes) \<and> map mp_Name (mf_Participants mf) = names \<and>
    mw_MarbleIndex (mf_Winner mf) = sim_WinnerMarbleIndex simRes) \<and>
    0 \<le> sim_WinnerMarbleIndex simRes \<and> sim_WinnerMarbleIndex simRes < int (length names)"
proof -
  obtain r1 where fin: "FinishRace \<lparr>res_WinnerIndex = sim_WinnerMarbleIndex simRes, res_FinishedAt = re_finish env\<rparr>
      (re_finish env) r = (None, r1)"
    using assms(1) by (auto simp: roundd_finish_def split: prod.splits option.splits)
  obtain revealed where rev: "round_RevealedSeed r1 = (revealed, True)"
    using assms(1) fin by (auto simp: roundd_finish_def split: prod.splits bool.splits)
  have seed: "revealed = seed" "round_CommitHash r1 = sha256 seed"
    using fin rev assms(3,4) by (auto simp: FinishRace_def round_advance_def round_RevealedSeed_def round_CommitHash_def split: if_splits)
  let ?parts = "round_Participants r"
  let ?mf = "roundd_manifest rid t r1 seed ?parts simRes"
  obtain prize cutt where st: "settle \<lparr>RTPBasisPoints = rc_rtpBps cfg\<rparr> (replicate (length ?parts) (rc_buyIn cfg))
      (sim_WinnerMarbleIndex simRes) = Inr (prize, cutt)"
    using assms(1) fin rev by (auto simp: roundd_finish_def Let_def split: sum.splits prod.splits)
  obtain bytes where op: "re_open env (sim_ReplayPath simRes) = Inr bytes"
    using assms(1) fin rev st by (auto simp: roundd_finish_def Let_def split: sum.splits)
  obtain e mf' tr where sv: "Save (re_save env) (Some ?mf) bytes fs = (e, mf', tr)"
    by (cases "Save (re_save env) (Some ?mf) bytes fs")
  with assms(1) fin rev st op seed have ok: "e = None" "t' = t" "fs' = last tr"
    by (auto simp: roundd_finish_def Let_def split: option.splits)
  have "map_of fs' (roundDir rid) = Some (stored (stamped (re_save env) bytes ?mf) bytes)"
    using sv ok Save_run [of "re_save env" ?mf bytes fs] by (auto simp: saved_run_def published_def roundd_manifest_def)
  moreover have "map mp_Name (mf_Participants (stamped (re_save env) bytes ?mf)) = names"
    using assms(2) by (simp add: stamped_def roundd_manifest_def o_def)
  moreover have "mf_RoundID (stamped (re_save env) bytes ?mf) = rid"
    "mf_ReplaySHA256Hex (stamped (re_save env) bytes ?mf) = hex_encode (sha256 bytes)"
    "mf_TrackID (stamped (re_save env) bytes ?mf) = t"
    "mf_ServerSeedHex (stamped (re_save env) bytes ?mf) = hex_encode seed"
    "mf_ServerSeedHashHex (stamped (re_save env) bytes ?mf) = hex_encode (sha256 seed)"
    "mw_MarbleIndex (mf_Winner (stamped (re_save env) bytes ?mf)) = sim_WinnerMarbleIndex simRes"
    using seed(2) by (simp_all add: stamped_def roundd_manifest_def)
  moreover have "t' = t \<and> 0 \<le> sim_WinnerMarbleIndex simRes \<and> sim_WinnerMarbleIndex simRes < int (length names)"
    using st assms(2) ok(2) by (auto simp: settle_Inr_iff)
  ultimately show ?thesis by blast
qed

lemma runOneRound_cases:
  assumes "runOneRound cfg env fs = Some (res, fs')"
  shows "keeps_rounds fs fs'" and "\<And>t. res = Inr t \<Longrightarrow> audited cfg env t fs' \<and> uint t \<noteq> rc_previousTrack cfg"
proof -
  consider (refused) e where "res = Inl e" "fs' = fs"
    | (raced) seed t r0 r1 r2 simRes where "re_seed env = Inr seed"
        "roundd_select_track (re_freshID env) (rc_previousTrack cfg) selectableTrackIDs = Some t"
        "OpenBuyIn (re_now env) (new_round (re_freshID env) seed (rc_marbles cfg) (re_now env)) = (None, r0)"
        "add_all ''AddParticipant'' (map player_name [0..<nat (rc_marbles cfg)]) r0 = Inr r1"
        "StartRace (re_start env) r1 = (None, r2)"
        "roundd_finish cfg env (re_freshID env) t r2 simRes fs = (res, fs')"
    using assms by (auto simp: runOneRound_def Let_def split: sum.splits option.splits prod.splits)
  then have "keeps_rounds fs fs' \<and> (\<forall>t. res = Inr t \<longrightarrow> audited cfg env t fs' \<and> uint t \<noteq> rc_previousTrack cfg)"
  proof cases
    case refused
    then show ?thesis by simp
  next
    case raced
    have keep: "keeps_rounds fs fs'" using roundd_finish_keeps [OF raced(6)] .
    have "mgr_select_track selectableTrackIDs (re_freshID env) (rc_previousTrack cfg) = Some t"
      using raced(2) by (simp add: select_track_agree)
    then have diff: "uint t \<noteq> rc_previousTrack cfg"
      by (intro select_track_differs [of selectableTrackIDs]) (simp_all add: selectableTrackIDs_def)
    note field = roundd_field [OF raced(3,4,5)]
    have "audited cfg env t' fs' \<and> t' = t" if "res = Inr t'" for t'
    proof -
      note fin = roundd_finish_Inr [OF raced(6) [unfolded that] field(1,2,3)]
      then have "sim_WinnerMarbleIndex simRes < rc_marbles cfg" by (auto split: if_splits)
      with fin raced(1) show ?thesis unfolding audited_def by blast
    qed
    with keep diff show ?thesis by auto
  qed
  then show "keeps_rounds fs fs'" and "\<And>t. res = Inr t \<Longrightarrow> audited cfg env t fs' \<and> uint t \<noteq> rc_previousTrack cfg" by auto
qed

section \<open>The loop\<close>

text \<open>The tracks of the successful rounds, in order.\<close>

definition picked_tracks :: "(gerr + u8) list \<Rightarrow> int list" where
  "picked_tracks ress = concat (map (\<lambda>x. case x of Inl e \<Rightarrow> [] | Inr t \<Rightarrow> [uint t]) ress)"

lemma audited_keeps: "audited cfg env t fs \<Longrightarrow> keeps_rounds fs fs' \<Longrightarrow> audited cfg env t fs'"
  by (fastforce simp: audited_def keeps_rounds_def)

lemma audited_prev [simp]: "audited (cfg\<lparr>rc_previousTrack := t0\<rparr>) env t fs = audited cfg env t fs"
  by (simp add: audited_def)

lemma runOneRound_defined: "\<exists>res fs'. runOneRound cfg env fs = Some (res, fs')"
proof -
  obtain t where "mgr_select_track selectableTrackIDs (re_freshID env) (rc_previousTrack cfg) = Some t"
    using select_track_defined [of selectableTrackIDs] by (auto simp: selectableTrackIDs_def)
  then have "roundd_select_track (re_freshID env) (rc_previousTrack cfg) selectableTrackIDs = Some t"
    by (simp add: select_track_agree)
  then show ?thesis
    by (auto simp: runOneRound_def Let_def split: sum.split option.split prod.split)
qed

lemma roundd_loop_trail:
  "\<exists>ress fs'. roundd_loop cfg prev envs fs = Some (ress, fs') \<and> length ress = length envs \<and> keeps_rounds fs fs' \<and>
    (\<forall>i t. i < length envs \<and> ress ! i = Inr t \<longrightarrow> audited cfg (envs ! i) t fs') \<and>
    distinct_adj (prev # picked_tracks ress)"
proof (induction envs arbitrary: prev fs)
  case Nil
  then show ?case by (simp add: picked_tracks_def)
next
  case (Cons env envs)
  obtain res fs1 where one: "runOneRound (cfg\<lparr>rc_previousTrack := prev\<rparr>) env fs = Some (res, fs1)"
    using runOneRound_defined by blast
  note first = runOneRound_cases [OF one]
  let ?prev = "case res of Inl e \<Rightarrow> prev | Inr picked \<Rightarrow> uint picked"
  obtain ress fs' where rest: "roundd_loop cfg ?prev envs fs1 = Some (ress, fs')" "length ress = length envs"
      "keeps_rounds fs1 fs'" "\<forall>i t. i < length envs \<and> ress ! i = Inr t \<longrightarrow> audited cfg (envs ! i) t fs'"
      "distinct_adj (?prev # picked_tracks ress)"
    using Cons.IH [of ?prev fs1] by blast
  have "audited cfg ((env # envs) ! i) t fs'" if "i < length (env # envs)" "(res # ress) ! i = Inr t" for i t
  proof (cases i)
    case 0
    with that first(2) [of t] rest(3) show ?thesis by (auto intro: audited_keeps)
  next
    case (Suc j)
    with that rest(4) show ?thesis by simp
  qed
  moreover have "distinct_adj (prev # picked_tracks (res # ress))"
    using first(2) rest(5) by (cases res) (auto simp: picked_tracks_def)
  moreover have "keeps_rounds fs fs'" using first(1) rest(3) by (rule keeps_rounds_trans)
  ultimately show ?case using one rest(1,2) by auto
qed

section \<open>Properties\<close>

text \<open>
  C36: the batch daemon always gets to the end of its rounds, and each round it reports as run
  leaves, for good, an audit entry that can be checked: id, track, the seed whose SHA-256 is
  the published hash, the full field, a winner on one of its marbles, and the checksum of the
  replay; two successful rounds in a row never use the same track, however many failed
  between them.
\<close>

theorem roundd_leaves_audit_trail:
  shows "\<exists>ress fs'. roundd_loop cfg (- 1) envs fs = Some (ress, fs') \<and> length ress = length envs \<and>
    (\<forall>i t. i < length envs \<and> ress ! i = Inr t \<longrightarrow> audited cfg (envs ! i) t fs') \<and>
    (\<forall>k d. map_of fs (roundDir k) = Some d \<longrightarrow> map_of fs' (roundDir k) = Some d) \<and>
    distinct_adj (picked_tracks ress)"
proof -
  obtain ress fs' where loop: "roundd_loop cfg (- 1) envs fs = Some (ress, fs')" "length ress = length envs"
      "keeps_rounds fs fs'" "\<forall>i t. i < length envs \<and> ress ! i = Inr t \<longrightarrow> audited cfg (envs ! i) t fs'"
      "distinct_adj (- 1 # picked_tracks ress)"
    using roundd_loop_trail [of cfg "- 1" envs fs] by blast
  then have "distinct_adj (picked_tracks ress)" by (cases "picked_tracks ress") auto
  with loop show ?thesis unfolding keeps_rounds_def by blast
qed

definition demo_roundd :: round_config where
  "demo_roundd = \<lparr>rc_godotBin = ''godot'', rc_projectPath = ''game'', rc_marbles = 2, rc_rtpBps = 9500,
     rc_buyIn = 100, rc_timeout = 60, rc_liveStreamAddr = [], rc_previousTrack = - 1\<rparr>"

theorem roundd_leaves_audit_trail_witness:
  "\<exists>ress fs'. roundd_loop demo_roundd (- 1) [demo_run_env, broken_sim_env] demo_disk = Some (ress, fs') \<and>
    length ress = 2 \<and> map_of fs' (roundDir 7) = Some (stored (stamped demo_env [1, 2, 3] demo_manifest) [1, 2, 3])"
proof -
  obtain ress fs' where loop: "roundd_loop demo_roundd (- 1) [demo_run_env, broken_sim_env] demo_disk = Some (ress, fs')"
    "length ress = length [demo_run_env, broken_sim_env]"
    "\<forall>k d. map_of demo_disk (roundDir k) = Some d \<longrightarrow> map_of fs' (roundDir k) = Some d"
    using roundd_leaves_audit_trail [of demo_roundd "[demo_run_env, broken_sim_env]" demo_disk] by blast
  have "map_of fs' (roundDir 7) = Some (stored (stamped demo_env [1, 2, 3] demo_manifest) [1, 2, 3])"
    using loop(3) demo_disk_entry by blast
  with loop(1,2) show ?thesis by simp
qed

end
