(* ===== verification/Archive_Api.thy ===== *)
theory Archive_Api
  imports Http Replay_Store
begin

text \<open>
  The archive over HTTP (server/api/http.go): the list of rounds, one manifest, one replay,
  read from the disk of \<open>Replay_Store\<close>, behind the permissive CORS wrapper.
  \<open>http.ServeContent\<close> and the mux's own answers are parameters.
\<close>

section \<open>The handlers\<close>

datatype archive_doc = RoundIdsDoc "string list" | ManifestDoc manifest | ArchiveErrorDoc string gerr | ReplayBytes "byte list"

record archive_env =
  ar_parse :: "byte list \<Rightarrow> gerr + manifest"
  ar_read :: "read_call \<Rightarrow> gerr option"
  ar_stat :: "gerr + gtime"
  ar_serve :: "http_request \<Rightarrow> gtime \<Rightarrow> byte list \<Rightarrow> archive_doc wop list"
  ar_mux :: "http_request \<Rightarrow> archive_doc wop list"

definition writeJSONError :: "int \<Rightarrow> string \<Rightarrow> gerr \<Rightarrow> archive_doc wop list" where
  "writeJSONError status code e = writeJSON status (ArchiveErrorDoc code e)"

definition archive_parseRoundID :: "string \<Rightarrow> gerr + u64" where
  "archive_parseRoundID s =
     (if s = [] then Inl (Errorf ''round id is empty'')
      else (case parse_uint s of
          Inl e \<Rightarrow> Inl (Wrapf ''round id is not a uint64'' e)
        | Inr n \<Rightarrow> Inr n))"

definition listRounds :: "archive_env \<Rightarrow> disk \<Rightarrow> archive_doc wop list" where
  "listRounds env fs =
     (case ListRounds (ar_read env) fs of
        Inl e \<Rightarrow> writeJSONError 500 ''list_failed'' e
      | Inr ids \<Rightarrow> writeJSON 200 (RoundIdsDoc (map format_uint ids)))"

text \<open>The status of a round that does not load.\<close>

definition load_error :: "gerr \<Rightarrow> archive_doc wop list" where
  "load_error e =
     (if errors_is e (ReplayErr ErrRoundMissing) then writeJSONError 404 ''round_missing'' e
      else writeJSONError 500 ''load_failed'' e)"

definition getManifest :: "archive_env \<Rightarrow> string \<Rightarrow> disk \<Rightarrow> archive_doc wop list" where
  "getManifest env ids fs =
     (case archive_parseRoundID ids of
        Inl e \<Rightarrow> writeJSONError 400 ''bad_round_id'' e
      | Inr rid \<Rightarrow>
     (case Load (ar_parse env) (ar_read env) rid fs of
        Inl e \<Rightarrow> load_error e
      | Inr (m, path) \<Rightarrow> writeJSON 200 (ManifestDoc m)))"

definition os_open_replay :: "archive_env \<Rightarrow> u64 \<Rightarrow> disk \<Rightarrow> gerr + byte list" where
  "os_open_replay env rid fs =
     (case ar_read env OpenReplay of
        Some e \<Rightarrow> Inl e
      | None \<Rightarrow> (case replay_bin rid fs of None \<Rightarrow> Inl (Sentinel (StdErr ErrNotExist)) | Some b \<Rightarrow> Inr b))"

definition send_replay :: "archive_env \<Rightarrow> http_request \<Rightarrow> u64 \<Rightarrow> manifest \<Rightarrow> disk \<Rightarrow> archive_doc wop list" where
  "send_replay env r rid m fs =
     (case os_open_replay env rid fs of
        Inl e \<Rightarrow> writeJSONError 500 ''replay_open_failed'' e
      | Inr b \<Rightarrow>
     (case ar_stat env of
        Inl e \<Rightarrow> writeJSONError 500 ''replay_stat_failed'' e
      | Inr modTime \<Rightarrow>
          [SetHeader ''Content-Type'' ''application/octet-stream'',
           SetHeader ''Content-Length'' (format_nat (length b)),
           SetHeader ''ETag'' (CHR 0x22 # mf_ReplaySHA256Hex m @ [CHR 0x22]),
           SetHeader ''Cache-Control'' ''public, max-age=31536000, immutable''] @ ar_serve env r modTime b))"

definition getReplay :: "archive_env \<Rightarrow> string \<Rightarrow> http_request \<Rightarrow> disk \<Rightarrow> archive_doc wop list" where
  "getReplay env ids r fs =
     (case archive_parseRoundID ids of
        Inl e \<Rightarrow> writeJSONError 400 ''bad_round_id'' e
      | Inr rid \<Rightarrow>
     (case Load (ar_parse env) (ar_read env) rid fs of
        Inl e \<Rightarrow> load_error e
      | Inr (m, path) \<Rightarrow> send_replay env r rid m fs))"

definition corsMiddleware :: "('s, 'd) handler \<Rightarrow> ('s, 'd) handler" where
  "corsMiddleware nxt r s =
     (let pre = [SetHeader ''Access-Control-Allow-Origin'' ''*'',
                 SetHeader ''Access-Control-Allow-Methods'' ''GET, HEAD, OPTIONS'',
                 SetHeader ''Access-Control-Allow-Headers'' ''Range, If-None-Match'',
                 SetHeader ''Access-Control-Expose-Headers'' ''ETag, Content-Length, Content-Range, Accept-Ranges''] in
      if rq_method r = ''OPTIONS'' then (pre @ [WriteStatus 204], None, s)
      else (case nxt r s of (ops, p, s') \<Rightarrow> (pre @ ops, p, s')))"

text \<open>
  The three routes; \<open>{id}\<close> takes one non-empty segment, and the mux redirects paths with dot
  segments before it matches.
\<close>

datatype archive_route = ListRoute | ManifestRoute string | ReplayRoute string

definition archive_route_of :: "string \<Rightarrow> string \<Rightarrow> archive_route option" where
  "archive_route_of method path =
     (if method \<noteq> ''GET'' \<and> method \<noteq> ''HEAD'' then None
      else if path = ''/rounds'' then Some ListRoute
      else if \<not> has_prefix path ''/rounds/'' then None
      else (let rest = drop 8 path; seg = takeWhile (\<lambda>c. c \<noteq> CHR ''/'') rest; tl = drop (length seg) rest in
        if seg \<in> {[], ''.'', ''..''} then None
        else if tl = [] then Some (ManifestRoute seg)
        else if tl = ''/replay.bin'' then Some (ReplayRoute seg) else None))"

definition archive_mux :: "archive_env \<Rightarrow> (disk, archive_doc) handler" where
  "archive_mux env r fs =
     (case archive_route_of (rq_method r) (rq_path r) of
        None \<Rightarrow> (ar_mux env r, None, fs)
      | Some ListRoute \<Rightarrow> (listRounds env fs, None, fs)
      | Some (ManifestRoute ids) \<Rightarrow> (getManifest env ids fs, None, fs)
      | Some (ReplayRoute ids) \<Rightarrow> (getReplay env ids r fs, None, fs))"

definition archive_handler :: "archive_env \<Rightarrow> (disk, archive_doc) handler" where
  "archive_handler env = corsMiddleware (archive_mux env)"

section \<open>What is served\<close>

lemma archive_parse_format [simp]: "archive_parseRoundID (format_uint rid) = Inr rid"
proof -
  have "format_uint rid \<noteq> []" by (simp add: format_uint_def)
  then show ?thesis by (simp add: archive_parseRoundID_def)
qed

definition plain_read :: "archive_env \<Rightarrow> bool" where
  "plain_read env \<longleftrightarrow> ar_read env = (\<lambda>_. None) \<and> (\<exists>t. ar_stat env = Inr t)"

lemma stored_round:
  assumes "store_inv fs" and "rid \<in> set (list_entries fs)"
  obtains m b where "map_of fs (roundDir rid) = Some (stored m b)" and "mf_RoundID m = rid"
    and "mf_ReplaySHA256Hex m = hex_encode (sha256 b)"
proof -
  obtain d where d: "map_of fs (roundDir rid) = Some d" using list_entries_inv [OF assms(1)] assms(2) by auto
  from store_inv_round [OF assms(1) d] d that show thesis by (auto simp: complete_def)
qed

lemma getReplay_stored:
  assumes "map_of fs (roundDir rid) = Some (stored m b)" and "ar_read env = (\<lambda>_. None)" and "ar_stat env = Inr t"
  shows "getReplay env (format_uint rid) r fs =
    [SetHeader ''Content-Type'' ''application/octet-stream'', SetHeader ''Content-Length'' (format_nat (length b)),
     SetHeader ''ETag'' (CHR 0x22 # mf_ReplaySHA256Hex m @ [CHR 0x22]),
     SetHeader ''Cache-Control'' ''public, max-age=31536000, immutable''] @ ar_serve env r t b"
  using assms by (simp add: getReplay_def send_replay_def Load_stored os_open_replay_def replay_bin_def stored_def)

lemma getManifest_missing:
  assumes "map_of fs (roundDir rid) = None" and "ar_read env = (\<lambda>_. None)"
  shows "client_status (getManifest env (format_uint rid) fs) = 404"
  using assms by (simp add: getManifest_def Load_def load_error_def writeJSONError_def)

lemma archive_serves:
  assumes inv: "store_inv fs" and plain: "plain_read env"
  shows "\<exists>ids. listRounds env fs = writeJSON 200 (RoundIdsDoc (map format_uint ids)) \<and> distinct (map format_uint ids) \<and>
    (\<forall>rid \<in> set ids. \<exists>m b. getManifest env (format_uint rid) fs = writeJSON 200 (ManifestDoc m) \<and>
       mf_RoundID m = rid \<and> mf_ReplaySHA256Hex m = hex_encode (sha256 b) \<and>
       (\<exists>hs t. getReplay env (format_uint rid) r fs = hs @ ar_serve env r t b \<and>
          SetHeader ''ETag'' (CHR 0x22 # hex_encode (sha256 b) @ [CHR 0x22]) \<in> set hs \<and>
          SetHeader ''Content-Length'' (format_nat (length b)) \<in> set hs)) \<and>
    (\<forall>rid. rid \<notin> set ids \<longrightarrow> client_status (getManifest env (format_uint rid) fs) = 404)"
proof -
  note ids = list_entries_inv [OF inv]
  obtain t where rd: "ar_read env = (\<lambda>_. None)" and st: "ar_stat env = Inr t"
    using plain by (auto simp: plain_read_def)
  have served: "\<exists>m b. getManifest env (format_uint rid) fs = writeJSON 200 (ManifestDoc m) \<and>
       mf_RoundID m = rid \<and> mf_ReplaySHA256Hex m = hex_encode (sha256 b) \<and>
       (\<exists>hs t. getReplay env (format_uint rid) r fs = hs @ ar_serve env r t b \<and>
          SetHeader ''ETag'' (CHR 0x22 # hex_encode (sha256 b) @ [CHR 0x22]) \<in> set hs \<and>
          SetHeader ''Content-Length'' (format_nat (length b)) \<in> set hs)"
    if "rid \<in> set (list_entries fs)" for rid
  proof (rule stored_round [OF inv that], goal_cases)
    case (1 m b)
    have "getManifest env (format_uint rid) fs = writeJSON 200 (ManifestDoc m)"
      using 1 rd by (simp add: getManifest_def Load_stored)
    with getReplay_stored [OF 1(1) rd st, of r] 1(2,3) show ?case by fastforce
  qed
  have "client_status (getManifest env (format_uint rid) fs) = 404" if "rid \<notin> set (list_entries fs)" for rid
    using that ids by (intro getManifest_missing rd) auto
  with served ids rd show ?thesis
    by (intro exI [of _ "sort (list_entries fs)"]) (simp add: listRounds_def ListRounds_def distinct_map inj_on_def)
qed

section \<open>Properties\<close>

text \<open>
  The archive serves exactly what the store holds, whatever saves, faults and crashes came
  before: the list names each round once, as decimal text; the manifest of a listed round is
  served under that text, and its replay with the bytes whose SHA-256 is the ETag and the
  manifest's checksum; any other round id is a 404.
\<close>

theorem archive_serves_store:
  assumes "reach (\<lambda>fs. fs = []) store_step fs" and "plain_read env"
  shows "\<exists>ids. listRounds env fs = writeJSON 200 (RoundIdsDoc (map format_uint ids)) \<and> distinct (map format_uint ids) \<and>
    (\<forall>rid \<in> set ids. \<exists>m b. getManifest env (format_uint rid) fs = writeJSON 200 (ManifestDoc m) \<and>
       mf_RoundID m = rid \<and> mf_ReplaySHA256Hex m = hex_encode (sha256 b) \<and>
       (\<exists>hs t. getReplay env (format_uint rid) r fs = hs @ ar_serve env r t b \<and>
          SetHeader ''ETag'' (CHR 0x22 # hex_encode (sha256 b) @ [CHR 0x22]) \<in> set hs \<and>
          SetHeader ''Content-Length'' (format_nat (length b)) \<in> set hs)) \<and>
    (\<forall>rid. rid \<notin> set ids \<longrightarrow> client_status (getManifest env (format_uint rid) fs) = 404)"
  by (rule archive_serves [OF store.reach_inv [OF assms(1)] assms(2)])

definition demo_archive :: archive_env where
  "demo_archive = \<lparr>ar_parse = (\<lambda>_. Inl (Errorf ''bad'')), ar_read = (\<lambda>_. None), ar_stat = Inr 5,
     ar_serve = (\<lambda>r t b. [Write (Doc (ReplayBytes b))]), ar_mux = (\<lambda>_. [WriteStatus 404])\<rparr>"

definition demo_get :: http_request where
  "demo_get = \<lparr>rq_method = ''GET'', rq_path = ''/rounds/7'', rq_header = (\<lambda>_. []), rq_query = (\<lambda>_. []),
     rq_body = Inr [], rq_ctx_id = []\<rparr>"

theorem archive_serves_store_witness:
  "\<exists>ids. listRounds demo_archive demo_disk = writeJSON 200 (RoundIdsDoc (map format_uint ids)) \<and>
     client_status (getManifest demo_archive (format_uint 41) demo_disk) = (if 41 \<in> set ids then 200 else 404)"
proof -
  have "plain_read demo_archive" by (simp add: plain_read_def demo_archive_def)
  with archive_serves_store [OF demo_disk_reachable, of demo_archive demo_get] obtain ids where
    ids: "listRounds demo_archive demo_disk = writeJSON 200 (RoundIdsDoc (map format_uint ids))"
      "\<And>rid. rid \<in> set ids \<Longrightarrow> \<exists>m. getManifest demo_archive (format_uint rid) demo_disk = writeJSON 200 (ManifestDoc m)"
      "\<And>rid. rid \<notin> set ids \<Longrightarrow> client_status (getManifest demo_archive (format_uint rid) demo_disk) = 404"
    by blast
  have "client_status (getManifest demo_archive (format_uint 41) demo_disk) = (if 41 \<in> set ids then 200 else 404)"
    using ids(2) [of 41] ids(3) [of 41] by (cases "41 \<in> set ids") auto
  with ids(1) show ?thesis by blast
qed

text \<open>
  The archive is read-only and answers every request: no request changes the store or panics,
  a preflight gets 204, every response carries the CORS headers.
\<close>

lemma archive_read_only:
  shows "\<exists>ops. archive_handler env r fs = (ops, None, fs) \<and> take 1 ops = [SetHeader ''Access-Control-Allow-Origin'' ''*''] \<and>
    (rq_method r = ''OPTIONS'' \<longrightarrow> client_status ops = 204)"
  by (cases "archive_route_of (rq_method r) (rq_path r)")
    (auto simp: archive_handler_def corsMiddleware_def archive_mux_def Let_def split: archive_route.split)

end
