(* ===== verification/Stream_Codec.thy ===== *)
theory Stream_Codec
  imports Go_Bytes
begin

text \<open>
  The wire format of package \<open>stream\<close> (server/stream/stream.go and ws.go): a type byte, a
  little-endian 32-bit length and the payload.  \<open>Message.Encode\<close> and \<open>encodeInline\<close>
  write it, \<open>ReadMessage\<close> reads it under a payload cap.  A reader is the list of bytes it
  will deliver before it ends.
\<close>

unbundle bit_operations_syntax

section \<open>Messages\<close>

definition MsgHeader :: byte where "MsgHeader = 1"
definition MsgTick :: byte where "MsgTick = 2"
definition MsgDone :: byte where "MsgDone = 3"

lemmas msg_types = MsgHeader_def MsgTick_def MsgDone_def

record message =
  msg_Type :: byte
  msg_Payload :: "byte list"

text \<open>What \<open>Encode\<close> hands to a writer that accepts everything; the length is cut to 32 bits.\<close>

definition encode_message :: "message \<Rightarrow> byte list" where
  "encode_message m = [msg_Type m] @ le32 (of_nat (length (msg_Payload m))) @ msg_Payload m"

definition encode_inline :: "message \<Rightarrow> byte list" where
  "encode_inline m =
     (let n = length (msg_Payload m) in
      [msg_Type m, of_nat n, of_nat (n div 2 ^ 8), of_nat (n div 2 ^ 16), of_nat (n div 2 ^ 24)]
      @ msg_Payload m)"

section \<open>Reading\<close>

text \<open>
  \<open>io.ReadFull\<close> for \<open>n\<close> bytes, \<open>0 < n\<close>: \<open>EOF\<close> if nothing was left,
  \<open>ErrUnexpectedEOF\<close> if the input ended inside.
\<close>

definition read_full :: "nat \<Rightarrow> byte list \<Rightarrow> gerr + (byte list \<times> byte list)" where
  "read_full n inp =
     (if n \<le> length inp then Inr (take n inp, drop n inp)
      else if inp = [] then Inl (Sentinel (StdErr EOF))
      else Inl (Sentinel (StdErr ErrUnexpectedEOF)))"

definition read_message :: "u32 \<Rightarrow> byte list \<Rightarrow> gerr + (message \<times> byte list)" where
  "read_message maxPayload inp =
     (case read_full 5 inp of
        Inl e \<Rightarrow> Inl e
      | Inr (hdr, rest) \<Rightarrow>
          (let n = le32_of (hdr ! 1) (hdr ! 2) (hdr ! 3) (hdr ! 4) in
           if maxPayload < n then Inl (Errorf ''stream: payload exceeds cap'')
           else if 0 < n then
             (case read_full (unat n) rest of
                Inl e \<Rightarrow> Inl e
              | Inr (payload, rest') \<Rightarrow> Inr (\<lparr>msg_Type = hdr ! 0, msg_Payload = payload\<rparr>, rest'))
           else Inr (\<lparr>msg_Type = hdr ! 0, msg_Payload = []\<rparr>, rest)))"

definition MaxPayloadBytes :: u32 where
  "MaxPayloadBytes = push_bit 20 1"

section \<open>The writers agree\<close>

lemma byte_of_shifted:
  assumes "k \<le> 24"
  shows "(ucast (drop_bit k (of_nat n :: u32)) :: byte) = of_nat (n div 2 ^ k)"
proof (rule bit_word_eqI)
  fix i :: nat
  assume "i < LENGTH(8)"
  with assms show "bit (ucast (drop_bit k (of_nat n :: u32)) :: byte) i = bit (of_nat (n div 2 ^ k) :: byte) i"
    by (simp add: bit_simps bit_word_of_nat drop_bit_eq_div [symmetric] ac_simps)
qed

lemma encode_inline_eq: "encode_inline m = encode_message m"
  using byte_of_shifted [of 0 "length (msg_Payload m)"]
    byte_of_shifted [of 8 "length (msg_Payload m)"]
    byte_of_shifted [of 16 "length (msg_Payload m)"]
    byte_of_shifted [of 24 "length (msg_Payload m)"]
  by (simp add: encode_inline_def encode_message_def le32_def Let_def)

section \<open>Framing codecs\<close>

text \<open>
  What a reader of frames relies on: a frame it accepts is read back from its encoding with
  the rest of the input untouched, and whatever is read was such an encoding.
\<close>

locale frame_codec =
  fixes enc :: "'m \<Rightarrow> byte list"
    and dec :: "byte list \<Rightarrow> gerr + ('m \<times> byte list)"
    and ok :: "'m \<Rightarrow> bool"
  assumes dec_enc: "ok m \<Longrightarrow> dec (enc m @ rest) = Inr (m, rest)"
    and enc_dec: "dec inp = Inr (m, rest) \<Longrightarrow> ok m \<and> inp = enc m @ rest"
    and enc_nonempty: "enc m \<noteq> []"
begin

lemma stream_unambiguous:
  assumes "\<forall>m \<in> set ms. ok m" and "\<forall>m \<in> set ms'. ok m"
    and "concat (map enc ms) = concat (map enc ms')"
  shows "ms = ms'"
  using assms
proof (induction ms arbitrary: ms')
  case Nil
  then show ?case using enc_nonempty by (cases ms') auto
next
  case (Cons m ms)
  obtain n ns where ms': "ms' = n # ns"
    using Cons.prems(3) enc_nonempty [of m] by (cases ms') auto
  have eq: "enc m @ concat (map enc ms) = enc n @ concat (map enc ns)"
    using Cons.prems(3) by (simp only: ms' list.map concat.simps)
  have "ok m" and "ok n"
    using Cons.prems(1,2) ms' by auto
  have "Inr (m, concat (map enc ms)) = dec (enc m @ concat (map enc ms))"
    by (rule dec_enc [OF \<open>ok m\<close>, symmetric])
  also have "\<dots> = Inr (n, concat (map enc ns))"
    unfolding eq by (rule dec_enc [OF \<open>ok n\<close>])
  finally have "m = n" and "concat (map enc ms) = concat (map enc ns)" by auto
  moreover have "ms = ns"
    using Cons.prems(1,2) ms' calculation(2) by (intro Cons.IH) auto
  ultimately show ?case using ms' by simp
qed

lemma dec_consumes: "dec inp = Inr (m, rest) \<Longrightarrow> length rest < length inp"
  using enc_dec [of inp m rest] enc_nonempty [of m] by auto

end

section \<open>The message codec\<close>

lemma le32_parts:
  "le32_of (le32 w ! 0) (le32 w ! 1) (le32 w ! 2) (le32 w ! 3) = w"
  by (simp add: le32_def)

lemma u32_lt: "unat (w :: u32) < 4294967296"
  using unsigned_less [of w, where ?'a = nat] by simp

lemma read_message_hdr:
  assumes "read_full 5 inp = Inr ([t, a, b, c, d], rest)"
  shows "read_message cap inp =
    (let n = le32_of a b c d in
     if cap < n then Inl (Errorf ''stream: payload exceeds cap'')
     else if 0 < n then
       (case read_full (unat n) rest of
          Inl e \<Rightarrow> Inl e
        | Inr (payload, rest') \<Rightarrow> Inr (\<lparr>msg_Type = t, msg_Payload = payload\<rparr>, rest'))
     else Inr (\<lparr>msg_Type = t, msg_Payload = []\<rparr>, rest))"
  by (simp add: read_message_def assms Let_def split: sum.split)

lemma read_encode:
  assumes "length (msg_Payload m) \<le> unat cap"
  shows "read_message cap (encode_message m @ rest) = Inr (m, rest)"
proof -
  define n where "n = length (msg_Payload m)"
  define w where "w = (of_nat n :: u32)"
  have w: "unat w = n"
    using assms u32_lt [of cap] by (simp add: w_def n_def unat_of_nat)
  have hdr: "read_full 5 (encode_message m @ rest) = Inr (msg_Type m # le32 w, msg_Payload m @ rest)"
    by (simp add: read_full_def encode_message_def le32_def n_def w_def)
  have len: "le32_of (le32 w ! 0) (le32 w ! Suc 0) (le32 w ! 2) (le32 w ! 3) = w"
    using le32_parts [of w] by simp
  have cap: "\<not> cap < w"
    using assms by (simp add: word_less_nat_alt w n_def)
  show ?thesis
  proof (cases "n = 0")
    case True
    then have "msg_Payload m = []" and "w = 0" by (simp_all add: n_def w_def)
    with hdr len show ?thesis
      by (cases m) (simp add: read_message_def Let_def numeral_eq_Suc)
  next
    case False
    with w have "0 < w" by (simp add: word_less_nat_alt)
    moreover have "read_full n (msg_Payload m @ rest) = Inr (msg_Payload m, rest)"
      by (simp add: read_full_def n_def)
    ultimately show ?thesis
      using hdr len cap w by (cases m) (simp add: read_message_def Let_def numeral_eq_Suc)
  qed
qed

lemma read_full_Inr:
  "read_full n inp = Inr (x, rest) \<Longrightarrow> inp = x @ rest \<and> length x = n"
  by (auto simp: read_full_def split: if_splits)

lemma encode_read:
  assumes "read_message cap inp = Inr (m, rest)"
  shows "length (msg_Payload m) \<le> unat cap \<and> inp = encode_message m @ rest"
proof -
  obtain h rest1 where h: "read_full 5 inp = Inr (h, rest1)"
    using assms by (auto simp: read_message_def split: sum.splits)
  then have inp: "inp = h @ rest1" and "length h = 5"
    by (auto dest: read_full_Inr)
  then obtain t a b c d where hdr: "h = [t, a, b, c, d]"
    by (auto simp: numeral_eq_Suc length_Suc_conv)
  define n where "n = le32_of a b c d"
  note read = read_message_hdr [OF h [unfolded hdr], of cap, folded n_def]
  have cap: "\<not> cap < n"
    using assms unfolding read by (auto simp: Let_def split: if_splits)
  show ?thesis
  proof (cases "0 < n")
    case False
    with assms cap have "m = \<lparr>msg_Type = t, msg_Payload = []\<rparr>" and "rest = rest1"
      unfolding read by (auto simp: Let_def)
    moreover have "le32 0 = [a, b, c, d]"
      using False n_def le32_le32_of [of a b c d] by (simp add: word_greater_zero_iff)
    ultimately show ?thesis by (simp add: encode_message_def inp hdr)
  next
    case True
    with assms cap obtain p where p: "read_full (unat n) rest1 = Inr (p, rest)"
      and m: "m = \<lparr>msg_Type = t, msg_Payload = p\<rparr>"
      unfolding read by (auto simp: Let_def split: sum.splits)
    then have "rest1 = p @ rest" and len: "length p = unat n"
      by (auto dest: read_full_Inr)
    moreover have "le32 n = [a, b, c, d]"
      by (simp add: n_def)
    ultimately show ?thesis
      using cap by (simp add: encode_message_def inp hdr m word_less_nat_alt)
  qed
qed

interpretation msg: frame_codec encode_message "read_message cap" "\<lambda>m. length (msg_Payload m) \<le> unat cap"
proof (unfold_locales, goal_cases)
  case (1 m rest)
  then show ?case by (rule read_encode)
next
  case (2 inp m rest)
  then show ?case by (rule encode_read)
next
  case (3 m)
  show ?case by (simp add: encode_message_def)
qed

text \<open>
  C30: the wire format round-trips: a message within the cap is read back exactly, with the
  bytes after it untouched; what \<open>ReadMessage\<close> accepts is the encoding of what it returns
  and within the cap; and the one-frame writer of the WebSocket side produces the same bytes.
\<close>

theorem message_roundtrip:
  "(read_message cap inp = Inr (m, rest) \<longleftrightarrow>
      length (msg_Payload m) \<le> unat cap \<and> inp = encode_message m @ rest) \<and>
   encode_inline m = encode_message m"
  using read_encode [of m cap rest] encode_read [of cap inp m rest] encode_inline_eq by auto

lemma payload_word:
  "length (msg_Payload m) < 4294967296 \<Longrightarrow>
   unat (of_nat (length (msg_Payload m)) :: u32) = length (msg_Payload m)"
  by (simp add: unat_of_nat)

lemma read_encoded_prefix:
  assumes "5 \<le> k"
  shows "read_message cap (take k (encode_message m)) =
    (let n = of_nat (length (msg_Payload m)) :: u32; rest = take (k - 5) (msg_Payload m) in
     if cap < n then Inl (Errorf ''stream: payload exceeds cap'')
     else if 0 < n then
       (case read_full (unat n) rest of
          Inl e \<Rightarrow> Inl e
        | Inr (payload, rest') \<Rightarrow> Inr (\<lparr>msg_Type = msg_Type m, msg_Payload = payload\<rparr>, rest'))
     else Inr (\<lparr>msg_Type = msg_Type m, msg_Payload = []\<rparr>, rest))"
proof -
  define w where "w = (of_nat (length (msg_Payload m)) :: u32)"
  have "take k (encode_message m) = [msg_Type m] @ le32 w @ take (k - 5) (msg_Payload m)"
    using assms by (simp add: encode_message_def w_def take_Cons' take_append)
  then have "read_full 5 (take k (encode_message m)) =
      Inr ([msg_Type m, le32 w ! 0, le32 w ! 1, le32 w ! 2, le32 w ! 3], take (k - 5) (msg_Payload m))"
    by (simp add: read_full_def le32_def)
  from read_message_hdr [OF this, of cap] show ?thesis
    by (simp add: le32_parts [simplified] w_def [symmetric] Let_def)
qed

text \<open>
  A truncated or oversized frame is an error and never a message: no bytes is
  \<open>EOF\<close>, a cut header is \<open>ErrUnexpectedEOF\<close>, a length above the cap is refused before
  the payload is read, and a payload cut after at least one byte is
  \<open>ErrUnexpectedEOF\<close>; a payload cut before its first byte is reported as plain \<open>EOF\<close>.
\<close>

theorem message_truncation:
  "read_message cap [] = Inl (Sentinel (StdErr EOF)) \<and>
   (0 < k \<and> k < 5 \<longrightarrow>
      read_message cap (take k (encode_message m)) = Inl (Sentinel (StdErr ErrUnexpectedEOF))) \<and>
   (5 \<le> k \<and> k < 5 + length (msg_Payload m) \<and> length (msg_Payload m) \<le> unat cap \<longrightarrow>
      read_message cap (take k (encode_message m)) =
        Inl (Sentinel (StdErr (if k = 5 then EOF else ErrUnexpectedEOF)))) \<and>
   (unat cap < length (msg_Payload m) \<and> length (msg_Payload m) < 2 ^ 32 \<longrightarrow>
      (\<exists>e. read_message cap (encode_message m) = Inl (Errorf e)))"
proof (intro conjI impI)
  show "read_message cap [] = Inl (Sentinel (StdErr EOF))"
    by (simp add: read_message_def read_full_def)
next
  assume "0 < k \<and> k < 5"
  moreover have "encode_message m \<noteq> []" by (simp add: encode_message_def)
  ultimately show "read_message cap (take k (encode_message m)) =
      Inl (Sentinel (StdErr ErrUnexpectedEOF))"
    by (simp add: read_message_def read_full_def)
next
  assume k: "5 \<le> k \<and> k < 5 + length (msg_Payload m) \<and> length (msg_Payload m) \<le> unat cap"
  show "read_message cap (take k (encode_message m)) =
      Inl (Sentinel (StdErr (if k = 5 then EOF else ErrUnexpectedEOF)))"
  proof -
    have "length (msg_Payload m) < 4294967296"
      using k u32_lt [of cap] by simp
    with k show ?thesis
      by (auto simp: read_encoded_prefix Let_def read_full_def word_less_nat_alt payload_word)
  qed
next
  assume "unat cap < length (msg_Payload m) \<and> length (msg_Payload m) < 2 ^ 32"
  then show "\<exists>e. read_message cap (encode_message m) = Inl (Errorf e)"
    using read_encoded_prefix [of "length (encode_message m)" cap m]
    by (simp add: Let_def word_less_nat_alt payload_word encode_message_def)
qed

theorem message_truncation_witness:
  "read_message 16 (take 7 (encode_message \<lparr>msg_Type = MsgTick, msg_Payload = [9, 8, 7]\<rparr>)) =
     Inl (Sentinel (StdErr ErrUnexpectedEOF))"
  using message_truncation [of 16 7 "\<lparr>msg_Type = MsgTick, msg_Payload = [9, 8, 7]\<rparr>"] by simp

end
