(* ===== verification/Stream_Hub.thy ===== *)
theory Stream_Hub
  imports Stream_Codec "HOL-Library.Sublist"
begin

text \<open>
  The live fan-out of package \<open>stream\<close> (server/stream/stream.go): one round with its
  buffered HEADER and TICK messages, its subscribers with their bounded channels, and the
  hub's table of live rounds.  A channel holds what was sent and not yet received; sending
  on a closed channel and closing it twice panic, which is the result \<^term>\<open>None\<close> of every
  operation that uses channels.  The round's mutex makes each method one atomic step.
\<close>

section \<open>Channels\<close>

record chan =
  ch_buf :: "message list"
  ch_cap :: nat
  ch_closed :: bool

datatype send_result = Sent chan | Full | Panic

text \<open>The \<open>select\<close> with a \<open>default\<close>: \<open>case s.send <- m\<close>.\<close>

definition try_send :: "message \<Rightarrow> chan \<Rightarrow> send_result" where
  "try_send m c =
     (if ch_closed c then Panic
      else if length (ch_buf c) < ch_cap c then Sent (c\<lparr>ch_buf := ch_buf c @ [m]\<rparr>)
      else Full)"

text \<open>A plain send: \<^term>\<open>None\<close> is a panic, or blocking for ever with the mutex held.\<close>

definition send_now :: "message \<Rightarrow> chan \<Rightarrow> chan option" where
  "send_now m c = (case try_send m c of Sent c' \<Rightarrow> Some c' | _ \<Rightarrow> None)"

fun send_all :: "message list \<Rightarrow> chan \<Rightarrow> chan option" where
  "send_all [] c = Some c"
| "send_all (m # ms) c = (case send_now m c of None \<Rightarrow> None | Some c' \<Rightarrow> send_all ms c')"

definition close_chan :: "chan \<Rightarrow> chan option" where
  "close_chan c = (if ch_closed c then None else Some (c\<lparr>ch_closed := True\<rparr>))"

section \<open>A live round\<close>

text \<open>
  Subscribers are pointers, numbered in order of allocation; \<open>lr_chans\<close> is the heap of
  their channels, which outlive their membership in \<open>lr_subs\<close>.  The list of subscribers is
  the order in which the map happens to be ranged over.
\<close>

record live_round =
  lr_id :: u64
  lr_hdr :: "message option"
  lr_tks :: "message list"
  lr_done :: bool
  lr_subs :: "nat list"
  lr_chans :: "nat \<Rightarrow> chan"
  lr_next :: nat

definition new_live_round :: "u64 \<Rightarrow> live_round" where
  "new_live_round rid =
     \<lparr>lr_id = rid, lr_hdr = None, lr_tks = [], lr_done = False, lr_subs = [],
      lr_chans = (\<lambda>_. \<lparr>ch_buf = [], ch_cap = 0, ch_closed = False\<rparr>), lr_next = 0\<rparr>"

text \<open>The loop of \<open>fanoutLocked\<close> over the subscribers present when it started.\<close>

fun fanout_loop :: "message \<Rightarrow> nat list \<Rightarrow> live_round \<Rightarrow> live_round option" where
  "fanout_loop m [] r = Some r"
| "fanout_loop m (s # ss) r =
     (case try_send m (lr_chans r s) of
        Sent c \<Rightarrow> fanout_loop m ss (r\<lparr>lr_chans := (lr_chans r)(s := c)\<rparr>)
      | Full \<Rightarrow>
          (case close_chan (lr_chans r s) of
             None \<Rightarrow> None
           | Some c \<Rightarrow> fanout_loop m ss
               (r\<lparr>lr_subs := filter (\<lambda>t. t \<noteq> s) (lr_subs r), lr_chans := (lr_chans r)(s := c)\<rparr>))
      | Panic \<Rightarrow> None)"

definition fanoutLocked :: "message \<Rightarrow> live_round \<Rightarrow> live_round option" where
  "fanoutLocked m r = fanout_loop m (lr_subs r) r"

definition WriteHeader :: "byte list \<Rightarrow> live_round \<Rightarrow> (gerr option \<times> live_round) option" where
  "WriteHeader payload r =
     (if lr_hdr r \<noteq> None then Some (Some (Errorf ''stream: header already written''), r)
      else if lr_done r then Some (Some (Sentinel (StreamErr ErrRoundClosed)), r)
      else (let m = \<lparr>msg_Type = MsgHeader, msg_Payload = payload\<rparr> in
            map_option (Pair None) (fanoutLocked m (r\<lparr>lr_hdr := Some m\<rparr>))))"

definition WriteTick :: "byte list \<Rightarrow> live_round \<Rightarrow> (gerr option \<times> live_round) option" where
  "WriteTick payload r =
     (if lr_hdr r = None then Some (Some (Sentinel (StreamErr ErrHeaderRequired)), r)
      else if lr_done r then Some (Some (Sentinel (StreamErr ErrRoundClosed)), r)
      else (let m = \<lparr>msg_Type = MsgTick, msg_Payload = payload\<rparr> in
            map_option (Pair None) (fanoutLocked m (r\<lparr>lr_tks := lr_tks r @ [m]\<rparr>))))"

fun close_all :: "nat list \<Rightarrow> live_round \<Rightarrow> live_round option" where
  "close_all [] r = Some r"
| "close_all (s # ss) r =
     (case close_chan (lr_chans r s) of
        None \<Rightarrow> None
      | Some c \<Rightarrow> close_all ss (r\<lparr>lr_chans := (lr_chans r)(s := c)\<rparr>))"

definition done_message :: message where
  "done_message = \<lparr>msg_Type = MsgDone, msg_Payload = []\<rparr>"

text \<open>The part of \<open>Done\<close> under the round's mutex; the flag tells whether it goes on to the hub.\<close>

definition round_Done :: "live_round \<Rightarrow> (bool \<times> live_round) option" where
  "round_Done r =
     (if lr_done r then Some (False, r)
      else (case fanoutLocked done_message (r\<lparr>lr_done := True\<rparr>) of
          None \<Rightarrow> None
        | Some r1 \<Rightarrow>
            (case close_all (lr_subs r1) r1 of
               None \<Rightarrow> None
             | Some r2 \<Rightarrow> Some (True, r2\<lparr>lr_subs := []\<rparr>))))"

definition Subscribe :: "int \<Rightarrow> live_round \<Rightarrow> (nat \<times> live_round) option" where
  "Subscribe liveBuf r =
     (let buf = (if liveBuf < 16 then 16 else liveBuf);
          bufSize = 1 + length (lr_tks r) + nat buf;
          s = lr_next r;
          c0 = \<lparr>ch_buf = [], ch_cap = bufSize, ch_closed = False\<rparr>;
          backlog = (case lr_hdr r of None \<Rightarrow> [] | Some h \<Rightarrow> [h]) @ lr_tks r
      in case send_all backlog c0 of
           None \<Rightarrow> None
         | Some c1 \<Rightarrow>
             if lr_done r then
               (case send_now done_message c1 of
                  None \<Rightarrow> None
                | Some c2 \<Rightarrow>
                    (case close_chan c2 of
                       None \<Rightarrow> None
                     | Some c3 \<Rightarrow> Some (s, r\<lparr>lr_chans := (lr_chans r)(s := c3), lr_next := Suc s\<rparr>)))
             else Some (s, r\<lparr>lr_chans := (lr_chans r)(s := c1), lr_next := Suc s,
                             lr_subs := lr_subs r @ [s]\<rparr>))"

definition Unsubscribe :: "nat \<Rightarrow> live_round \<Rightarrow> live_round option" where
  "Unsubscribe s r =
     (if s \<in> set (lr_subs r) then
        (case close_chan (lr_chans r s) of
           None \<Rightarrow> None
         | Some c \<Rightarrow> Some (r\<lparr>lr_subs := filter (\<lambda>t. t \<noteq> s) (lr_subs r),
                             lr_chans := (lr_chans r)(s := c)\<rparr>))
      else Some r)"

text \<open>The receiver \<open>m, ok := <-sub.C()\<close> when it does not block.\<close>

definition recv :: "nat \<Rightarrow> live_round \<Rightarrow> (message option \<times> live_round) option" where
  "recv s r =
     (case ch_buf (lr_chans r s) of
        m # ms \<Rightarrow> Some (Some m, r\<lparr>lr_chans := (lr_chans r)(s := (lr_chans r s)\<lparr>ch_buf := ms\<rparr>)\<rparr>)
      | [] \<Rightarrow> if ch_closed (lr_chans r s) then Some (None, r) else None)"

section \<open>What the loops compute\<close>

definition chan_full :: "chan \<Rightarrow> bool" where
  "chan_full c \<longleftrightarrow> ch_cap c \<le> length (ch_buf c)"

definition fan_chan :: "message \<Rightarrow> chan \<Rightarrow> chan" where
  "fan_chan m c = (if chan_full c then c\<lparr>ch_closed := True\<rparr> else c\<lparr>ch_buf := ch_buf c @ [m]\<rparr>)"

text \<open>On open channels the fan-out is independent of the order of the map.\<close>

lemma fanout_loop_eq:
  assumes "distinct ss" and "\<forall>s \<in> set ss. \<not> ch_closed (lr_chans r s)"
  shows "fanout_loop m ss r = Some (r\<lparr>
      lr_subs := filter (\<lambda>s. \<not> (s \<in> set ss \<and> chan_full (lr_chans r s))) (lr_subs r),
      lr_chans := (\<lambda>s. if s \<in> set ss then fan_chan m (lr_chans r s) else lr_chans r s)\<rparr>)"
  using assms
proof (induction ss arbitrary: r)
  case Nil
  then show ?case by simp
next
  case (Cons s ss)
  have open_s: "\<not> ch_closed (lr_chans r s)" and s: "s \<notin> set ss"
    using Cons.prems by auto
  let ?fan = "fan_chan m (lr_chans r s)"
  let ?subs = "filter (\<lambda>t. \<not> (t = s \<and> chan_full (lr_chans r s))) (lr_subs r)"
  let ?r = "r\<lparr>lr_subs := ?subs, lr_chans := (lr_chans r)(s := ?fan)\<rparr>"
  have keep: "filter (\<lambda>t. True) (lr_subs r) = lr_subs r" by simp
  have "fanout_loop m (s # ss) r = fanout_loop m ss ?r"
    using open_s
    by (cases "chan_full (lr_chans r s)")
      (auto simp: try_send_def close_chan_def chan_full_def fan_chan_def not_le)
  also have "\<dots> = Some (?r\<lparr>
      lr_subs := filter (\<lambda>t. \<not> (t \<in> set ss \<and> chan_full (lr_chans ?r t))) (lr_subs ?r),
      lr_chans := (\<lambda>t. if t \<in> set ss then fan_chan m (lr_chans ?r t) else lr_chans ?r t)\<rparr>)"
    using Cons.prems s by (intro Cons.IH) auto
  also have "\<dots> = Some (r\<lparr>
      lr_subs := filter (\<lambda>t. \<not> (t \<in> set (s # ss) \<and> chan_full (lr_chans r t))) (lr_subs r),
      lr_chans := (\<lambda>t. if t \<in> set (s # ss) then fan_chan m (lr_chans r t) else lr_chans r t)\<rparr>)"
    using s by (auto simp: fun_eq_iff intro!: filter_cong live_round.unfold_congs)
  finally show ?case .
qed

lemma close_all_eq:
  assumes "distinct ss" and "\<forall>s \<in> set ss. \<not> ch_closed (lr_chans r s)"
  shows "close_all ss r = Some (r\<lparr>lr_chans :=
    (\<lambda>s. if s \<in> set ss then (lr_chans r s)\<lparr>ch_closed := True\<rparr> else lr_chans r s)\<rparr>)"
  using assms
proof (induction ss arbitrary: r)
  case Nil
  then show ?case by simp
next
  case (Cons s ss)
  let ?r = "r\<lparr>lr_chans := (lr_chans r)(s := (lr_chans r s)\<lparr>ch_closed := True\<rparr>)\<rparr>"
  have "close_all (s # ss) r = close_all ss ?r"
    using Cons.prems by (simp add: close_chan_def)
  also have "\<dots> = Some (?r\<lparr>lr_chans :=
      (\<lambda>t. if t \<in> set ss then (lr_chans ?r t)\<lparr>ch_closed := True\<rparr> else lr_chans ?r t)\<rparr>)"
    using Cons.prems by (intro Cons.IH) auto
  finally show ?case
    using Cons.prems(1) by (simp add: fun_eq_iff)
qed

lemma send_all_eq:
  assumes "\<not> ch_closed c" and "length (ch_buf c) + length ms \<le> ch_cap c"
  shows "send_all ms c = Some (c\<lparr>ch_buf := ch_buf c @ ms\<rparr>)"
  using assms by (induction ms arbitrary: c) (auto simp: send_now_def try_send_def)

section \<open>The round with its clients\<close>

text \<open>
  The environment of a round: who calls what, and what every client has received so far.
  An event that cannot happen (a method on a pointer never handed out, a receive that
  blocks) is no step; a panic is \<^term>\<open>None\<close> of \<open>live_apply\<close>.
\<close>

record live_sys =
  ls_round :: live_round
  ls_got :: "nat \<Rightarrow> message list"

datatype live_event =
    LWriteHeader "byte list" | LWriteTick "byte list" | LDone
  | LSubscribe int | LUnsubscribe nat | LRecv nat

fun live_enabled :: "live_event \<Rightarrow> live_sys \<Rightarrow> bool" where
  "live_enabled (LUnsubscribe s) x = (s < lr_next (ls_round x))"
| "live_enabled (LRecv s) x = (s < lr_next (ls_round x) \<and>
     (ch_buf (lr_chans (ls_round x) s) \<noteq> [] \<or> ch_closed (lr_chans (ls_round x) s)))"
| "live_enabled _ x = True"

fun live_apply :: "live_event \<Rightarrow> live_sys \<Rightarrow> live_sys option" where
  "live_apply (LWriteHeader p) x = map_option (\<lambda>(e, r). x\<lparr>ls_round := r\<rparr>) (WriteHeader p (ls_round x))"
| "live_apply (LWriteTick p) x = map_option (\<lambda>(e, r). x\<lparr>ls_round := r\<rparr>) (WriteTick p (ls_round x))"
| "live_apply LDone x = map_option (\<lambda>(e, r). x\<lparr>ls_round := r\<rparr>) (round_Done (ls_round x))"
| "live_apply (LSubscribe n) x = map_option (\<lambda>(s, r). x\<lparr>ls_round := r\<rparr>) (Subscribe n (ls_round x))"
| "live_apply (LUnsubscribe s) x = map_option (\<lambda>r. x\<lparr>ls_round := r\<rparr>) (Unsubscribe s (ls_round x))"
| "live_apply (LRecv s) x = map_option (\<lambda>(m, r). \<lparr>ls_round = r, ls_got = (ls_got x)
     (s := ls_got x s @ (case m of None \<Rightarrow> [] | Some v \<Rightarrow> [v]))\<rparr>) (recv s (ls_round x))"

definition live_step :: "live_sys \<Rightarrow> live_event \<Rightarrow> live_sys \<Rightarrow> bool" where
  "live_step x e y \<longleftrightarrow> live_enabled e x \<and> live_apply e x = Some y"

definition live_init :: "live_sys \<Rightarrow> bool" where
  "live_init x \<longleftrightarrow> (\<exists>rid. x = \<lparr>ls_round = new_live_round rid, ls_got = (\<lambda>_. [])\<rparr>)"

text \<open>
  The specification: a round is a log (HEADER, the ticks in order, DONE), and a client's
  view, what it received and what is waiting for it, is a piece of the log from its start.
\<close>

definition live_log :: "live_round \<Rightarrow> message list" where
  "live_log r = (case lr_hdr r of None \<Rightarrow> [] | Some h \<Rightarrow> [h]) @ lr_tks r @
     (if lr_done r then [done_message] else [])"

definition live_view :: "live_sys \<Rightarrow> nat \<Rightarrow> message list" where
  "live_view x s = ls_got x s @ ch_buf (lr_chans (ls_round x) s)"

text \<open>
  The invariant, in three parts: the shape of the log; what each attached client holds; what
  every client ever created holds.  \<open>Done\<close> breaks only the last line of the whole, between
  its fan-out and the clearing of the set.
\<close>

definition log_wf :: "live_round \<Rightarrow> bool" where
  "log_wf r \<longleftrightarrow> (lr_tks r \<noteq> [] \<longrightarrow> lr_hdr r \<noteq> None) \<and>
     (\<forall>h. lr_hdr r = Some h \<longrightarrow> msg_Type h = MsgHeader) \<and>
     (\<forall>t \<in> set (lr_tks r). msg_Type t = MsgTick)"

definition attached_ok :: "live_sys \<Rightarrow> bool" where
  "attached_ok x \<longleftrightarrow> distinct (lr_subs (ls_round x)) \<and>
     (\<forall>s \<in> set (lr_subs (ls_round x)). s < lr_next (ls_round x) \<and>
        \<not> ch_closed (lr_chans (ls_round x) s) \<and> live_view x s = live_log (ls_round x))"

definition clients_ok :: "live_sys \<Rightarrow> bool" where
  "clients_ok x \<longleftrightarrow>
     (\<forall>s < lr_next (ls_round x). prefix (live_view x s) (live_log (ls_round x)) \<and>
        length (ch_buf (lr_chans (ls_round x) s)) \<le> ch_cap (lr_chans (ls_round x) s) \<and>
        (s \<notin> set (lr_subs (ls_round x)) \<longrightarrow> ch_closed (lr_chans (ls_round x) s))) \<and>
     (\<forall>s \<ge> lr_next (ls_round x). ls_got x s = [])"

definition live_core :: "live_sys \<Rightarrow> bool" where
  "live_core x \<longleftrightarrow> log_wf (ls_round x) \<and> attached_ok x \<and> clients_ok x"

definition live_inv :: "live_sys \<Rightarrow> bool" where
  "live_inv x \<longleftrightarrow> live_core x \<and> (lr_done (ls_round x) \<longrightarrow> lr_subs (ls_round x) = [])"

lemma attached_open:
  "attached_ok x \<Longrightarrow> distinct (lr_subs (ls_round x)) \<and>
     (\<forall>s \<in> set (lr_subs (ls_round x)). \<not> ch_closed (lr_chans (ls_round x) s))"
  by (simp add: attached_ok_def)

text \<open>A fan-out of the next message of the log keeps every client on the log.\<close>

definition fanned :: "message \<Rightarrow> live_round \<Rightarrow> live_round" where
  "fanned m r = r\<lparr>
     lr_subs := filter (\<lambda>s. \<not> chan_full (lr_chans r s)) (lr_subs r),
     lr_chans := (\<lambda>s. if s \<in> set (lr_subs r) then fan_chan m (lr_chans r s) else lr_chans r s)\<rparr>"

lemma fanoutLocked_eq:
  assumes "distinct (lr_subs r)" and "\<forall>s \<in> set (lr_subs r). \<not> ch_closed (lr_chans r s)"
  shows "fanoutLocked m r = Some (fanned m r)"
proof -
  have "filter (\<lambda>s. \<not> (s \<in> set (lr_subs r) \<and> chan_full (lr_chans r s))) (lr_subs r) =
      filter (\<lambda>s. \<not> chan_full (lr_chans r s)) (lr_subs r)"
    by (rule filter_cong) auto
  then show ?thesis
    using fanout_loop_eq [OF assms, of m] by (simp add: fanoutLocked_def fanned_def)
qed

lemma fan_chan_sel [simp]:
  "ch_cap (fan_chan m c) = ch_cap c"
  "ch_buf (fan_chan m c) = (if chan_full c then ch_buf c else ch_buf c @ [m])"
  "ch_closed (fan_chan m c) = (chan_full c \<or> ch_closed c)"
  by (simp_all add: fan_chan_def)

text \<open>
  The common step of \<open>WriteHeader\<close>, \<open>WriteTick\<close> and \<open>Done\<close>: the log grows by the
  message that is fanned out.
\<close>

lemma fanned_core:
  assumes core: "live_core x" and x: "ls_round x = r0"
    and r: "lr_subs r = lr_subs r0" "lr_chans r = lr_chans r0" "lr_next r = lr_next r0"
    and log: "live_log r = live_log r0 @ [m]" and wf: "log_wf r"
  shows "live_core (x\<lparr>ls_round := fanned m r\<rparr>)"
proof -
  let ?y = "x\<lparr>ls_round := fanned m r\<rparr>"
  have log': "live_log (fanned m r) = live_log r0 @ [m]"
    using log by (simp add: fanned_def live_log_def)
  have view: "live_view ?y s = (if s \<in> set (lr_subs r0) \<and> \<not> chan_full (lr_chans r0 s)
      then live_view x s @ [m] else live_view x s)" for s
    using r x by (auto simp: live_view_def fanned_def)
  have "log_wf (fanned m r)"
    using wf by (simp add: log_wf_def fanned_def)
  moreover have "attached_ok ?y"
    using core x r unfolding live_core_def attached_ok_def
    by (simp add: view log') (simp add: fanned_def)
  moreover have "clients_ok ?y"
  proof -
    have "prefix (live_view ?y s) (live_log r0 @ [m])" if "s < lr_next r0" for s
      using core x that by (auto simp: live_core_def attached_ok_def clients_ok_def view)
    moreover have "length (ch_buf (lr_chans (fanned m r) s)) \<le> ch_cap (lr_chans (fanned m r) s)"
      if "s < lr_next r0" for s
      using core x r that by (auto simp: live_core_def clients_ok_def fanned_def chan_full_def)
    moreover have "ch_closed (lr_chans (fanned m r) s)"
      if "s < lr_next r0" and "s \<notin> set (lr_subs (fanned m r))" for s
      using core x r that by (auto simp: live_core_def clients_ok_def fanned_def)
    moreover have "lr_next (fanned m r) = lr_next r0"
      using r by (simp add: fanned_def)
    ultimately show ?thesis
      using core x by (simp add: clients_ok_def live_core_def log')
  qed
  ultimately show ?thesis by (simp add: live_core_def)
qed

section \<open>Every operation keeps the invariant and none panics\<close>

lemma live_log_grows:
  "lr_hdr r = None \<Longrightarrow> lr_tks r = [] \<Longrightarrow> \<not> lr_done r \<Longrightarrow> live_log (r\<lparr>lr_hdr := Some m\<rparr>) = live_log r @ [m]"
  "\<not> lr_done r \<Longrightarrow> live_log (r\<lparr>lr_tks := lr_tks r @ [m]\<rparr>) = live_log r @ [m]"
  "\<not> lr_done r \<Longrightarrow> live_log (r\<lparr>lr_done := True\<rparr>) = live_log r @ [done_message]"
  by (simp_all add: live_log_def)

lemma WriteHeader_total:
  assumes inv: "live_inv x"
  shows "\<exists>e r. WriteHeader p (ls_round x) = Some (e, r) \<and> live_inv (x\<lparr>ls_round := r\<rparr>)"
proof -
  let ?r = "ls_round x"
  show ?thesis
  proof (cases "lr_hdr ?r = None \<and> \<not> lr_done ?r")
    case False
    with inv show ?thesis by (auto simp: WriteHeader_def)
  next
    case True
    define m where "m = \<lparr>msg_Type = MsgHeader, msg_Payload = p\<rparr>"
    have core: "live_core x" and att: "attached_ok x" and wf: "log_wf ?r"
      using inv by (auto simp: live_inv_def live_core_def)
    have tks: "lr_tks ?r = []" using wf True by (auto simp: log_wf_def)
    have "fanoutLocked m (?r\<lparr>lr_hdr := Some m\<rparr>) = Some (fanned m (?r\<lparr>lr_hdr := Some m\<rparr>))"
      using attached_open [OF att] by (intro fanoutLocked_eq) auto
    moreover have "live_core (x\<lparr>ls_round := fanned m (?r\<lparr>lr_hdr := Some m\<rparr>)\<rparr>)"
      using True tks wf live_log_grows(1)
      by (intro fanned_core [OF core refl]) (auto simp: log_wf_def m_def)
    ultimately show ?thesis
      using True by (auto simp: WriteHeader_def m_def [symmetric] Let_def live_inv_def fanned_def)
  qed
qed

lemma WriteTick_total:
  assumes inv: "live_inv x"
  shows "\<exists>e r. WriteTick p (ls_round x) = Some (e, r) \<and> live_inv (x\<lparr>ls_round := r\<rparr>)"
proof -
  let ?r = "ls_round x"
  show ?thesis
  proof (cases "lr_hdr ?r \<noteq> None \<and> \<not> lr_done ?r")
    case False
    with inv show ?thesis by (auto simp: WriteTick_def)
  next
    case True
    define m where "m = \<lparr>msg_Type = MsgTick, msg_Payload = p\<rparr>"
    have core: "live_core x" and att: "attached_ok x" and wf: "log_wf ?r"
      using inv by (auto simp: live_inv_def live_core_def)
    have "fanoutLocked m (?r\<lparr>lr_tks := lr_tks ?r @ [m]\<rparr>) =
        Some (fanned m (?r\<lparr>lr_tks := lr_tks ?r @ [m]\<rparr>))"
      using attached_open [OF att] by (intro fanoutLocked_eq) auto
    moreover have "live_core (x\<lparr>ls_round := fanned m (?r\<lparr>lr_tks := lr_tks ?r @ [m]\<rparr>)\<rparr>)"
      using True wf live_log_grows(2)
      by (intro fanned_core [OF core refl]) (auto simp: log_wf_def m_def)
    ultimately show ?thesis
      using True by (auto simp: WriteTick_def m_def [symmetric] Let_def live_inv_def fanned_def)
  qed
qed

text \<open>Clearing the set after closing the channels of whoever is still in it.\<close>

definition detached :: "live_round \<Rightarrow> live_round" where
  "detached r = r\<lparr>lr_subs := [], lr_chans := (\<lambda>s. if s \<in> set (lr_subs r)
     then (lr_chans r s)\<lparr>ch_closed := True\<rparr> else lr_chans r s)\<rparr>"

lemma detached_inv:
  assumes "live_core x"
  shows "live_inv (x\<lparr>ls_round := detached (ls_round x)\<rparr>)"
  using assms
  by (auto simp: live_inv_def live_core_def log_wf_def attached_ok_def clients_ok_def
      live_view_def live_log_def detached_def)

lemma round_Done_total:
  assumes inv: "live_inv x"
  shows "\<exists>b r. round_Done (ls_round x) = Some (b, r) \<and> live_inv (x\<lparr>ls_round := r\<rparr>) \<and>
    lr_done r \<and> (b \<longleftrightarrow> \<not> lr_done (ls_round x)) \<and> lr_id r = lr_id (ls_round x) \<and>
    live_log r = live_log (ls_round x) @ (if b then [done_message] else [])"
proof -
  let ?r = "ls_round x"
  show ?thesis
  proof (cases "lr_done ?r")
    case True
    with inv show ?thesis by (auto simp: round_Done_def)
  next
    case False
    let ?d = "?r\<lparr>lr_done := True\<rparr>"
    let ?f = "fanned done_message ?d"
    have core: "live_core x" and att: "attached_ok x" and wf: "log_wf ?r"
      using inv by (auto simp: live_inv_def live_core_def)
    have fan: "fanoutLocked done_message ?d = Some ?f"
      using attached_open [OF att] by (intro fanoutLocked_eq) auto
    have core': "live_core (x\<lparr>ls_round := ?f\<rparr>)"
      using False wf live_log_grows(3)
      by (intro fanned_core [OF core refl]) (auto simp: log_wf_def)
    have "close_all (lr_subs ?f) ?f = Some (?f\<lparr>lr_chans := (\<lambda>s. if s \<in> set (lr_subs ?f)
        then (lr_chans ?f s)\<lparr>ch_closed := True\<rparr> else lr_chans ?f s)\<rparr>)"
      using core' by (intro close_all_eq) (auto simp: live_core_def attached_ok_def)
    with fan False have "round_Done ?r = Some (True, detached ?f)"
      by (simp add: round_Done_def detached_def)
    moreover have "live_inv (x\<lparr>ls_round := detached ?f\<rparr>)"
      using detached_inv [OF core'] by simp
    ultimately show ?thesis
      using False by (auto simp: detached_def fanned_def live_log_def)
  qed
qed

text \<open>The new client's channel: everything so far, in a buffer that the backlog never fills.\<close>

definition sub_cap :: "int \<Rightarrow> live_round \<Rightarrow> nat" where
  "sub_cap n r = 1 + length (lr_tks r) + nat (if n < 16 then 16 else n)"

lemma Subscribe_eq:
  "Subscribe n r = Some (lr_next r, r\<lparr>
     lr_chans := (lr_chans r)(lr_next r :=
       \<lparr>ch_buf = live_log r, ch_cap = sub_cap n r, ch_closed = lr_done r\<rparr>),
     lr_next := Suc (lr_next r),
     lr_subs := lr_subs r @ (if lr_done r then [] else [lr_next r])\<rparr>)"
proof -
  define backlog where "backlog = (case lr_hdr r of None \<Rightarrow> [] | Some h \<Rightarrow> [h]) @ lr_tks r"
  define c0 where "c0 = \<lparr>ch_buf = [], ch_cap = sub_cap n r, ch_closed = False\<rparr>"
  have len: "length backlog < sub_cap n r"
    by (auto simp: backlog_def sub_cap_def split: option.split)
  then have "send_all backlog c0 = Some (c0\<lparr>ch_buf := backlog\<rparr>)"
    using send_all_eq [of c0 backlog] by (simp add: c0_def)
  then show ?thesis
    using len
    unfolding Subscribe_def Let_def sub_cap_def [symmetric] backlog_def [symmetric] c0_def [symmetric]
    by (simp add: c0_def send_now_def try_send_def close_chan_def live_log_def backlog_def)
qed

lemma live_log_le_cap: "length (live_log r) \<le> sub_cap n r"
  by (auto simp: live_log_def sub_cap_def split: option.split)

lemma Subscribe_total:
  assumes inv: "live_inv x"
  shows "\<exists>s r. Subscribe n (ls_round x) = Some (s, r) \<and> live_inv (x\<lparr>ls_round := r\<rparr>)"
proof -
  let ?r = "ls_round x"
  let ?r' = "snd (the (Subscribe n ?r))"
  have log: "live_log ?r' = live_log ?r"
    by (simp add: Subscribe_eq live_log_def)
  have view: "live_view (x\<lparr>ls_round := ?r'\<rparr>) s =
      (if s = lr_next ?r then ls_got x s @ live_log ?r else live_view x s)" for s
    by (simp add: Subscribe_eq live_view_def)
  have got: "ls_got x (lr_next ?r) = []"
    using inv by (simp add: live_inv_def live_core_def clients_ok_def)
  have "attached_ok (x\<lparr>ls_round := ?r'\<rparr>)"
    using inv got unfolding live_inv_def live_core_def attached_ok_def view
    by (auto simp: log) (auto simp: Subscribe_eq split: if_splits)
  moreover have "clients_ok (x\<lparr>ls_round := ?r'\<rparr>)"
    using inv got live_log_le_cap [of ?r n] unfolding live_inv_def live_core_def clients_ok_def view
    by (auto simp: log) (auto simp: Subscribe_eq less_Suc_eq split: if_splits)
  moreover have "log_wf ?r'"
    using inv by (simp add: live_inv_def live_core_def log_wf_def Subscribe_eq)
  ultimately have "live_inv (x\<lparr>ls_round := ?r'\<rparr>)"
    using inv by (simp add: live_inv_def live_core_def Subscribe_eq)
  then show ?thesis by (auto simp: Subscribe_eq)
qed

lemma Unsubscribe_total:
  assumes inv: "live_inv x"
  shows "\<exists>r. Unsubscribe s (ls_round x) = Some r \<and> live_inv (x\<lparr>ls_round := r\<rparr>)"
proof (cases "s \<in> set (lr_subs (ls_round x))")
  case False
  with inv show ?thesis by (simp add: Unsubscribe_def)
next
  case True
  let ?r = "ls_round x"
  let ?r' = "?r\<lparr>lr_subs := filter (\<lambda>t. t \<noteq> s) (lr_subs ?r),
    lr_chans := (lr_chans ?r)(s := (lr_chans ?r s)\<lparr>ch_closed := True\<rparr>)\<rparr>"
  have "Unsubscribe s ?r = Some ?r'"
    using inv True by (auto simp: Unsubscribe_def close_chan_def live_inv_def live_core_def attached_ok_def)
  moreover have "live_inv (x\<lparr>ls_round := ?r'\<rparr>)"
    using inv
    by (auto simp: live_inv_def live_core_def log_wf_def attached_ok_def clients_ok_def
        live_view_def live_log_def)
  ultimately show ?thesis by blast
qed

lemma recv_inv:
  assumes inv: "live_inv x" and "live_enabled (LRecv s) x" and "live_apply (LRecv s) x = Some y"
  shows "live_inv y"
proof (cases "ch_buf (lr_chans (ls_round x) s)")
  case Nil
  with assms show ?thesis by (cases x) (auto simp: recv_def split: if_splits)
next
  case (Cons m ms)
  let ?r = "ls_round x"
  let ?r' = "?r\<lparr>lr_chans := (lr_chans ?r)(s := (lr_chans ?r s)\<lparr>ch_buf := ms\<rparr>)\<rparr>"
  have y: "y = \<lparr>ls_round = ?r', ls_got = (ls_got x)(s := ls_got x s @ [m])\<rparr>"
    using assms(3) Cons by (auto simp: recv_def)
  have view: "live_view y t = live_view x t" for t
    using Cons by (simp add: y live_view_def)
  have log: "live_log ?r' = live_log ?r" by (simp add: live_log_def)
  have "attached_ok y"
    using inv unfolding live_inv_def live_core_def attached_ok_def view by (simp add: y log)
  moreover have "clients_ok y"
    using inv assms(2) Cons unfolding live_inv_def live_core_def clients_ok_def view
    by (auto simp: y log)
  moreover have "log_wf (ls_round y)"
    using inv by (simp add: y live_inv_def live_core_def log_wf_def)
  ultimately show ?thesis
    using inv by (simp add: live_inv_def live_core_def y)
qed

lemma live_apply_total:
  assumes inv: "live_inv x" and en: "live_enabled e x"
  shows "\<exists>y. live_apply e x = Some y \<and> live_inv y"
proof (cases e)
  case (LWriteHeader p)
  then show ?thesis using WriteHeader_total [OF inv, of p] by auto
next
  case (LWriteTick p)
  then show ?thesis using WriteTick_total [OF inv, of p] by auto
next
  case LDone
  then show ?thesis using round_Done_total [OF inv] by auto
next
  case (LSubscribe n)
  then show ?thesis using Subscribe_total [OF inv, of n] by auto
next
  case (LUnsubscribe s)
  then show ?thesis using Unsubscribe_total [OF inv, of s] by auto
next
  case (LRecv s)
  with en have "recv s (ls_round x) \<noteq> None"
    by (auto simp: recv_def split: list.split)
  with LRecv obtain y where "live_apply e x = Some y" by auto
  with recv_inv [OF inv, of s y] en LRecv show ?thesis by auto
qed

lemma live_init_inv: "live_init x \<Longrightarrow> live_inv x"
  by (auto simp: live_init_def live_inv_def live_core_def log_wf_def attached_ok_def
      clients_ok_def new_live_round_def)

interpretation live: invariant_system live_init live_step live_inv
proof (unfold_locales, goal_cases)
  case (1 x)
  then show ?case by (rule live_init_inv)
next
  case (2 x e y)
  then show ?case using live_apply_total [of x e] by (auto simp: live_step_def)
qed

text \<open>Whoever holds DONE, received or waiting, holds the whole log.\<close>

lemma view_with_done:
  assumes inv: "live_inv x" and s: "s < lr_next (ls_round x)"
    and d: "\<exists>m \<in> set (live_view x s). msg_Type m = MsgDone"
  shows "lr_done (ls_round x) \<and> live_view x s = live_log (ls_round x)"
proof -
  let ?r = "ls_round x"
  let ?body = "(case lr_hdr ?r of None \<Rightarrow> [] | Some h \<Rightarrow> [h]) @ lr_tks ?r"
  have pre: "prefix (live_view x s) (live_log ?r)" and wf: "log_wf ?r"
    using inv s by (auto simp: live_inv_def live_core_def clients_ok_def)
  have nodone: "msg_Type m \<noteq> MsgDone" if "m \<in> set ?body" for m
    using wf that by (auto simp: log_wf_def msg_types split: option.splits)
  show ?thesis
  proof (cases "lr_done ?r")
    case False
    then have "live_log ?r = ?body" by (simp add: live_log_def)
    with pre d nodone set_mono_prefix [OF pre] show ?thesis by auto
  next
    case True
    then have log: "live_log ?r = ?body @ [done_message]" by (simp add: live_log_def)
    have "live_view x s = live_log ?r \<or> prefix (live_view x s) ?body"
      using pre unfolding log by (simp only: prefix_snoc)
    with d nodone set_mono_prefix [of "live_view x s" ?body] True show ?thesis by auto
  qed
qed

section \<open>Properties\<close>

text \<open>
  No interleaving of header, tick and DONE writes, subscriptions, unsubscriptions and
  receives ever panics (a send on a closed channel, a second close) or blocks while the
  round's mutex is held: every enabled call on a reachable round returns.
\<close>

theorem live_round_never_panics:
  assumes "reach live_init live_step x" and "live_enabled e x"
  shows "\<exists>y. live_apply e x = Some y"
  using live_apply_total [OF live.reach_inv [OF assms(1)] assms(2)] by blast

definition demo_live :: live_sys where
  "demo_live = \<lparr>ls_round = new_live_round 42, ls_got = (\<lambda>_. [])\<rparr>"

lemma demo_live_reachable: "reach live_init live_step demo_live"
  by (rule reach_init) (auto simp: live_init_def demo_live_def)

theorem live_round_never_panics_witness: "\<exists>y. live_apply (LSubscribe 180) demo_live = Some y"
  by (rule live_round_never_panics [OF demo_live_reachable]) simp

text \<open>
  The fan-out is a broadcast from tick 0: in every reachable state each client, whenever
  it joined and however slow it was, has received together with what waits in its channel a
  piece of the log HEADER, ticks in order, DONE from its start, exactly the whole log while
  it is attached; a client that holds DONE holds the whole log; and a client that was
  detached gets no more than its channel still holds.
\<close>

theorem live_clients_see_log:
  assumes "reach live_init live_step x" and "s < lr_next (ls_round x)"
  shows "prefix (live_view x s) (live_log (ls_round x)) \<and>
    (s \<in> set (lr_subs (ls_round x)) \<longrightarrow> live_view x s = live_log (ls_round x)) \<and>
    ((\<exists>m \<in> set (live_view x s). msg_Type m = MsgDone) \<longrightarrow>
       live_view x s = live_log (ls_round x)) \<and>
    (s \<notin> set (lr_subs (ls_round x)) \<longrightarrow> ch_closed (lr_chans (ls_round x) s))"
proof -
  have inv: "live_inv x" by (rule live.reach_inv [OF assms(1)])
  then have "attached_ok x" and "clients_ok x"
    by (simp_all add: live_inv_def live_core_def)
  with assms(2) view_with_done [OF inv assms(2)] show ?thesis
    unfolding attached_ok_def clients_ok_def by blast
qed

text \<open>A late client of a round that has written its header and one tick.\<close>

definition demo_live_late :: live_sys where
  "demo_live_late = the (live_apply (LSubscribe 180) (the (live_apply (LWriteTick [7])
     (the (live_apply (LWriteHeader [1, 2]) demo_live)))))"

lemma demo_live_late_eval:
  "live_apply (LWriteHeader [1, 2]) demo_live = Some (the (live_apply (LWriteHeader [1, 2]) demo_live))"
  "live_apply (LWriteTick [7]) (the (live_apply (LWriteHeader [1, 2]) demo_live)) =
    Some (the (live_apply (LWriteTick [7]) (the (live_apply (LWriteHeader [1, 2]) demo_live))))"
  "live_apply (LSubscribe 180) (the (live_apply (LWriteTick [7])
     (the (live_apply (LWriteHeader [1, 2]) demo_live)))) = Some demo_live_late"
  by (simp_all add: demo_live_late_def demo_live_def WriteHeader_def WriteTick_def fanoutLocked_def
      new_live_round_def Subscribe_eq)

lemma demo_live_late_reachable: "reach live_init live_step demo_live_late"
  using demo_live_reachable demo_live_late_eval
  by (meson live_step_def live_enabled.simps reach_step)

theorem live_clients_see_log_witness:
  "live_view demo_live_late 0 = live_log (ls_round demo_live_late) \<and>
   map msg_Payload (live_log (ls_round demo_live_late)) = [[1, 2], [7]]"
proof -
  have "0 < lr_next (ls_round demo_live_late)" and "0 \<in> set (lr_subs (ls_round demo_live_late))"
    and "map msg_Payload (live_log (ls_round demo_live_late)) = [[1, 2], [7]]"
    by (simp_all add: demo_live_late_def demo_live_def WriteHeader_def WriteTick_def fanoutLocked_def
        new_live_round_def Subscribe_eq live_log_def)
  with live_clients_see_log [OF demo_live_late_reachable, of 0] show ?thesis by blast
qed

end
