(* ===== verification/Stream_Ingest.thy ===== *)
theory Stream_Ingest
  imports Stream_Hub
begin

text \<open>
  The hub's table of live rounds (server/stream/stream.go), the ingress that feeds a round
  from one TCP connection of the simulator (server/stream/ingest.go) and the list of live
  rounds served over HTTP (server/stream/ws.go).  A connection is the list of bytes that
  will arrive before it ends; logging is left out.
\<close>

section \<open>The hub\<close>

text \<open>Rounds are pointers into a heap; the table keeps the order of opening.\<close>

record hub =
  hub_rounds :: "(u64 \<times> nat) list"
  hub_heap :: "nat \<Rightarrow> live_round"
  hub_next :: nat

definition NewHub :: hub where
  "NewHub = \<lparr>hub_rounds = [], hub_heap = (\<lambda>_. new_live_round 0), hub_next = 0\<rparr>"

definition hub_Open :: "u64 \<Rightarrow> hub \<Rightarrow> (gerr + nat) \<times> hub" where
  "hub_Open rid h =
     (if map_of (hub_rounds h) rid \<noteq> None
        then (Inl (Wrapf ''id='' (Sentinel (StreamErr ErrStreamRoundExists))), h)
      else (Inr (hub_next h), h\<lparr>hub_rounds := hub_rounds h @ [(rid, hub_next h)],
              hub_heap := (hub_heap h)(hub_next h := new_live_round rid),
              hub_next := Suc (hub_next h)\<rparr>))"

definition hub_Lookup :: "u64 \<Rightarrow> hub \<Rightarrow> nat option" where
  "hub_Lookup rid h = map_of (hub_rounds h) rid"

definition ActiveRounds :: "hub \<Rightarrow> u64 list" where
  "ActiveRounds h = map fst (hub_rounds h)"

text \<open>\<open>delete(r.hub.rounds, r.id)\<close>, the second atomic step of \<open>Done\<close>.\<close>

definition hub_remove :: "u64 \<Rightarrow> hub \<Rightarrow> hub" where
  "hub_remove rid h = h\<lparr>hub_rounds := filter (\<lambda>(i, p). i \<noteq> rid) (hub_rounds h)\<rparr>"

definition hub_Done :: "nat \<Rightarrow> hub \<Rightarrow> hub option" where
  "hub_Done p h =
     (case round_Done (hub_heap h p) of
        None \<Rightarrow> None
      | Some (finished, r) \<Rightarrow>
          (let h' = h\<lparr>hub_heap := (hub_heap h)(p := r)\<rparr> in
           Some (if finished then hub_remove (lr_id r) h' else h')))"

section \<open>The ingress\<close>

text \<open>The message loop of \<open>handleConn\<close>; the result is the round when the loop returns.\<close>

function ingest_loop :: "byte list \<Rightarrow> live_round \<Rightarrow> live_round option" where
  "ingest_loop inp r =
     (case read_message MaxPayloadBytes inp of
        Inl e \<Rightarrow> Some r
      | Inr (m, rest) \<Rightarrow>
          if msg_Type m = MsgHeader then
            (case WriteHeader (msg_Payload m) r of
               None \<Rightarrow> None
             | Some (Some e, r') \<Rightarrow> Some r'
             | Some (None, r') \<Rightarrow> ingest_loop rest r')
          else if msg_Type m = MsgTick then
            (case WriteTick (msg_Payload m) r of
               None \<Rightarrow> None
             | Some (Some e, r') \<Rightarrow> Some r'
             | Some (None, r') \<Rightarrow> ingest_loop rest r')
          else Some r)"
  by pat_completeness auto
termination
  by (relation "measure (\<lambda>(inp, r). length inp)") (auto dest: msg.dec_consumes)

declare ingest_loop.simps [simp del]

definition handle_conn :: "byte list \<Rightarrow> hub \<Rightarrow> hub option" where
  "handle_conn inp h =
     (case read_full 8 inp of
        Inl e \<Rightarrow> Some h
      | Inr (idBuf, rest) \<Rightarrow>
          (case hub_Open (le64_of idBuf) h of
             (Inl e, h1) \<Rightarrow> Some h1
           | (Inr p, h1) \<Rightarrow>
               (case ingest_loop rest (hub_heap h1 p) of
                  None \<Rightarrow> None
                | Some r \<Rightarrow> hub_Done p (h1\<lparr>hub_heap := (hub_heap h1)(p := r)\<rparr>))))"

section \<open>The list of live rounds\<close>

text \<open>The hand-rolled JSON of \<open>encodeActiveList\<close>; a double quote is character 34.\<close>

fun join_ids :: "nat \<Rightarrow> string list \<Rightarrow> string" where
  "join_ids i [] = []"
| "join_ids i (x # xs) =
     (if 0 < i then '','' else []) @ [CHR 0x22] @ x @ [CHR 0x22] @ join_ids (Suc i) xs"

definition encode_active_list :: "string list \<Rightarrow> string" where
  "encode_active_list ids =
     [CHR 0x7B, CHR 0x22] @ ''round_ids'' @ [CHR 0x22] @ '':['' @ join_ids 0 ids @ [CHR 0x5D, CHR 0x7D]"

definition active_list_body :: "hub \<Rightarrow> string" where
  "active_list_body h = encode_active_list (map format_uint (ActiveRounds h))"

section \<open>What a connection does to its round\<close>

definition round_ok :: "live_round \<Rightarrow> bool" where
  "round_ok r \<longleftrightarrow> (\<exists>got. live_inv \<lparr>ls_round = r, ls_got = got\<rparr>)"

lemma round_ok_new [simp]: "round_ok (new_live_round rid)"
  using live_init_inv [of "\<lparr>ls_round = new_live_round rid, ls_got = (\<lambda>_. [])\<rparr>"]
  by (auto simp: round_ok_def live_init_def)

text \<open>
  The effect of a writer call on the log, for a round in good order: it is refused and
  changes nothing, or the log grows by exactly the message.
\<close>

lemma fanned_log [simp]:
  "live_log (fanned m r) = live_log r" "lr_hdr (fanned m r) = lr_hdr r"
  "lr_done (fanned m r) = lr_done r" "lr_id (fanned m r) = lr_id r"
  by (simp_all add: fanned_def live_log_def)

lemma round_ok_open:
  assumes "round_ok r"
  shows "fanoutLocked m (r\<lparr>lr_hdr := h\<rparr>) = Some (fanned m (r\<lparr>lr_hdr := h\<rparr>))"
    and "fanoutLocked m (r\<lparr>lr_tks := ts\<rparr>) = Some (fanned m (r\<lparr>lr_tks := ts\<rparr>))"
  using assms
  by (auto simp: round_ok_def live_inv_def live_core_def dest!: attached_open intro!: fanoutLocked_eq)

lemma WriteHeader_ok:
  assumes ok: "round_ok r" and "\<not> lr_done r"
  shows "\<exists>e r'. WriteHeader p r = Some (e, r') \<and> round_ok r' \<and> \<not> lr_done r' \<and> lr_id r' = lr_id r \<and>
    (if lr_hdr r = None
     then e = None \<and> lr_hdr r' \<noteq> None \<and> live_log r' = live_log r @ [\<lparr>msg_Type = MsgHeader, msg_Payload = p\<rparr>]
     else e \<noteq> None \<and> r' = r)"
proof -
  obtain got where inv: "live_inv \<lparr>ls_round = r, ls_got = got\<rparr>"
    using ok by (auto simp: round_ok_def)
  obtain e r' where w: "WriteHeader p r = Some (e, r')" and "round_ok r'"
    using WriteHeader_total [OF inv, of p] by (auto simp: round_ok_def)
  moreover have "lr_tks r = []" if "lr_hdr r = None"
    using inv that by (auto simp: live_inv_def live_core_def log_wf_def)
  ultimately show ?thesis
    using assms(2) round_ok_open(1) [OF ok]
    by (auto simp: WriteHeader_def Let_def live_log_grows split: if_splits)
qed

lemma WriteTick_ok:
  assumes ok: "round_ok r" and "\<not> lr_done r"
  shows "\<exists>e r'. WriteTick p r = Some (e, r') \<and> round_ok r' \<and> \<not> lr_done r' \<and> lr_id r' = lr_id r \<and>
    (if lr_hdr r \<noteq> None
     then e = None \<and> lr_hdr r' \<noteq> None \<and> live_log r' = live_log r @ [\<lparr>msg_Type = MsgTick, msg_Payload = p\<rparr>]
     else e \<noteq> None \<and> r' = r)"
proof -
  obtain got where inv: "live_inv \<lparr>ls_round = r, ls_got = got\<rparr>"
    using ok by (auto simp: round_ok_def)
  obtain e r' where w: "WriteTick p r = Some (e, r')" and "round_ok r'"
    using WriteTick_total [OF inv, of p] by (auto simp: round_ok_def)
  then show ?thesis
    using assms(2) round_ok_open(2) [OF ok]
    by (auto simp: WriteTick_def Let_def live_log_grows split: if_splits)
qed

lemma round_Done_ok:
  assumes ok: "round_ok r" and "\<not> lr_done r"
  shows "\<exists>r'. round_Done r = Some (True, r') \<and> round_ok r' \<and> lr_done r' \<and> lr_id r' = lr_id r \<and>
    live_log r' = live_log r @ [done_message]"
proof -
  obtain got where inv: "live_inv \<lparr>ls_round = r, ls_got = got\<rparr>"
    using ok by (auto simp: round_ok_def)
  then show ?thesis
    using round_Done_total [OF inv] assms(2) by (auto simp: round_ok_def)
qed

section \<open>The relay specification\<close>

text \<open>
  What a connection is meant to put on the log of its round: one header first, then ticks,
  up to the first message out of order.
\<close>

fun relay :: "bool \<Rightarrow> message list \<Rightarrow> message list" where
  "relay seen [] = []"
| "relay seen (m # ms) =
     (if msg_Type m = MsgHeader then (if seen then [] else m # relay True ms)
      else if msg_Type m = MsgTick then (if seen then m # relay seen ms else [])
      else [])"

definition sendable :: "message \<Rightarrow> bool" where
  "sendable m \<longleftrightarrow> length (msg_Payload m) \<le> unat MaxPayloadBytes"

lemma message_eq [simp]: "\<lparr>msg_Type = msg_Type m, msg_Payload = msg_Payload m\<rparr> = (m :: message)"
  by (cases m) simp

lemma ingest_loop_cons:
  assumes "sendable m"
  shows "ingest_loop (encode_message m @ rest) r =
    (if msg_Type m = MsgHeader then
       (case WriteHeader (msg_Payload m) r of
          None \<Rightarrow> None | Some (Some e, r') \<Rightarrow> Some r' | Some (None, r') \<Rightarrow> ingest_loop rest r')
     else if msg_Type m = MsgTick then
       (case WriteTick (msg_Payload m) r of
          None \<Rightarrow> None | Some (Some e, r') \<Rightarrow> Some r' | Some (None, r') \<Rightarrow> ingest_loop rest r')
     else Some r)"
  using assms
  by (subst ingest_loop.simps) (simp add: msg.dec_enc sendable_def)

lemma ingest_loop_relay:
  assumes "round_ok r" and "\<not> lr_done r" and "\<forall>m \<in> set ms. sendable m"
    and "read_message MaxPayloadBytes rest = Inl err"
  shows "\<exists>r'. ingest_loop (concat (map encode_message ms) @ rest) r = Some r' \<and> round_ok r' \<and>
    \<not> lr_done r' \<and> lr_id r' = lr_id r \<and> live_log r' = live_log r @ relay (lr_hdr r \<noteq> None) ms"
  using assms(1-3)
proof (induction ms arbitrary: r)
  case Nil
  then show ?case using assms(4) by (subst ingest_loop.simps) simp
next
  case (Cons m ms)
  have m: "sendable m" using Cons.prems by simp
  consider (hdr) "msg_Type m = MsgHeader" | (tick) "msg_Type m = MsgTick"
    | (other) "msg_Type m \<noteq> MsgHeader" "msg_Type m \<noteq> MsgTick" by blast
  then show ?case
  proof cases
    case hdr
    have eq: "\<lparr>msg_Type = MsgHeader, msg_Payload = msg_Payload m\<rparr> = m"
      using hdr message_eq [of m] by simp
    obtain e r1 where w: "WriteHeader (msg_Payload m) r = Some (e, r1)" "round_ok r1" "\<not> lr_done r1"
      "lr_id r1 = lr_id r" and
      eff: "if lr_hdr r = None then e = None \<and> lr_hdr r1 \<noteq> None \<and> live_log r1 = live_log r @ [m]
        else e \<noteq> None \<and> r1 = r"
      using WriteHeader_ok [OF Cons.prems(1,2), of "msg_Payload m"] unfolding eq by blast
    show ?thesis
      using Cons.IH [OF w(2,3)] Cons.prems w eff hdr
      by (cases "lr_hdr r = None") (auto simp: ingest_loop_cons [OF m])
  next
    case tick
    then have nh: "msg_Type m \<noteq> MsgHeader" by (simp add: msg_types)
    have eq: "\<lparr>msg_Type = MsgTick, msg_Payload = msg_Payload m\<rparr> = m"
      using tick message_eq [of m] by simp
    obtain e r1 where w: "WriteTick (msg_Payload m) r = Some (e, r1)" "round_ok r1" "\<not> lr_done r1"
      "lr_id r1 = lr_id r" and
      eff: "if lr_hdr r \<noteq> None then e = None \<and> lr_hdr r1 \<noteq> None \<and> live_log r1 = live_log r @ [m]
        else e \<noteq> None \<and> r1 = r"
      using WriteTick_ok [OF Cons.prems(1,2), of "msg_Payload m"] unfolding eq by blast
    show ?thesis
      using Cons.IH [OF w(2,3)] Cons.prems w eff tick nh
      by (cases "lr_hdr r = None") (auto simp: ingest_loop_cons [OF m])
  next
    case other
    with Cons.prems show ?thesis by (simp add: ingest_loop_cons [OF m])
  qed
qed

text \<open>Whatever bytes arrive, they are some complete messages and a rest that is not one.\<close>

lemma split_stream:
  "\<exists>ms rest err. inp = concat (map encode_message ms) @ rest \<and> (\<forall>m \<in> set ms. sendable m) \<and>
     read_message MaxPayloadBytes rest = Inl err"
proof (induction "length inp" arbitrary: inp rule: less_induct)
  case less
  show ?case
  proof (cases "read_message MaxPayloadBytes inp")
    case (Inl e)
    then have "inp = concat (map encode_message []) @ inp \<and> (\<forall>m \<in> set []. sendable m) \<and>
        read_message MaxPayloadBytes inp = Inl e" by simp
    then show ?thesis by blast
  next
    case (Inr mr)
    then obtain m rest where mr: "read_message MaxPayloadBytes inp = Inr (m, rest)" by (cases mr) auto
    obtain ms rest' err where rest: "rest = concat (map encode_message ms) @ rest'"
      "\<forall>m \<in> set ms. sendable m" "read_message MaxPayloadBytes rest' = Inl err"
      using less [OF msg.dec_consumes [OF mr]] by blast
    have m: "inp = encode_message m @ rest" "sendable m"
      using msg.enc_dec [OF mr] by (auto simp: sendable_def)
    have "inp = concat (map encode_message (m # ms)) @ rest' \<and> (\<forall>n \<in> set (m # ms). sendable n) \<and>
        read_message MaxPayloadBytes rest' = Inl err"
      using m rest by simp
    then show ?thesis by blast
  qed
qed

section \<open>The table of live rounds\<close>

definition hub_inv :: "hub \<Rightarrow> bool" where
  "hub_inv h \<longleftrightarrow> distinct (map fst (hub_rounds h)) \<and>
     (\<forall>(rid, p) \<in> set (hub_rounds h). p < hub_next h \<and> round_ok (hub_heap h p) \<and>
        lr_id (hub_heap h p) = rid \<and> \<not> lr_done (hub_heap h p))"

lemma NewHub_inv [inv_intros]: "hub_inv NewHub"
  by (simp add: hub_inv_def NewHub_def)

lemma hub_Open_cases:
  "hub_Open rid h = (if rid \<in> set (ActiveRounds h)
     then (Inl (Wrapf ''id='' (Sentinel (StreamErr ErrStreamRoundExists))), h)
     else (Inr (hub_next h), h\<lparr>hub_rounds := hub_rounds h @ [(rid, hub_next h)],
              hub_heap := (hub_heap h)(hub_next h := new_live_round rid),
              hub_next := Suc (hub_next h)\<rparr>))"
  by (auto simp: hub_Open_def ActiveRounds_def map_of_eq_None_iff)

lemma hub_Open_inv [inv_intros]:
  assumes "hub_inv h" and "hub_Open rid h = (res, h')"
  shows "hub_inv h'"
  using assms
  by (fastforce simp: hub_inv_def hub_Open_cases ActiveRounds_def new_live_round_def
      round_ok_new [unfolded new_live_round_def] split: if_splits)

lemma filter_other_ids:
  "rid \<notin> set (map fst xs) \<Longrightarrow> filter (\<lambda>(i, p). i \<noteq> rid) (xs :: ('a \<times> 'b) list) = xs"
  by (induction xs) auto

lemma hub_inv_next [inv_intros]:
  "hub_inv h \<Longrightarrow> hub_inv (h\<lparr>hub_heap := (hub_heap h)(hub_next h := r), hub_next := Suc (hub_next h)\<rparr>)"
  by (fastforce simp: hub_inv_def)

text \<open>What a connection does to the hub, whatever bytes it brings.\<close>

lemma handle_conn_eq:
  assumes "hub_inv h"
  shows "handle_conn inp h = Some
    (if length inp < 8 \<or> le64_of (take 8 inp) \<in> set (ActiveRounds h) then h
     else h\<lparr>hub_heap := (hub_heap h)(hub_next h := snd (the (round_Done
              (the (ingest_loop (drop 8 inp) (new_live_round (le64_of (take 8 inp)))))))),
            hub_next := Suc (hub_next h)\<rparr>)"
proof -
  let ?rid = "le64_of (take 8 inp)"
  obtain ms rest err where inp: "drop 8 inp = concat (map encode_message ms) @ rest"
    "\<forall>m \<in> set ms. sendable m" "read_message MaxPayloadBytes rest = Inl err"
    using split_stream by blast
  have new: "\<not> lr_done (new_live_round ?rid)" "lr_id (new_live_round ?rid) = ?rid"
    by (simp_all add: new_live_round_def)
  obtain r where r: "ingest_loop (drop 8 inp) (new_live_round ?rid) = Some r" "round_ok r"
    "\<not> lr_done r" "lr_id r = ?rid"
    using ingest_loop_relay [OF round_ok_new new(1) inp(2,3)] new(2) unfolding inp(1) by metis
  obtain r' where r': "round_Done r = Some (True, r')" "lr_id r' = ?rid"
    using round_Done_ok [OF r(2,3)] r(4) by auto
  have "filter (\<lambda>(i, p). i \<noteq> ?rid) (hub_rounds h) = hub_rounds h" if "?rid \<notin> set (ActiveRounds h)"
    using that by (intro filter_other_ids) (simp add: ActiveRounds_def)
  with r r' show ?thesis
    by (auto simp: handle_conn_def read_full_def hub_Open_cases hub_Done_def hub_remove_def Let_def)
qed

section \<open>Properties\<close>

text \<open>
  Whatever bytes a simulator connection brings and wherever they break off, its handler
  returns without a panic, the round it opened is finalized and no longer listed, the hub's
  invariant holds again, and no round that existed before is touched; a connection that
  claims the id of a live round changes nothing.
\<close>

theorem handle_conn_isolated:
  assumes "hub_inv h"
  shows "\<exists>h'. handle_conn inp h = Some h' \<and> hub_inv h' \<and> hub_rounds h' = hub_rounds h \<and>
    (\<forall>p. p < hub_next h \<longrightarrow> hub_heap h' p = hub_heap h p) \<and>
    (le64_of (take 8 inp) \<in> set (ActiveRounds h) \<longrightarrow> h' = h)"
  using assms by (auto simp: handle_conn_eq intro: inv_intros)

definition demo_hub :: hub where
  "demo_hub = snd (hub_Open 7 NewHub)"

lemma demo_hub_inv: "hub_inv demo_hub"
  using NewHub_inv by (auto simp: demo_hub_def intro: hub_Open_inv [OF _ prod.collapse [symmetric]])

theorem handle_conn_isolated_witness:
  "handle_conn [7, 0, 0, 0, 0, 0, 0, 0, 1] demo_hub = Some demo_hub \<and> ActiveRounds demo_hub = [7]"
proof -
  have id: "le64_of (take 8 [7, 0, 0, 0, 0, 0, 0, 0, 1]) = 7" and act: "ActiveRounds demo_hub = [7]"
    by (simp_all add: demo_hub_def hub_Open_def ActiveRounds_def NewHub_def)
  show ?thesis
    using handle_conn_isolated [OF demo_hub_inv, of "[7, 0, 0, 0, 0, 0, 0, 0, 1]"] id act by auto
qed

text \<open>
  For a round id that is not live the round's log, the thing every client sees a piece
  of, is exactly what the simulator was allowed to send, a header and then ticks up to the
  first message out of order, closed by DONE, also when the connection broke in the middle
  of a message.
\<close>

theorem handle_conn_relays:
  assumes "hub_inv h" and "length idBuf = 8" and "le64_of idBuf \<notin> set (ActiveRounds h)"
    and "\<forall>m \<in> set ms. sendable m" and "read_message MaxPayloadBytes rest = Inl err"
    and "handle_conn (idBuf @ concat (map encode_message ms) @ rest) h = Some h'"
  shows "live_log (hub_heap h' (hub_next h)) = relay False ms @ [done_message] \<and>
    lr_id (hub_heap h' (hub_next h)) = le64_of idBuf"
proof -
  let ?new = "new_live_round (le64_of idBuf)"
  have new: "\<not> lr_done ?new" "lr_id ?new = le64_of idBuf" "lr_hdr ?new = None" "live_log ?new = []"
    by (simp_all add: new_live_round_def live_log_def)
  obtain r where r: "ingest_loop (concat (map encode_message ms) @ rest) ?new = Some r" "round_ok r"
    "\<not> lr_done r" "lr_id r = le64_of idBuf" "live_log r = relay False ms"
    using ingest_loop_relay [OF round_ok_new new(1) assms(4,5)] new by auto
  from round_Done_ok [OF r(2,3)] r(1,4,5) assms show ?thesis
    by (auto simp: handle_conn_eq [OF assms(1)])
qed

theorem handle_conn_relays_witness:
  "live_log (hub_heap (the (handle_conn ([9, 0, 0, 0, 0, 0, 0, 0] @ concat (map encode_message
     [\<lparr>msg_Type = MsgHeader, msg_Payload = [1]\<rparr>, \<lparr>msg_Type = MsgTick, msg_Payload = [2]\<rparr>,
      \<lparr>msg_Type = MsgHeader, msg_Payload = [3]\<rparr>]) @ []) NewHub)) 0) =
   [\<lparr>msg_Type = MsgHeader, msg_Payload = [1]\<rparr>, \<lparr>msg_Type = MsgTick, msg_Payload = [2]\<rparr>, done_message]"
proof -
  let ?id = "[9, 0, 0, 0, 0, 0, 0, 0] :: byte list"
  let ?ms = "[\<lparr>msg_Type = MsgHeader, msg_Payload = [1]\<rparr>, \<lparr>msg_Type = MsgTick, msg_Payload = [2]\<rparr>,
      \<lparr>msg_Type = MsgHeader, msg_Payload = [3]\<rparr>]"
  have "handle_conn (?id @ concat (map encode_message ?ms) @ []) NewHub =
      Some (the (handle_conn (?id @ concat (map encode_message ?ms) @ []) NewHub))"
    by (simp only: handle_conn_eq [OF NewHub_inv] option.sel)
  from handle_conn_relays [OF NewHub_inv _ _ _ _ this]
  show ?thesis
    by (simp add: ActiveRounds_def NewHub_def sendable_def MaxPayloadBytes_def read_message_def
        read_full_def msg_types)
qed

end
