(* ===== verification/Stream_Ws.thy ===== *)
theory Stream_Ws
  imports Stream_Ingest Http
begin

text \<open>
  The WebSocket side of a live round (server/stream/ws.go, \<open>WSHandler\<close>): who is admitted,
  and the loop that forwards a subscriber's channel to its connection.  The websocket package
  is not under the repository: the outcome of each \<open>conn.Write\<close> is an input of the step.
\<close>

section \<open>The handler\<close>

text \<open>The number of live messages a client may lag behind.\<close>

definition ws_buffer :: int where
  "ws_buffer = 180"

text \<open>A refusal with its status, or the round the client is connected to.\<close>

definition ws_admit :: "string \<Rightarrow> hub \<Rightarrow> int + nat" where
  "ws_admit ids h =
     (case parse_uint ids of
        Inl e \<Rightarrow> Inl 400
      | Inr rid \<Rightarrow> (case hub_Lookup rid h of None \<Rightarrow> Inl 404 | Some p \<Rightarrow> Inr p))"

text \<open>The handler up to the upgrade of the connection, which is a parameter; the active list.\<close>

definition ws_enter :: "(nat \<Rightarrow> 'd wop list) \<Rightarrow> string \<Rightarrow> hub \<Rightarrow> 'd wop list" where
  "ws_enter upgrade ids h =
     (case ws_admit ids h of
        Inl code \<Rightarrow> http_Error (if code = 400 then ''bad round id'' else ''round not live'') code
      | Inr p \<Rightarrow> upgrade p)"

definition active_list :: "hub \<Rightarrow> 'd wop list" where
  "active_list h =
     [SetHeader ''Content-Type'' ''application/json'', SetHeader ''Access-Control-Allow-Origin'' ''*'',
      Write (Text (active_list_body h))]"

record ws_conn =
  wc_sub :: nat
  wc_frames :: "byte list list"
  wc_running :: bool
  wc_ended :: bool

text \<open>
  What \<open>select\<close> finds: the channel can be received from, with the outcome of the write that
  follows a message, or the request's context is done.
\<close>

datatype ws_choice = ChannelReady "gerr option" | ContextDone

definition ws_start :: "live_round \<Rightarrow> (ws_conn \<times> live_round) option" where
  "ws_start r =
     (case Subscribe ws_buffer r of
        None \<Rightarrow> None
      | Some (s, r') \<Rightarrow> Some (\<lparr>wc_sub = s, wc_frames = [], wc_running = True, wc_ended = False\<rparr>, r'))"

fun ws_loop_step :: "ws_choice \<Rightarrow> ws_conn \<Rightarrow> live_round \<Rightarrow> (ws_conn \<times> live_round) option" where
  "ws_loop_step (ChannelReady w) c r =
     (case recv (wc_sub c) r of
        None \<Rightarrow> None
      | Some (None, r1) \<Rightarrow> Some (c\<lparr>wc_running := False, wc_ended := True\<rparr>, r1)
      | Some (Some m, r1) \<Rightarrow>
          (case w of
             None \<Rightarrow> Some (c\<lparr>wc_frames := wc_frames c @ [encode_inline m]\<rparr>, r1)
           | Some e \<Rightarrow> map_option (\<lambda>r2. (c\<lparr>wc_running := False\<rparr>, r2)) (Unsubscribe (wc_sub c) r1)))"
| "ws_loop_step ContextDone c r = map_option (\<lambda>r1. (c\<lparr>wc_running := False\<rparr>, r1)) (Unsubscribe (wc_sub c) r)"

section \<open>The handler among the other callers\<close>

text \<open>
  The round with all its clients, and one connection.  Everybody else makes the calls of
  \<open>live_event\<close>, but never receives from or unsubscribes this connection's subscriber.
\<close>

record ws_sys =
  wx_live :: live_sys
  wx_conn :: ws_conn

datatype ws_event = Others live_event | Handler ws_choice

definition foreign :: "live_event \<Rightarrow> nat \<Rightarrow> bool" where
  "foreign e s = (e \<noteq> LRecv s \<and> e \<noteq> LUnsubscribe s)"

text \<open>The handler's step on the whole: its receive is recorded as the client's.\<close>

definition received :: "ws_choice \<Rightarrow> nat \<Rightarrow> live_round \<Rightarrow> message list" where
  "received ch s r =
     (case ch of ContextDone \<Rightarrow> []
      | ChannelReady w \<Rightarrow> (case recv s r of Some (Some m, r1) \<Rightarrow> [m] | _ \<Rightarrow> []))"

fun ws_step :: "ws_sys \<Rightarrow> ws_event \<Rightarrow> ws_sys \<Rightarrow> bool" where
  "ws_step x (Others e) y \<longleftrightarrow> foreign e (wc_sub (wx_conn x)) \<and> live_step (wx_live x) e (wx_live y) \<and> wx_conn y = wx_conn x"
| "ws_step x (Handler ch) y \<longleftrightarrow> wc_running (wx_conn x) \<and>
     ws_loop_step ch (wx_conn x) (ls_round (wx_live x)) = Some (wx_conn y, ls_round (wx_live y)) \<and>
     ls_got (wx_live y) = (ls_got (wx_live x))(wc_sub (wx_conn x) :=
       ls_got (wx_live x) (wc_sub (wx_conn x)) @ received ch (wc_sub (wx_conn x)) (ls_round (wx_live x)))"

text \<open>A connection begins on any reachable round.\<close>

definition ws_init :: "ws_sys \<Rightarrow> bool" where
  "ws_init x \<longleftrightarrow> (\<exists>l r. reach live_init live_step l \<and> ws_start (ls_round l) = Some (wx_conn x, r) \<and> wx_live x = l\<lparr>ls_round := r\<rparr>)"

definition ws_inv :: "ws_sys \<Rightarrow> bool" where
  "ws_inv x \<longleftrightarrow> (let s = wc_sub (wx_conn x) in
     reach live_init live_step (wx_live x) \<and> s < lr_next (ls_round (wx_live x)) \<and>
     prefix (wc_frames (wx_conn x)) (map encode_inline (ls_got (wx_live x) s)) \<and>
     (wc_running (wx_conn x) \<or> wc_ended (wx_conn x) \<longrightarrow>
        wc_frames (wx_conn x) = map encode_inline (ls_got (wx_live x) s)) \<and>
     (wc_ended (wx_conn x) \<longrightarrow> \<not> wc_running (wx_conn x)))"

lemma live_sys_eqI: "ls_round x = ls_round y \<Longrightarrow> ls_got x = ls_got y \<Longrightarrow> x = (y :: live_sys)"
  by simp

lemma foreign_got: "foreign e s \<Longrightarrow> live_apply e x = Some y \<Longrightarrow> ls_got y s = ls_got x s"
  by (cases e) (auto simp: foreign_def)

lemma fanout_loop_next: "fanout_loop m ss r = Some r' \<Longrightarrow> lr_next r' = lr_next r"
proof (induction ss arbitrary: r)
  case (Cons s ss)
  then show ?case by (auto split: send_result.splits option.splits dest!: Cons.IH)
qed simp

lemma close_all_next: "close_all ss r = Some r' \<Longrightarrow> lr_next r' = lr_next r"
proof (induction ss arbitrary: r)
  case (Cons s ss)
  then show ?case by (auto split: option.splits dest!: Cons.IH)
qed simp

text \<open>Subscribers are never taken back: a number handed out stays below the next one.\<close>

lemma live_apply_next: "live_apply e x = Some y \<Longrightarrow> lr_next (ls_round x) \<le> lr_next (ls_round y)"
proof (cases e)
  case (LWriteHeader p)
  then show "live_apply e x = Some y \<Longrightarrow> ?thesis"
    by (auto simp: WriteHeader_def fanoutLocked_def Let_def dest!: fanout_loop_next split: if_splits)
next
  case (LWriteTick p)
  then show "live_apply e x = Some y \<Longrightarrow> ?thesis"
    by (auto simp: WriteTick_def fanoutLocked_def Let_def dest!: fanout_loop_next split: if_splits)
next
  case LDone
  then show "live_apply e x = Some y \<Longrightarrow> ?thesis"
    by (auto simp: round_Done_def fanoutLocked_def dest!: fanout_loop_next close_all_next
        split: if_splits option.splits)
next
  case (LSubscribe n)
  then show "live_apply e x = Some y \<Longrightarrow> ?thesis" by (auto simp: Subscribe_eq)
next
  case (LUnsubscribe s)
  then show "live_apply e x = Some y \<Longrightarrow> ?thesis"
    by (auto simp: Unsubscribe_def split: if_splits option.splits)
next
  case (LRecv s)
  then show "live_apply e x = Some y \<Longrightarrow> ?thesis"
    by (auto simp: recv_def split: if_splits list.splits)
qed

lemma ws_loop_step_sub: "ws_loop_step ch c r = Some (c', r') \<Longrightarrow> wc_sub c' = wc_sub c"
  by (cases ch) (auto split: option.splits)

text \<open>A step of the handler is one or two calls of a client on the round.\<close>

lemma handler_calls:
  assumes inv: "ws_inv x" and stp: "ws_step x (Handler ch) y"
  shows "reach live_init live_step (wx_live y) \<and> wc_sub (wx_conn y) = wc_sub (wx_conn x) \<and>
    wc_sub (wx_conn x) < lr_next (ls_round (wx_live y))"
proof -
  let ?s = "wc_sub (wx_conn x)"
  have r: "reach live_init live_step (wx_live x)" and s: "?s < lr_next (ls_round (wx_live x))"
    using inv by (simp_all add: ws_inv_def Let_def)
  have sub: "wc_sub (wx_conn y) = ?s"
    using stp by (auto intro: ws_loop_step_sub)
  have step: "reach live_init live_step l' \<and> ?s < lr_next (ls_round l')"
    if "reach live_init live_step l" "live_apply e l = Some l'" "live_enabled e l" "?s < lr_next (ls_round l)" for e l l'
    using that live_apply_next [OF that(2)] by (auto simp: live_step_def intro: reach_step)
  show ?thesis
  proof (cases ch)
    case ContextDone
    then have "live_apply (LUnsubscribe ?s) (wx_live x) = Some (wx_live y)"
      using stp by (auto simp: received_def)
    with step [OF r _ _ s, of "LUnsubscribe ?s" "wx_live y"] s sub show ?thesis by auto
  next
    case (ChannelReady w)
    then obtain m r1 where m: "recv ?s (ls_round (wx_live x)) = Some (m, r1)"
      using stp by (auto split: option.splits)
    define l1 where "l1 = \<lparr>ls_round = r1, ls_got = (ls_got (wx_live x))
      (?s := ls_got (wx_live x) ?s @ (case m of None \<Rightarrow> [] | Some v \<Rightarrow> [v]))\<rparr>"
    have "live_apply (LRecv ?s) (wx_live x) = Some l1"
      using m by (simp add: l1_def)
    moreover have "live_enabled (LRecv ?s) (wx_live x)"
      using m s by (auto simp: recv_def split: list.splits if_splits)
    ultimately have l1: "reach live_init live_step l1" "?s < lr_next (ls_round l1)"
      using step [OF r _ _ s] by blast+
    show ?thesis
    proof (cases "m = None \<or> w = None")
      case True
      then have "wx_live y = l1"
        using stp m ChannelReady by (auto simp: l1_def received_def split: option.splits)
      with l1 sub show ?thesis by simp
    next
      case False
      then have "live_apply (LUnsubscribe ?s) l1 = Some (wx_live y)"
        using stp m ChannelReady by (auto simp: l1_def received_def split: option.splits)
      with step [OF l1(1) _ _ l1(2), of "LUnsubscribe ?s" "wx_live y"] l1 sub show ?thesis by auto
    qed
  qed
qed

lemma ws_loop_frames:
  assumes "ws_loop_step ch c r = Some (c', r')" and "wc_running c" and "\<not> wc_ended c"
  shows "wc_frames c' = wc_frames c @
      (if wc_running c' \<or> wc_ended c' then map encode_inline (received ch (wc_sub c) r) else []) \<and>
    (wc_ended c' \<longrightarrow> \<not> wc_running c')"
  using assms by (cases ch) (auto simp: received_def split: option.splits)

lemma ws_inv_step:
  assumes inv: "ws_inv x" and stp: "ws_step x e y"
  shows "ws_inv y"
proof (cases e)
  case (Others e')
  with stp have o: "foreign e' (wc_sub (wx_conn x))" "live_step (wx_live x) e' (wx_live y)"
      "wx_conn y = wx_conn x"
    by simp_all
  then have "ls_got (wx_live y) (wc_sub (wx_conn x)) = ls_got (wx_live x) (wc_sub (wx_conn x))"
    using foreign_got by (auto simp: live_step_def)
  moreover have "lr_next (ls_round (wx_live x)) \<le> lr_next (ls_round (wx_live y))"
    using o(2) live_apply_next by (auto simp: live_step_def)
  ultimately show ?thesis
    using inv o(2,3) reach_step by (auto simp: ws_inv_def Let_def)
next
  case (Handler ch)
  let ?s = "wc_sub (wx_conn x)"
  have h: "wc_running (wx_conn x)"
      "ws_loop_step ch (wx_conn x) (ls_round (wx_live x)) = Some (wx_conn y, ls_round (wx_live y))"
      "ls_got (wx_live y) ?s = ls_got (wx_live x) ?s @ received ch ?s (ls_round (wx_live x))"
    using stp Handler by simp_all
  with inv have fr: "wc_frames (wx_conn x) = map encode_inline (ls_got (wx_live x) ?s)"
      "\<not> wc_ended (wx_conn x)"
    by (auto simp: ws_inv_def Let_def)
  have calls: "reach live_init live_step (wx_live y)" "wc_sub (wx_conn y) = ?s" "?s < lr_next (ls_round (wx_live y))"
    using handler_calls [OF inv] stp Handler by blast+
  have frames: "wc_frames (wx_conn y) = map encode_inline (ls_got (wx_live x) ?s) @
      (if wc_running (wx_conn y) \<or> wc_ended (wx_conn y)
       then map encode_inline (received ch ?s (ls_round (wx_live x))) else [])"
      "wc_ended (wx_conn y) \<longrightarrow> \<not> wc_running (wx_conn y)"
    using ws_loop_frames [OF h(2) h(1) fr(2)] fr(1) by simp_all
  show ?thesis
    unfolding ws_inv_def Let_def calls(2) frames(1) h(3) using calls(1,3) frames(2) by simp
qed

lemma ws_init_inv: "ws_init x \<Longrightarrow> ws_inv x"
proof -
  assume "ws_init x"
  then obtain l r s where l: "reach live_init live_step l" "Subscribe ws_buffer (ls_round l) = Some (s, r)"
      "wx_conn x = \<lparr>wc_sub = s, wc_frames = [], wc_running = True, wc_ended = False\<rparr>"
      "wx_live x = l\<lparr>ls_round := r\<rparr>"
    by (auto simp: ws_init_def ws_start_def split: option.splits)
  then have "live_step l (LSubscribe ws_buffer) (wx_live x)"
    by (simp add: live_step_def)
  with l(1) have "reach live_init live_step (wx_live x)" by (rule reach_step)
  moreover have "ls_got l s = []" and "s < lr_next r"
    using live.reach_inv [OF l(1)] l(2) by (auto simp: Subscribe_eq live_inv_def live_core_def clients_ok_def)
  ultimately show "ws_inv x" using l(3,4) by (simp add: ws_inv_def)
qed

interpretation ws: invariant_system ws_init ws_step ws_inv
  by unfold_locales (auto intro: ws_init_inv ws_inv_step)

section \<open>What a WebSocket client sees\<close>

lemma log_with_done:
  assumes wf: "log_wf r" and pre: "prefix ms (live_log r)" and d: "done_message \<in> set ms"
  shows "ms = live_log r"
proof -
  let ?body = "(case lr_hdr r of None \<Rightarrow> [] | Some h \<Rightarrow> [h]) @ lr_tks r"
  have "done_message \<notin> set ?body"
    using wf by (cases "lr_hdr r") (auto simp: log_wf_def done_message_def msg_types)
  then have no: "\<not> prefix ms ?body" using d set_mono_prefix by blast
  show ?thesis
  proof (cases "lr_done r")
    case True
    then have "live_log r = ?body @ [done_message]" by (simp add: live_log_def)
    with pre no show ?thesis by (simp only: prefix_snoc) simp
  next
    case False
    with pre no show ?thesis by (simp add: live_log_def)
  qed
qed

text \<open>
  Whatever the simulation writes and the other clients do, the frames a connection has
  been sent are, one message per frame in the wire format of the TCP stream, a piece of the
  round's log from its start (late or slow as the client may be), and a connection that was
  sent DONE was sent the whole log.
\<close>

theorem ws_client_relays:
  assumes "reach ws_init ws_step x"
  shows "\<exists>ms. wc_frames (wx_conn x) = map encode_inline ms \<and> prefix ms (live_log (ls_round (wx_live x))) \<and>
    (done_message \<in> set ms \<longrightarrow> ms = live_log (ls_round (wx_live x)))"
proof -
  have inv: "ws_inv x" by (rule ws.reach_inv [OF assms])
  let ?l = "wx_live x" let ?s = "wc_sub (wx_conn x)"
  have r: "reach live_init live_step ?l" and s: "?s < lr_next (ls_round ?l)"
    using inv by (simp_all add: ws_inv_def Let_def)
  then have li: "live_inv ?l" by (auto intro: live.reach_inv)
  then have pre: "prefix (live_view ?l ?s) (live_log (ls_round ?l))"
    using s by (simp add: live_inv_def live_core_def clients_ok_def)
  obtain ms where ms: "wc_frames (wx_conn x) = map encode_inline ms" "prefix ms (ls_got ?l ?s)"
    using inv unfolding ws_inv_def Let_def by (metis prefix_map_rightE)
  have view: "prefix ms (live_view ?l ?s)"
    using ms(2) by (simp add: live_view_def)
  with pre have log: "prefix ms (live_log (ls_round ?l))" by auto
  moreover have "log_wf (ls_round ?l)" using li by (simp add: live_inv_def live_core_def)
  ultimately show ?thesis using ms(1) log_with_done by blast
qed

text \<open>A client that connects after the header and a tick, then is sent the header.\<close>

definition demo_ws :: ws_sys where
  "demo_ws = (case the (ws_start (ls_round demo_live_late)) of (c, r) \<Rightarrow>
     \<lparr>wx_live = demo_live_late\<lparr>ls_round := r\<rparr>, wx_conn = c\<rparr>)"

definition demo_ws_sent :: ws_sys where
  "demo_ws_sent = (case the (ws_loop_step (ChannelReady None) (wx_conn demo_ws) (ls_round (wx_live demo_ws))) of (c, r) \<Rightarrow>
     \<lparr>wx_live = \<lparr>ls_round = r, ls_got = (ls_got (wx_live demo_ws))(1 := [\<lparr>msg_Type = MsgHeader, msg_Payload = [1, 2]\<rparr>])\<rparr>,
      wx_conn = c\<rparr>)"

lemmas demo_ws_eval = demo_live_late_def demo_live_def WriteHeader_def WriteTick_def fanoutLocked_def
  new_live_round_def Subscribe_eq live_log_def try_send_def

lemma demo_ws_init: "ws_init demo_ws"
proof -
  have "ws_start (ls_round demo_live_late) = Some (wx_conn demo_ws, ls_round (wx_live demo_ws))"
    by (simp add: demo_ws_def ws_start_def Subscribe_eq)
  moreover have "wx_live demo_ws = demo_live_late\<lparr>ls_round := ls_round (wx_live demo_ws)\<rparr>"
    by (simp add: demo_ws_def ws_start_def Subscribe_eq)
  ultimately show ?thesis unfolding ws_init_def using demo_live_late_reachable by blast
qed

lemma demo_ws_step: "ws_step demo_ws (Handler (ChannelReady None)) demo_ws_sent"
  by (simp add: demo_ws_sent_def demo_ws_def ws_start_def demo_ws_eval recv_def received_def fun_eq_iff)

theorem ws_client_relays_witness:
  "\<exists>ms. wc_frames (wx_conn demo_ws_sent) = map encode_inline ms \<and> prefix ms (live_log (ls_round (wx_live demo_ws_sent))) \<and>
    length ms = 1"
proof -
  have "length (wc_frames (wx_conn demo_ws_sent)) = 1"
    by (simp add: demo_ws_sent_def demo_ws_def ws_start_def demo_ws_eval recv_def)
  moreover have "reach ws_init ws_step demo_ws" by (rule reach_init) (rule demo_ws_init)
  then have "reach ws_init ws_step demo_ws_sent" using demo_ws_step by (rule reach_step)
  then have "\<exists>ms. wc_frames (wx_conn demo_ws_sent) = map encode_inline ms \<and>
      prefix ms (live_log (ls_round (wx_live demo_ws_sent))) \<and>
      (done_message \<in> set ms \<longrightarrow> ms = live_log (ls_round (wx_live demo_ws_sent)))"
    by (rule ws_client_relays)
  ultimately show ?thesis by auto
qed

end
