(* ===== verification/Replayd.thy ===== *)
theory Replayd
  imports Archive_Api Stream_Ws
begin

text \<open>
  The archive daemon's own code (server/cmd/replayd/main.go): which content coding a client
  accepts, and the precompressed copies of the web bundle's large files, with the path
  handling that keeps requests inside the static directory, and the root mux over archive, live
  rounds and static files.  The file system is a parameter.
\<close>

section \<open>Content codings\<close>

definition token_allows :: "string \<Rightarrow> string \<Rightarrow> bool" where
  "token_allows enc part =
     (let token = TrimSpace part; name = takeWhile (\<lambda>c. c \<noteq> CHR '';'') token; params = drop (length name) token in
      if params \<noteq> [] then
        \<not> (contains_str params ''q=0'' \<and> \<not> contains_str params ''q=0.'') \<and> equal_fold (TrimSpace name) enc
      else equal_fold token enc)"

definition acceptEncodingAllows :: "string \<Rightarrow> string \<Rightarrow> bool" where
  "acceptEncodingAllows header enc = list_ex (token_allows enc) (split_at_char CHR '','' header)"

section \<open>Precompressed files\<close>

record static_fs =
  fs_stat :: "string \<Rightarrow> gerr + nat \<times> bool"
  fs_open :: "string \<Rightarrow> gerr + byte list"

datatype static_doc = FileBytes "byte list"

definition content_type :: "string \<Rightarrow> string" where
  "content_type ext = (if ext = ''.wasm'' then ''application/wasm'' else ''text/javascript; charset=utf-8'')"

text \<open>The loop over the codings; \<open>None\<close> leaves the request to the plain file server.\<close>

fun try_codings :: "static_fs \<Rightarrow> http_request \<Rightarrow> string \<Rightarrow> string \<Rightarrow> (string \<times> string) list \<Rightarrow> static_doc wop list option" where
  "try_codings fs r root ext [] = None"
| "try_codings fs r root ext ((sfx, encoding) # codings) =
     (if \<not> acceptEncodingAllows (rq_header r ''Accept-Encoding'') encoding then try_codings fs r root ext codings
      else (let cleaned = Clean (rq_path r) in
        if contains_str cleaned ''..'' then None
        else (let diskPath = Join2 root (cleaned @ sfx) in
          case fs_stat fs diskPath of
            Inl e \<Rightarrow> try_codings fs r root ext codings
          | Inr (len, isDir) \<Rightarrow>
              if isDir then try_codings fs r root ext codings
              else (case fs_open fs diskPath of
                  Inl e \<Rightarrow> try_codings fs r root ext codings
                | Inr bytes \<Rightarrow>
                    Some ([SetHeader ''Content-Type'' (content_type ext), SetHeader ''Content-Encoding'' encoding,
                           SetHeader ''Content-Length'' (format_nat len), SetHeader ''Vary'' ''Accept-Encoding''] @
                          (if rq_method r = ''HEAD'' then [] else [Write (Doc (FileBytes bytes))]))))))"

definition servePrecompressed :: "static_fs \<Rightarrow> http_request \<Rightarrow> string \<Rightarrow> static_doc wop list option" where
  "servePrecompressed fs r root =
     (if rq_method r \<noteq> ''GET'' \<and> rq_method r \<noteq> ''HEAD'' then None
      else (let ext = Ext (rq_path r) in
        if ext \<noteq> ''.wasm'' \<and> ext \<noteq> ''.js'' then None
        else try_codings fs r root ext [(''.br'', ''br''), (''.gz'', ''gzip'')]))"

text \<open>The handler at \<open>/\<close>, before Go's file server.\<close>

definition static_handler :: "static_fs \<Rightarrow> string \<Rightarrow> ('s, static_doc) handler \<Rightarrow> ('s, static_doc) handler" where
  "static_handler fs root fileServer r s =
     (case servePrecompressed fs r root of
        Some ops \<Rightarrow> (SetHeader ''Cache-Control'' ''no-store'' # ops, None, s)
      | None \<Rightarrow> (case fileServer r s of (ops, p, s') \<Rightarrow> (SetHeader ''Cache-Control'' ''no-store'' # ops, p, s')))"

section \<open>The root\<close>

text \<open>
  The mux of \<open>main\<close> on the store's disk and the hub.  The archive's answers, the file
  server, the upgrade of a connection and the mux's own answers come from outside.
\<close>

datatype replayd_doc = ArchivePart archive_doc | StaticPart static_doc

record replayd_env =
  rp_archive :: archive_env
  rp_upgrade :: "http_request \<Rightarrow> nat \<Rightarrow> replayd_doc wop list"
  rp_static :: "(string \<times> static_fs) option"
  rp_files :: "http_request \<Rightarrow> static_doc wop list"
  rp_mux :: "http_request \<Rightarrow> replayd_doc wop list"

definition live_id :: "string \<Rightarrow> string option" where
  "live_id path =
     (let rest = drop 6 path in
      if has_prefix path ''/live/'' \<and> rest \<noteq> [] \<and> CHR ''/'' \<notin> set rest then Some rest else None)"

definition replayd_root :: "replayd_env \<Rightarrow> (disk \<times> hub, replayd_doc) handler" where
  "replayd_root env r s =
     (if mux_redirects r then (rp_mux env r, None, s)
      else if rq_path r = ''/rounds'' \<or> has_prefix (rq_path r) ''/rounds/'' then
        (case archive_handler (rp_archive env) r (fst s) of (ops, p, fs) \<Rightarrow> (map (map_wop ArchivePart) ops, p, (fs, snd s)))
      else if rq_path r = ''/live'' then (active_list (snd s), None, s)
      else (case live_id (rq_path r) of
          Some ids \<Rightarrow> (ws_enter (rp_upgrade env r) ids (snd s), None, s)
        | None \<Rightarrow>
            (case rp_static env of
               None \<Rightarrow> (rp_mux env r, None, s)
             | Some (root, files) \<Rightarrow>
                 (case static_handler files root (\<lambda>q t. (rp_files env q, None, t)) r s of
                    (ops, p, s') \<Rightarrow> (map (map_wop StaticPart) ops, p, s')))))"

text \<open>Serving never changes the store or the hub.\<close>

lemma replayd_read_only:
  assumes "replayd_root env r s = (ops, p, s')"
  shows "p = None \<and> s' = s"
  using assms archive_read_only [of "rp_archive env" r "fst s"]
  by (auto simp: replayd_root_def static_handler_def split: if_splits option.splits prod.splits)

section \<open>Where a cleaned path leads\<close>

lemma split_nonempty [simp]: "split_at_char c s \<noteq> []"
  by (induction s) (auto split: list.split)

lemma split_append: "split_at_char c (a @ c # b) = split_at_char c a @ split_at_char c b"
  by (induction a) (auto split: list.split)

lemma split_no_sep: "c \<notin> set s \<Longrightarrow> split_at_char c s = [s]"
  by (induction s) auto

lemma split_members: "x \<in> set (split_at_char c s) \<Longrightarrow> c \<notin> set x"
proof (induction s arbitrary: x)
  case (Cons d s)
  obtain y ys where ys: "split_at_char c s = y # ys" by (meson neq_Nil_conv split_nonempty)
  show ?case
  proof (cases "d = c")
    case True
    with Cons show ?thesis by auto
  next
    case False
    with Cons.prems ys consider "x = d # y" | "x \<in> set ys" by auto
    then show ?thesis using Cons.IH [of y] Cons.IH [of x] ys False by cases auto
  qed
qed simp

lemma split_join:
  "ss \<noteq> [] \<Longrightarrow> \<forall>s \<in> set ss. c \<notin> set s \<Longrightarrow> c = CHR ''/'' \<Longrightarrow> split_at_char c (join_slash ss @ t) = butlast ss @ split_at_char c (last ss @ t)"
proof (induction ss rule: join_slash.induct)
  case (3 s s' ss)
  have "split_at_char c (join_slash (s # s' # ss) @ t) = split_at_char c (s @ c # (join_slash (s' # ss) @ t))"
    using "3.prems"(3) by simp
  also have "\<dots> = [s] @ split_at_char c (join_slash (s' # ss) @ t)"
    using "3.prems"(2) by (simp only: split_append) (simp add: split_no_sep)
  finally show ?case using "3.IH" "3.prems" by simp
qed auto

lemma clean_segs_append:
  "clean_segs r stk (xs @ ys) = clean_segs r (rev (clean_segs r stk xs)) ys"
  by (induction r stk xs rule: clean_segs.induct) auto

lemma clean_segs_plain:
  "''..'' \<notin> set ys \<Longrightarrow> clean_segs r stk ys = rev stk @ filter (\<lambda>s. s \<noteq> [] \<and> s \<noteq> ''.'') ys"
  by (induction r stk ys rule: clean_segs.induct) auto

lemma clean_segs_rooted:
  "''..'' \<notin> set stk \<Longrightarrow> ''..'' \<notin> set (clean_segs True stk ss)"
proof (induction "True" stk ss rule: clean_segs.induct)
  case (2 stk s ss)
  have "set (tl stk) \<subseteq> set stk" by (cases stk) auto
  with 2 show ?case by auto
qed simp

lemma clean_segs_subset: "set (clean_segs r stk ss) \<subseteq> set stk \<union> set ss"
proof (induction r stk ss rule: clean_segs.induct)
  case (2 r stk s ss)
  have "set (tl stk) \<subseteq> set stk" by (cases stk) auto
  with 2 show ?case by auto blast+
qed simp

lemma path_segs_no_slash: "s \<in> set (path_segs p) \<Longrightarrow> CHR ''/'' \<notin> set s"
  using clean_segs_subset [of "is_rooted p" "[]" "split_at_char CHR ''/'' p"] split_members
  by (auto simp: path_segs_def)

text \<open>The segments of a cleaned request path with a sfx on its last name.\<close>

lemma cleaned_suffix_segs:
  assumes "is_rooted p" and "2 < length sfx" and "CHR ''/'' \<notin> set sfx"
  shows "''..'' \<notin> set (split_at_char CHR ''/'' (Clean p @ sfx))"
proof -
  have ps: "''..'' \<notin> set (path_segs p)" using assms(1) by (simp add: path_segs_def clean_segs_rooted)
  have long: "x @ sfx \<noteq> ''..''" for x
  proof
    assume "x @ sfx = ''..''"
    then have "length (x @ sfx) = 2" by simp
    with assms(2) show False by simp
  qed
  have eq: "split_at_char CHR ''/'' (Clean p @ sfx) = [] # split_at_char CHR ''/'' (join_slash (path_segs p) @ sfx)"
    using assms(1) by (simp add: Clean_def slashed_def)
  show ?thesis
  proof (cases "path_segs p = []")
    case True
    with eq assms(3) long [of "[]"] show ?thesis by (simp add: split_no_sep)
  next
    case False
    have "CHR ''/'' \<notin> set (last (path_segs p) @ sfx)"
      using False assms(3) path_segs_no_slash last_in_set by auto
    with eq split_join [OF False, of "CHR ''/''" sfx] path_segs_no_slash
    have "set (split_at_char CHR ''/'' (Clean p @ sfx)) = {[]} \<union> set (butlast (path_segs p)) \<union> {last (path_segs p) @ sfx}"
      by (simp add: split_no_sep insert_commute)
    moreover have "''..'' \<notin> set (butlast (path_segs p))" using ps in_set_butlastD by fast
    moreover have "''..'' \<noteq> last (path_segs p) @ sfx" using long by metis
    ultimately show ?thesis by simp
  qed
qed

lemma join_inside_root:
  assumes "root \<noteq> []" and "is_rooted p" and "2 < length sfx" and "CHR ''/'' \<notin> set sfx" and "sfx \<noteq> []"
  shows "\<exists>tail. path_segs (root @ CHR ''/'' # (Clean p @ sfx)) = path_segs root @ tail \<and> ''..'' \<notin> set tail"
proof -
  have r: "is_rooted (root @ CHR ''/'' # (Clean p @ sfx)) = is_rooted root"
    using assms(1) by (simp add: is_rooted_def)
  have "path_segs (root @ CHR ''/'' # (Clean p @ sfx)) =
      path_segs root @ filter (\<lambda>s. s \<noteq> [] \<and> s \<noteq> ''.'') (split_at_char CHR ''/'' (Clean p @ sfx))"
    unfolding path_segs_def r split_append clean_segs_append
    using clean_segs_plain [OF cleaned_suffix_segs [OF assms(2-4)]] by simp
  then show ?thesis using cleaned_suffix_segs [OF assms(2-4)] by auto
qed

lemma try_codings_Some:
  assumes "try_codings fs r root ext cs = Some ops"
  shows "\<exists>sfx encoding len bytes. (sfx, encoding) \<in> set cs \<and>
    acceptEncodingAllows (rq_header r ''Accept-Encoding'') encoding \<and>
    fs_stat fs (Join2 root (Clean (rq_path r) @ sfx)) = Inr (len, False) \<and>
    fs_open fs (Join2 root (Clean (rq_path r) @ sfx)) = Inr bytes \<and>
    ops = [SetHeader ''Content-Type'' (content_type ext), SetHeader ''Content-Encoding'' encoding,
           SetHeader ''Content-Length'' (format_nat len), SetHeader ''Vary'' ''Accept-Encoding''] @
          (if rq_method r = ''HEAD'' then [] else [Write (Doc (FileBytes bytes))])"
  using assms
proof (induction cs)
  case (Cons c cs)
  obtain sfx encoding where c: "c = (sfx, encoding)" by (cases c)
  show ?case
  proof (cases "try_codings fs r root ext cs = Some ops")
    case True
    from Cons.IH [OF this] show ?thesis by (simp only: list.set) blast
  next
    case False
    with Cons.prems c show ?thesis
      by (fastforce simp: Let_def split: if_splits sum.splits prod.splits)
  qed
qed simp

section \<open>Properties\<close>

definition inside_root :: "string \<Rightarrow> string \<Rightarrow> bool" where
  "inside_root root file \<longleftrightarrow> (\<exists>tail. file = slashed (is_rooted root) (path_segs root @ tail) \<and> ''..'' \<notin> set tail)"

lemma Join2_inside_root:
  assumes "root \<noteq> []" and "is_rooted p" and "sfx \<in> {''.br'', ''.gz''}"
  shows "inside_root root (Join2 root (Clean p @ sfx))"
proof -
  have suf: "2 < length sfx" "CHR ''/'' \<notin> set sfx" "sfx \<noteq> []" using assms(3) by auto
  have "is_rooted (root @ CHR ''/'' # (Clean p @ sfx)) = is_rooted root"
    using assms(1) by (simp add: is_rooted_def)
  with join_inside_root [OF assms(1,2) suf] suf(3) assms(1) show ?thesis
    by (auto simp: Join2_def Clean_def inside_root_def)
qed

text \<open>
  C39: a precompressed file is only served to a client that accepts its coding, with that
  coding in the response, and only from inside the static directory: whatever the request
  path, its dots and slashes included, the file opened is the directory's own cleaned path
  followed by segments none of which is a dot-dot.
\<close>

theorem precompressed_stays_inside:
  assumes "servePrecompressed fs r root = Some ops" and "is_rooted (rq_path r)" and "root \<noteq> []"
  shows "\<exists>file encoding bytes. inside_root root file \<and> fs_open fs file = Inr bytes \<and>
    encoding \<in> {''br'', ''gzip''} \<and> acceptEncodingAllows (rq_header r ''Accept-Encoding'') encoding \<and>
    SetHeader ''Content-Encoding'' encoding \<in> set ops \<and>
    (\<forall>chunk. Write chunk \<in> set ops \<longrightarrow> chunk = Doc (FileBytes bytes))"
proof -
  have "try_codings fs r root (Ext (rq_path r)) [(''.br'', ''br''), (''.gz'', ''gzip'')] = Some ops"
    using assms(1) by (simp add: servePrecompressed_def Let_def split: if_splits)
  from try_codings_Some [OF this] obtain sfx encoding len bytes where
    c: "(sfx, encoding) \<in> set [(''.br'', ''br''), (''.gz'', ''gzip'')]"
      "acceptEncodingAllows (rq_header r ''Accept-Encoding'') encoding"
      "fs_open fs (Join2 root (Clean (rq_path r) @ sfx)) = Inr bytes"
      "ops = [SetHeader ''Content-Type'' (content_type (Ext (rq_path r))), SetHeader ''Content-Encoding'' encoding,
           SetHeader ''Content-Length'' (format_nat len), SetHeader ''Vary'' ''Accept-Encoding''] @
          (if rq_method r = ''HEAD'' then [] else [Write (Doc (FileBytes bytes))])"
    by blast
  have "inside_root root (Join2 root (Clean (rq_path r) @ sfx))"
    using c(1) by (intro Join2_inside_root assms(2,3)) auto
  moreover have "encoding \<in> {''br'', ''gzip''}" using c(1) by auto
  moreover have "SetHeader ''Content-Encoding'' encoding \<in> set ops"
    "\<forall>chunk. Write chunk \<in> set ops \<longrightarrow> chunk = Doc (FileBytes bytes)"
    using c(4) by (auto split: if_splits)
  ultimately show ?thesis using c(2,3) by blast
qed

definition demo_files :: static_fs where
  "demo_files = \<lparr>fs_stat = (\<lambda>f. if f = ''www/index.wasm.br'' then Inr (3, False) else Inl (Sentinel (StdErr ErrNotExist))),
     fs_open = (\<lambda>f. Inr [7, 8, 9])\<rparr>"

definition demo_wasm :: http_request where
  "demo_wasm = \<lparr>rq_method = ''GET'', rq_path = ''/a/../../index.wasm'',
     rq_header = (\<lambda>k. if k = ''Accept-Encoding'' then ''br'' else []), rq_query = (\<lambda>_. []), rq_body = Inr [], rq_ctx_id = []\<rparr>"

theorem precompressed_stays_inside_witness:
  "\<exists>ops file. servePrecompressed demo_files demo_wasm ''www'' = Some ops \<and> inside_root ''www'' file \<and>
     fs_open demo_files file = Inr [7, 8, 9]"
proof -
  have "TrimSpace ''br'' = ''br''" by (rule TrimSpace_visible) (simp add: visible_def)
  then have "acceptEncodingAllows ''br'' ''br''"
    by (simp add: acceptEncodingAllows_def token_allows_def Let_def equal_fold_def)
  then obtain ops where run: "servePrecompressed demo_files demo_wasm ''www'' = Some ops"
    by (simp add: servePrecompressed_def demo_wasm_def demo_files_def Ext_def Let_def Clean_def path_segs_def
        is_rooted_def slashed_def Join2_def contains_str_def has_prefix_def)
  then show ?thesis
    using precompressed_stays_inside [OF run] by (auto simp: demo_wasm_def is_rooted_def demo_files_def)
qed

end
