(* ===== verification/Threads.thy ===== *)
theory Threads
  imports Prelude
begin

text \<open>
  Calls that run at the same time.  A call in progress is a job: what it still has to do and
  the local values it holds.  One step of a job is one atomic section of the code (what runs
  under one acquisition of a mutex, one call of a client that locks itself, or code that
  touches nothing shared), so a pool of jobs over one shared state, stepped in any order,
  has every interleaving the scheduler can produce.
\<close>

section \<open>Jobs and pools\<close>

datatype ('j, 'a) progress = Next 'j | Ret 'a

type_synonym ('j, 'a, 's) section_fn = "'j \<Rightarrow> 's \<Rightarrow> (('j, 'a) progress \<times> 's) option"

type_synonym ('j, 's) pool = "'s \<times> (nat \<Rightarrow> 'j option)"

datatype 'j pool_event = Begin nat 'j | Sched nat

text \<open>
  A call begins on an idle thread, if \<open>may\<close> lets it; scheduling an idle thread does nothing.  A section that
  panics makes the whole process \<^term>\<open>None\<close>.
\<close>

fun pool_apply :: "('j, 'a, 's) section_fn \<Rightarrow> 'j pool_event \<Rightarrow> ('j, 's) pool \<Rightarrow> ('a option \<times> ('j, 's) pool) option" where
  "pool_apply f (Begin t j) (s, js) = Some (None, s, if js t = None then js(t \<mapsto> j) else js)"
| "pool_apply f (Sched t) (s, js) =
     (case js t of
        None \<Rightarrow> Some (None, s, js)
      | Some j \<Rightarrow>
          (case f j s of
             None \<Rightarrow> None
           | Some (Next j', s') \<Rightarrow> Some (None, s', js(t \<mapsto> j'))
           | Some (Ret a, s') \<Rightarrow> Some (Some a, s', js(t := None))))"

definition pool_step :: "('j, 'a, 's) section_fn \<Rightarrow> (nat \<Rightarrow> 'j \<Rightarrow> bool) \<Rightarrow> ('j, 's) pool \<Rightarrow> 'j pool_event \<Rightarrow>
    ('j, 's) pool \<Rightarrow> bool" where
  "pool_step f may c ev c' \<longleftrightarrow> (\<forall>t j. ev = Begin t j \<longrightarrow> may t j) \<and> (\<exists>a. pool_apply f ev c = Some (a, c'))"

text \<open>A call that nothing interrupts; \<^term>\<open>None\<close> if it panics or never returns.\<close>

partial_function (option) solo :: "('j, 'a, 's) section_fn \<Rightarrow> 'j \<Rightarrow> 's \<Rightarrow> ('a \<times> 's) option" where
  "solo f j s =
     (case f j s of
        None \<Rightarrow> None
      | Some (Next j', s') \<Rightarrow> solo f j' s'
      | Some (Ret a, s') \<Rightarrow> Some (a, s'))"

lemma solo_next [simp]: "f j s = Some (Next j', s') \<Longrightarrow> solo f j s = solo f j' s'"
  by (subst solo.simps) simp

lemma solo_ret [simp]: "f j s = Some (Ret a, s') \<Longrightarrow> solo f j s = Some (a, s')"
  by (subst solo.simps) simp

lemma solo_panic [simp]: "f j s = None \<Longrightarrow> solo f j s = None"
  by (subst solo.simps) simp

text \<open>The schedule that runs one thread alone is one of the interleavings.\<close>

fun pool_run :: "('j, 'a, 's) section_fn \<Rightarrow> 'j pool_event list \<Rightarrow> ('j, 's) pool \<Rightarrow> ('a list \<times> ('j, 's) pool) option" where
  "pool_run f [] c = Some ([], c)"
| "pool_run f (ev # evs) c =
     (case pool_apply f ev c of
        None \<Rightarrow> None
      | Some (a, c') \<Rightarrow> map_option (map_prod (append (case a of None \<Rightarrow> [] | Some x \<Rightarrow> [x])) id) (pool_run f evs c'))"

lemma solo_runs:
  assumes "solo f j s = Some r"
  shows "\<exists>n c. pool_run f (replicate n (Sched t)) (s, js(t \<mapsto> j)) = Some ([], c) \<and>
    pool_apply f (Sched t) c = Some (Some (fst r), snd r, js(t := None))"
proof (induction rule: solo.raw_induct [OF _ assms])
  case (1 solo f j s r)
  obtain p s1 where st: "f j s = Some (p, s1)" using 1(2) by (auto split: option.splits)
  show ?case
  proof (cases p)
    case (Ret a)
    with st 1(2) have "pool_run f (replicate 0 (Sched t)) (s, js(t \<mapsto> j)) = Some ([], s, js(t \<mapsto> j)) \<and>
        pool_apply f (Sched t) (s, js(t \<mapsto> j)) = Some (Some (fst r), snd r, js(t := None))"
      by auto
    then show ?thesis by blast
  next
    case (Next j')
    with st 1(2) have "solo f j' s1 = Some r" by simp
    then obtain n c where "pool_run f (replicate n (Sched t)) (s1, js(t \<mapsto> j')) = Some ([], c)"
        "pool_apply f (Sched t) c = Some (Some (fst r), snd r, js(t := None))"
      using 1(1) by blast
    with st Next have "pool_run f (replicate (Suc n) (Sched t)) (s, js(t \<mapsto> j)) = Some ([], c) \<and>
        pool_apply f (Sched t) c = Some (Some (fst r), snd r, js(t := None))"
      by simp
    then show ?thesis by blast
  qed
qed

lemma pool_run_reach:
  assumes "reach ini (pool_step f may) c" and "pool_run f evs c = Some (as, c')"
    and "\<And>t j. Begin t j \<in> set evs \<Longrightarrow> may t j"
  shows "reach ini (pool_step f may) c'"
  using assms
proof (induction evs arbitrary: c as)
  case Nil
  then show ?case by simp
next
  case (Cons ev evs)
  then obtain a c1 as1 where c1: "pool_apply f ev c = Some (a, c1)" "pool_run f evs c1 = Some (as1, c')"
    by (auto split: option.splits)
  then have "reach ini (pool_step f may) c1"
    using Cons.prems by (intro reach.reach_step [OF Cons.prems(1), where e = ev]) (auto simp: pool_step_def)
  then show ?case by (rule Cons.IH [OF _ c1(2)]) (metis Cons.prems(3) list.set_intros(2))
qed

text \<open>A run from a reachable state, under a narrower step relation, stays reachable.\<close>

lemma reach_on:
  assumes "reach (\<lambda>x. x = s) g t" and "reach ini f s" and "\<And>a e b. g a e b \<Longrightarrow> f a e b"
  shows "reach ini f t"
  using assms(1)
proof (induction rule: reach.induct)
  case (reach_init t)
  with assms(2) show ?case by simp
next
  case (reach_step t e u)
  then show ?case by (intro reach.reach_step [OF reach_step.IH assms(3)])
qed

section \<open>Rely and guarantee\<close>

text \<open>
  The contract of a set of calls on a shared state: which resources a job owns, what a step
  may do to what it does not own, and that this is enough for the assertion of every other
  job.  \<open>free s\<close> is what a step may newly take.
\<close>

locale thread_contract =
  fixes f :: "('j, 'a, 's) section_fn"
    and glob :: "'s \<Rightarrow> bool" and local_ok :: "'s \<Rightarrow> 'j \<Rightarrow> bool"
    and owns :: "'j \<Rightarrow> 'r set" and free :: "'s \<Rightarrow> 'r set"
    and keeps :: "'r set \<Rightarrow> 's \<Rightarrow> 's \<Rightarrow> bool"
    and entry :: "'j \<Rightarrow> bool"
  assumes entry_ok: "entry j \<Longrightarrow> glob s \<Longrightarrow> local_ok s j \<and> owns j = {}"
    and step_total: "glob s \<Longrightarrow> local_ok s j \<Longrightarrow> f j s \<noteq> None"
    and step_glob: "glob s \<Longrightarrow> local_ok s j \<Longrightarrow> f j s = Some (r, s') \<Longrightarrow> glob s'"
    and step_local: "glob s \<Longrightarrow> local_ok s j \<Longrightarrow> f j s = Some (Next j', s') \<Longrightarrow> local_ok s' j'"
    and step_owns: "glob s \<Longrightarrow> local_ok s j \<Longrightarrow> f j s = Some (Next j', s') \<Longrightarrow> owns j' \<subseteq> owns j \<union> free s"
    and step_keeps: "glob s \<Longrightarrow> local_ok s j \<Longrightarrow> f j s = Some (r, s') \<Longrightarrow> keeps (owns j) s s'"
    and keeps_local: "local_ok s i \<Longrightarrow> keeps S s s' \<Longrightarrow> owns i \<inter> S = {} \<Longrightarrow> local_ok s' i"
    and owned_not_free: "local_ok s i \<Longrightarrow> owns i \<inter> free s = {}"
begin

definition pool_inv :: "('j, 's) pool \<Rightarrow> bool" where
  "pool_inv c \<longleftrightarrow> glob (fst c) \<and> (\<forall>t j. snd c t = Some j \<longrightarrow> local_ok (fst c) j) \<and>
     (\<forall>t u i j. t \<noteq> u \<longrightarrow> snd c t = Some i \<longrightarrow> snd c u = Some j \<longrightarrow> owns i \<inter> owns j = {})"

lemma pool_inv_idle: "glob s \<Longrightarrow> pool_inv (s, \<lambda>_. None)"
  by (simp add: pool_inv_def)

lemma pool_total:
  assumes "pool_inv c"
  shows "\<exists>a c'. pool_apply f ev c = Some (a, c')"
proof (cases ev)
  case (Begin t j)
  then show ?thesis by (cases c) simp
next
  case (Sched t)
  obtain s js where c: "c = (s, js)" by (cases c)
  show ?thesis
  proof (cases "js t")
    case None
    with c Sched show ?thesis by simp
  next
    case (Some j)
    with assms c have "f j s \<noteq> None" by (intro step_total) (auto simp: pool_inv_def)
    then obtain r s' where "f j s = Some (r, s')" by auto
    with c Sched Some show ?thesis by (cases r) auto
  qed
qed

lemma others_kept:
  assumes inv: "pool_inv (s, js)" and j: "js t = Some j" and st: "f j s = Some (r, s')"
    and i: "js u = Some i" "u \<noteq> t"
  shows "local_ok s' i"
proof (rule keeps_local)
  show "local_ok s i" using inv i by (auto simp: pool_inv_def)
  show "keeps (owns j) s s'" using inv j st step_keeps by (auto simp: pool_inv_def)
  show "owns i \<inter> owns j = {}" using inv i j by (auto simp: pool_inv_def)
qed

lemma pool_inv_next:
  assumes inv: "pool_inv (s, js)" and j: "js t = Some j" and st: "f j s = Some (Next j', s')"
  shows "pool_inv (s', js(t \<mapsto> j'))"
proof -
  have g: "glob s" "local_ok s j" using inv j by (auto simp: pool_inv_def)
  have disj: "owns j' \<inter> owns i = {}" if "js u = Some i" "u \<noteq> t" for u i
  proof -
    have "owns i \<inter> free s = {}" using that inv by (intro owned_not_free) (auto simp: pool_inv_def)
    moreover have "owns i \<inter> owns j = {}" using that inv j by (auto simp: pool_inv_def)
    ultimately show ?thesis using step_owns [OF g st] by blast
  qed
  show ?thesis
    unfolding pool_inv_def
  proof (intro conjI allI impI)
    show "glob (fst (s', js(t \<mapsto> j')))" using step_glob [OF g st] by simp
    show "local_ok (fst (s', js(t \<mapsto> j'))) i" if "snd (s', js(t \<mapsto> j')) u = Some i" for u i
      using that step_local [OF g st] others_kept [OF inv j st] by (cases "u = t") auto
    show "owns i \<inter> owns k = {}" if "u \<noteq> v" "snd (s', js(t \<mapsto> j')) u = Some i" "snd (s', js(t \<mapsto> j')) v = Some k"
      for u v i k
      using that disj inv by (cases "u = t"; cases "v = t") (auto simp: pool_inv_def)
  qed
qed

lemma pool_inv_ret:
  assumes inv: "pool_inv (s, js)" and j: "js t = Some j" and st: "f j s = Some (Ret a, s')"
  shows "pool_inv (s', js(t := None))"
proof -
  have "glob s" "local_ok s j" using inv j by (auto simp: pool_inv_def)
  then have "glob s'" using step_glob st by blast
  then show ?thesis
    using others_kept [OF inv j st] inv by (auto simp: pool_inv_def)
qed

lemma pool_inv_begin:
  assumes "pool_inv (s, js)" and "entry j" and "js t = None"
  shows "pool_inv (s, js(t \<mapsto> j))"
  using assms entry_ok [of j s] by (auto simp: pool_inv_def)

lemma pool_inv_apply:
  assumes inv: "pool_inv (s, js)" and en: "\<And>t j. ev = Begin t j \<Longrightarrow> entry j"
    and ap: "pool_apply f ev (s, js) = Some (a, c')"
  shows "pool_inv c'"
proof (cases ev)
  case (Begin t j)
  then show ?thesis using ap inv pool_inv_begin [OF inv en [OF Begin], of t] by (auto split: if_splits)
next
  case (Sched t)
  show ?thesis
  proof (cases "js t")
    case None
    with Sched ap inv show ?thesis by simp
  next
    case (Some j)
    then obtain r s' where st: "f j s = Some (r, s')" using Sched ap by (auto split: option.splits)
    show ?thesis
    proof (cases r)
      case (Next j')
      with st pool_inv_next [OF inv Some] Sched ap Some show ?thesis by simp
    next
      case (Ret b)
      with st pool_inv_ret [OF inv Some] Sched ap Some show ?thesis by simp
    qed
  qed
qed

lemma pool_run_total:
  assumes "pool_inv c" and "\<And>t j. Begin t j \<in> set evs \<Longrightarrow> entry j"
  shows "\<exists>as c'. pool_run f evs c = Some (as, c') \<and> pool_inv c'"
  using assms
proof (induction evs arbitrary: c)
  case (Cons ev evs)
  obtain a c1 where ap: "pool_apply f ev c = Some (a, c1)" using pool_total [OF Cons.prems(1)] by blast
  have "entry j" if "ev = Begin t j" for t j using Cons.prems(2) [of t j] that by simp
  then have "pool_inv c1" using Cons.prems(1) ap pool_inv_apply [of "fst c" "snd c" ev a c1] by simp
  then obtain as c' where "pool_run f evs c1 = Some (as, c')" "pool_inv c'"
    using Cons.IH Cons.prems(2) by (metis list.set_intros(2))
  with ap show ?case by (auto split: option.split)
qed simp

lemma pool_inv_step:
  assumes "pool_inv c" and "pool_step f may c ev c'" and "\<And>t j. may t j \<Longrightarrow> entry j"
  shows "pool_inv c'"
proof -
  obtain a where "pool_apply f ev (fst c, snd c) = Some (a, c')" using assms(2) by (auto simp: pool_step_def)
  moreover have "entry j" if "ev = Begin t j" for t j using assms(2,3) that by (auto simp: pool_step_def)
  ultimately show ?thesis using pool_inv_apply [of "fst c" "snd c" ev a c'] assms(1) by simp
qed

end

text \<open>
  Sharing between the calls never loses the invariant: the pools a contract allows form an
  invariant system, from any good state with no call in progress.
\<close>

sublocale thread_contract \<subseteq> pool: invariant_system "\<lambda>c. glob (fst c) \<and> snd c = (\<lambda>_. None)" "pool_step f (\<lambda>_. entry)" pool_inv
  by unfold_locales (auto simp: pool_inv_idle elim: pool_inv_step)

section \<open>Calls return\<close>

text \<open>
  A job whose steps decrease a measure, whatever the others do to the state in between,
  needs only finitely many of its own steps.
\<close>

definition own_steps :: "('j, 'a, 's) section_fn \<Rightarrow> ('j \<times> 'j) set" where
  "own_steps f = {(j', j). \<exists>s s'. f j s = Some (Next j', s')}"

text \<open>
  A call inside another one: the outer call goes through the sections of the inner one on a part of
  its state, then on with the answer.  Alone, it runs the inner call alone.
\<close>

lemma solo_inside:
  fixes f :: "('j, 'a, 's) section_fn" and g :: "('k, 'b, 't) section_fn"
  assumes wf: "wf (own_steps f)"
    and inside: "\<And>j s. g (emb j) s = (case f j (get s) of
        None \<Rightarrow> None
      | Some (Next j', m) \<Rightarrow> Some (Next (emb j'), put m s)
      | Some (Ret a, m) \<Rightarrow> Some (fin a, put m s))"
    and part: "\<And>m s. get (put m s) = m" "\<And>m m' s. put m (put m' s) = put m s"
  shows "solo g (emb j) s = (case solo f j (get s) of
      None \<Rightarrow> None
    | Some (a, m) \<Rightarrow> (case fin a of Ret b \<Rightarrow> Some (b, put m s) | Next k \<Rightarrow> solo g k (put m s)))"
  using wf
proof (induction j arbitrary: s rule: wf_induct_rule)
  case (less j)
  show ?case
  proof (cases "f j (get s)")
    case None
    with inside [of j s] show ?thesis by simp
  next
    case (Some x)
    obtain r m where x: "x = (r, m)" by (cases x)
    show ?thesis
    proof (cases r)
      case (Next j')
      then have "(j', j) \<in> own_steps f" using Some x by (auto simp: own_steps_def)
      with less.IH [of j' "put m s"] Some x Next inside [of j s] part show ?thesis
        by (simp split: option.split prod.split progress.split)
    next
      case (Ret a)
      with Some x inside [of j s] show ?thesis by (cases "fin a") simp_all
    qed
  qed
qed

end
