(* ===== verification/Stream_Threads.thy ===== *)
theory Stream_Threads
  imports Stream_Ws Threads
begin

text \<open>
  The stream service as a whole (server/stream): any number of simulator connections, WebSocket
  clients and readers of the active list on one hub, each a thread of sections.  A section is
  what runs under one acquisition of the hub's or of a round's mutex, or one operation on a
  channel; the bytes of a connection and the writes of the websocket package are inputs of the
  thread.  A client that waits for its channel stays where it is, and so does a handler that waits
  for a simulator which sends nothing.
\<close>

section \<open>The shared state\<close>

text \<open>
  The hub, and two histories that no section reads: what the simulator of a round sends after
  its id, and what each subscriber has received.
\<close>

record service =
  sv_hub :: hub
  sv_sent :: "nat \<Rightarrow> byte list"
  sv_got :: "nat \<Rightarrow> nat \<Rightarrow> message list"

definition new_service :: service where
  "new_service = \<lparr>sv_hub = NewHub, sv_sent = (\<lambda>_. []), sv_got = (\<lambda>_ _. [])\<rparr>"

abbreviation sv_round :: "service \<Rightarrow> nat \<Rightarrow> live_round" where
  "sv_round sv p \<equiv> hub_heap (sv_hub sv) p"

definition put_round :: "nat \<Rightarrow> live_round \<Rightarrow> service \<Rightarrow> service" where
  "put_round p r sv = sv\<lparr>sv_hub := (sv_hub sv)\<lparr>hub_heap := (hub_heap (sv_hub sv))(p := r)\<rparr>\<rparr>"

section \<open>Threads\<close>

datatype stream_answer =
    ConnClosed | WsRefused int | WsNotUpgraded | WsClosed nat ws_conn | LiveIds "u64 list"

text \<open>
  \<open>handleConn\<close> before its round is open, in the message loop, in the deferred \<open>Done\<close> and between the
  two parts of \<open>Done\<close>; \<open>WSHandler\<close> before the lookup, before \<open>Subscribe\<close>, in the loop and before
  \<open>Unsubscribe\<close>; \<open>ActiveListHandler\<close>.
\<close>

datatype stream_job =
    SConn "byte list" bool
  | SRelay nat "byte list" bool
  | SDone nat
  | SForget nat
  | WConn string "gerr option" "nat \<Rightarrow> ws_choice"
  | WJoin nat "nat \<Rightarrow> ws_choice"
  | WRelay nat ws_conn "nat \<Rightarrow> ws_choice"
  | WLeave nat ws_conn
  | LList

definition conn_open :: "byte list \<Rightarrow> bool \<Rightarrow> service \<Rightarrow> (stream_job, stream_answer) progress \<times> service" where
  "conn_open inp quiet sv =
     (case read_full 8 inp of
        Inl e \<Rightarrow> (Ret ConnClosed, sv)
      | Inr (idBuf, rest) \<Rightarrow>
          (case hub_Open (le64_of idBuf) (sv_hub sv) of
             (Inl e, h) \<Rightarrow> (Ret ConnClosed, sv\<lparr>sv_hub := h\<rparr>)
           | (Inr p, h) \<Rightarrow> (Next (SRelay p rest quiet), sv\<lparr>sv_hub := h, sv_sent := (sv_sent sv)(p := rest)\<rparr>)))"

text \<open>
  The bytes of a connection are those its peer ever sends; after them it closes the connection, or
  stays silent for ever (\<open>quiet\<close>).  The read of the id has a deadline of 5 seconds and fails either
  way.  The body is read without one (ingest.go:86): when bytes of the next message are missing,
  the handler of a silent peer is blocked in \<open>ReadMessage\<close> and stays where it is.
\<close>

definition starved :: "byte list \<Rightarrow> bool" where
  "starved inp \<longleftrightarrow> read_message MaxPayloadBytes inp \<in>
     {Inl (Sentinel (StdErr EOF)), Inl (Sentinel (StdErr ErrUnexpectedEOF))}"

definition conn_relay :: "nat \<Rightarrow> byte list \<Rightarrow> bool \<Rightarrow> service \<Rightarrow> ((stream_job, stream_answer) progress \<times> service) option" where
  "conn_relay p inp quiet sv =
     (case read_message MaxPayloadBytes inp of
        Inl e \<Rightarrow> Some (Next (if quiet \<and> starved inp then SRelay p inp quiet else SDone p), sv)
      | Inr (m, rest) \<Rightarrow>
          if msg_Type m = MsgHeader then
            (case WriteHeader (msg_Payload m) (sv_round sv p) of
               None \<Rightarrow> None
             | Some (Some e, r) \<Rightarrow> Some (Next (SDone p), put_round p r sv)
             | Some (None, r) \<Rightarrow> Some (Next (SRelay p rest quiet), put_round p r sv))
          else if msg_Type m = MsgTick then
            (case WriteTick (msg_Payload m) (sv_round sv p) of
               None \<Rightarrow> None
             | Some (Some e, r) \<Rightarrow> Some (Next (SDone p), put_round p r sv)
             | Some (None, r) \<Rightarrow> Some (Next (SRelay p rest quiet), put_round p r sv))
          else Some (Next (SDone p), sv))"

definition conn_done :: "nat \<Rightarrow> service \<Rightarrow> ((stream_job, stream_answer) progress \<times> service) option" where
  "conn_done p sv =
     (case round_Done (sv_round sv p) of
        None \<Rightarrow> None
      | Some (finished, r) \<Rightarrow> Some (if finished then Next (SForget p) else Ret ConnClosed, put_round p r sv))"

definition conn_forget :: "nat \<Rightarrow> service \<Rightarrow> (stream_job, stream_answer) progress \<times> service" where
  "conn_forget p sv = (Ret ConnClosed, sv\<lparr>sv_hub := hub_remove (lr_id (sv_round sv p)) (sv_hub sv)\<rparr>)"

definition ws_find :: "string \<Rightarrow> gerr option \<Rightarrow> (nat \<Rightarrow> ws_choice) \<Rightarrow> service \<Rightarrow> (stream_job, stream_answer) progress" where
  "ws_find ids up os sv =
     (case ws_admit ids (sv_hub sv) of
        Inl code \<Rightarrow> Ret (WsRefused code)
      | Inr p \<Rightarrow> (case up of Some e \<Rightarrow> Ret WsNotUpgraded | None \<Rightarrow> Next (WJoin p os)))"

definition ws_join :: "nat \<Rightarrow> (nat \<Rightarrow> ws_choice) \<Rightarrow> service \<Rightarrow> ((stream_job, stream_answer) progress \<times> service) option" where
  "ws_join p os sv =
     map_option (\<lambda>(c, r). (Next (WRelay p c os), put_round p r sv)) (ws_start (sv_round sv p))"

definition ws_relay :: "nat \<Rightarrow> ws_conn \<Rightarrow> (nat \<Rightarrow> ws_choice) \<Rightarrow> service \<Rightarrow> (stream_job, stream_answer) progress \<times> service" where
  "ws_relay p c os sv =
     (case os 0 of
        ContextDone \<Rightarrow> (Next (WLeave p c), sv)
      | ChannelReady w \<Rightarrow>
          (case recv (wc_sub c) (sv_round sv p) of
             None \<Rightarrow> (Next (WRelay p c os), sv)
           | Some (None, r) \<Rightarrow> (Ret (WsClosed p (c\<lparr>wc_running := False, wc_ended := True\<rparr>)), put_round p r sv)
           | Some (Some m, r) \<Rightarrow>
               (case w of
                  None \<Rightarrow> Next (WRelay p (c\<lparr>wc_frames := wc_frames c @ [encode_inline m]\<rparr>) (\<lambda>i. os (Suc i)))
                | Some e \<Rightarrow> Next (WLeave p c),
                (put_round p r sv)\<lparr>sv_got := (sv_got sv)(p := (sv_got sv p)(wc_sub c := sv_got sv p (wc_sub c) @ [m]))\<rparr>)))"

definition ws_leave :: "nat \<Rightarrow> ws_conn \<Rightarrow> service \<Rightarrow> ((stream_job, stream_answer) progress \<times> service) option" where
  "ws_leave p c sv =
     map_option (\<lambda>r. (Ret (WsClosed p (c\<lparr>wc_running := False\<rparr>)), put_round p r sv)) (Unsubscribe (wc_sub c) (sv_round sv p))"

fun stream_step :: "stream_job \<Rightarrow> service \<Rightarrow> ((stream_job, stream_answer) progress \<times> service) option" where
  "stream_step (SConn inp quiet) sv = Some (conn_open inp quiet sv)"
| "stream_step (SRelay p inp quiet) sv = conn_relay p inp quiet sv"
| "stream_step (SDone p) sv = conn_done p sv"
| "stream_step (SForget p) sv = Some (conn_forget p sv)"
| "stream_step (WConn ids up os) sv = Some (ws_find ids up os sv, sv)"
| "stream_step (WJoin p os) sv = ws_join p os sv"
| "stream_step (WRelay p c os) sv = Some (ws_relay p c os sv)"
| "stream_step (WLeave p c) sv = ws_leave p c sv"
| "stream_step LList sv = Some (Ret (LiveIds (ActiveRounds (sv_hub sv))), sv)"

section \<open>A connection that nothing interrupts\<close>

lemma put_round_sel [simp]:
  "hub_heap (sv_hub (put_round p r sv)) = (hub_heap (sv_hub sv))(p := r)"
  "hub_rounds (sv_hub (put_round p r sv)) = hub_rounds (sv_hub sv)"
  "hub_next (sv_hub (put_round p r sv)) = hub_next (sv_hub sv)"
  "sv_sent (put_round p r sv) = sv_sent sv" "sv_got (put_round p r sv) = sv_got sv"
  by (simp_all add: put_round_def)

lemma put_round_twice [simp]: "put_round p r' (put_round p r sv) = put_round p r' sv"
  by (simp add: put_round_def)

lemma put_round_same [simp]: "put_round p (sv_round sv p) sv = sv"
  by (simp add: put_round_def)

lemma solo_stream: "solo stream_step j sv =
    (case stream_step j sv of
       None \<Rightarrow> None | Some (Next j', sv') \<Rightarrow> solo stream_step j' sv' | Some (Ret a, sv') \<Rightarrow> Some (a, sv'))"
  by (rule solo.simps)

lemma solo_done: "solo stream_step (SDone p) sv =
    map_option (\<lambda>h. (ConnClosed, sv\<lparr>sv_hub := h\<rparr>)) (hub_Done p (sv_hub sv))"
  by (subst solo_stream)
    (auto simp: conn_done_def hub_Done_def Let_def put_round_def conn_forget_def solo_stream [of "SForget p"]
      split: option.split)

lemma solo_relay: "solo stream_step (SRelay p inp False) sv =
    (case ingest_loop inp (sv_round sv p) of
       None \<Rightarrow> None | Some r \<Rightarrow> solo stream_step (SDone p) (put_round p r sv))"
proof (induction inp "sv_round sv p" arbitrary: sv rule: ingest_loop.induct)
  case (1 inp)
  show ?case
  proof (cases "read_message MaxPayloadBytes inp")
    case (Inl e)
    then show ?thesis by (subst solo_stream, subst ingest_loop.simps) (simp add: conn_relay_def)
  next
    case (Inr mr)
    obtain m rest where mr: "mr = (m, rest)" by (cases mr)
    show ?thesis
      by (subst solo_stream, subst ingest_loop.simps)
        (use Inr mr 1(1) [OF Inr mr [symmetric]] 1(2) [OF Inr mr [symmetric]] in
          \<open>auto simp: conn_relay_def split: option.split\<close>)
  qed
qed

text \<open>
  The sections of a simulator connection that ends are \<open>handleConn\<close>: run with nothing in between they
  leave the hub exactly as the connection read as one operation, panics included.
\<close>

theorem connections_are_solo_runs:
  "map_option (\<lambda>(a, sv'). (a, sv_hub sv')) (solo stream_step (SConn inp False) sv) =
     map_option (Pair ConnClosed) (handle_conn inp (sv_hub sv))"
proof -
  have "map_option (\<lambda>(a, sv'). (a, sv_hub sv')) (solo stream_step (SRelay p rest False) (sv\<lparr>sv_hub := h, sv_sent := g\<rparr>)) =
      map_option (Pair ConnClosed) (case ingest_loop rest (hub_heap h p) of
         None \<Rightarrow> None | Some r \<Rightarrow> hub_Done p (h\<lparr>hub_heap := (hub_heap h)(p := r)\<rparr>))" for p rest h g
    by (auto simp: solo_relay solo_done put_round_def option.map_comp comp_def split: option.split)
  then show ?thesis
    by (subst solo_stream) (auto simp: conn_open_def handle_conn_def split: sum.split prod.split)
qed

text \<open>The loop of a WebSocket handler takes the steps of \<open>ws_loop_step\<close>.\<close>

lemma solo_ws_loop:
  assumes "ws_loop_step (os 0) c (sv_round sv p) = Some (c', r)" and "wc_running c"
  shows "\<exists>got. solo stream_step (WRelay p c os) sv = (let sv' = (put_round p r sv)\<lparr>sv_got := got\<rparr> in
    if wc_running c' then solo stream_step (WRelay p c' (\<lambda>i. os (Suc i))) sv' else Some (WsClosed p c', sv'))"
proof -
  have leave: "solo stream_step (WLeave p c) sv' =
      map_option (\<lambda>r. (WsClosed p (c\<lparr>wc_running := False\<rparr>), put_round p r sv')) (Unsubscribe (wc_sub c) (sv_round sv' p))" for sv'
    by (subst solo_stream) (auto simp: ws_leave_def option.map_comp split: option.split)
  show ?thesis
  proof (cases "os 0")
    case ContextDone
    with assms leave show ?thesis
      by (subst solo_stream) (auto simp: ws_relay_def Let_def intro!: exI [of _ "sv_got sv"])
  next
    case (ChannelReady w)
    then obtain m r1 where m: "recv (wc_sub c) (sv_round sv p) = Some (m, r1)"
      using assms(1) by (auto split: option.splits)
    let ?got = "case m of None \<Rightarrow> sv_got sv
      | Some v \<Rightarrow> (sv_got sv)(p := (sv_got sv p)(wc_sub c := sv_got sv p (wc_sub c) @ [v]))"
    have swap: "put_round p r' (sv'\<lparr>sv_got := g\<rparr>) = (put_round p r' sv')\<lparr>sv_got := g\<rparr>" for r' sv' g
      by (simp add: put_round_def)
    have "solo stream_step (WRelay p c os) sv = (let sv' = (put_round p r sv)\<lparr>sv_got := ?got\<rparr> in
      if wc_running c' then solo stream_step (WRelay p c' (\<lambda>i. os (Suc i))) sv' else Some (WsClosed p c', sv'))"
    proof (cases m)
      case None
      with ChannelReady m assms show ?thesis
        by (auto simp: solo_stream [of "WRelay p c os"] ws_relay_def Let_def)
    next
      case (Some v)
      with ChannelReady m assms leave show ?thesis
        by (cases w) (auto simp: solo_stream [of "WRelay p c os"] ws_relay_def Let_def swap)
    qed
    then show ?thesis by blast
  qed
qed

section \<open>What every interleaving keeps\<close>

definition live_of :: "service \<Rightarrow> nat \<Rightarrow> live_sys" where
  "live_of sv p = \<lparr>ls_round = sv_round sv p, ls_got = sv_got sv p\<rparr>"

text \<open>The complete messages at the front of a byte stream, and what a simulator may put on its round's log.\<close>

function wire_messages :: "byte list \<Rightarrow> message list" where
  "wire_messages inp =
     (case read_message MaxPayloadBytes inp of
        Inl e \<Rightarrow> []
      | Inr (m, rest) \<Rightarrow> m # wire_messages rest)"
  by pat_completeness auto
termination
  by (relation "measure length") (auto dest: msg.dec_consumes)

declare wire_messages.simps [simp del]

definition promised :: "service \<Rightarrow> nat \<Rightarrow> message list" where
  "promised sv p = relay False (wire_messages (sv_sent sv p))"

text \<open>
  The hub lists the rounds that are not finalized, and possibly some that were a moment ago; every
  round is in good order with its clients, and its log is a piece of what was promised, all
  of it once it is finalized.
\<close>

definition log_ok :: "service \<Rightarrow> nat \<Rightarrow> bool" where
  "log_ok sv p \<longleftrightarrow> (if lr_done (sv_round sv p) then live_log (sv_round sv p) = promised sv p @ [done_message]
     else prefix (live_log (sv_round sv p)) (promised sv p))"

definition listed :: "service \<Rightarrow> nat \<Rightarrow> bool" where
  "listed sv p \<longleftrightarrow> (lr_id (sv_round sv p), p) \<in> set (hub_rounds (sv_hub sv))"

definition sv_inv :: "service \<Rightarrow> bool" where
  "sv_inv sv \<longleftrightarrow> distinct (map fst (hub_rounds (sv_hub sv))) \<and>
     (\<forall>(rid, p) \<in> set (hub_rounds (sv_hub sv)). p < hub_next (sv_hub sv) \<and> lr_id (sv_round sv p) = rid) \<and>
     (\<forall>p < hub_next (sv_hub sv). live_inv (live_of sv p) \<and> log_ok sv p \<and> (\<not> lr_done (sv_round sv p) \<longrightarrow> listed sv p)) \<and>
     (\<forall>p \<ge> hub_next (sv_hub sv). sv_got sv p = (\<lambda>_. []))"

text \<open>A connection owns its round as the only writer, a WebSocket handler its subscriber.\<close>

fun sowns :: "stream_job \<Rightarrow> (nat + nat \<times> nat) set" where
  "sowns (SRelay p inp quiet) = {Inl p}"
| "sowns (SDone p) = {Inl p}"
| "sowns (SForget p) = {Inl p}"
| "sowns (WRelay p c os) = {Inr (p, wc_sub c)}"
| "sowns (WLeave p c) = {Inr (p, wc_sub c)}"
| "sowns _ = {}"

definition sfree :: "service \<Rightarrow> (nat + nat \<times> nat) set" where
  "sfree sv = {Inl p | p. hub_next (sv_hub sv) \<le> p} \<union>
     {Inr (p, s) | p s. hub_next (sv_hub sv) \<le> p \<or> lr_next (sv_round sv p) \<le> s}"

fun slocal :: "service \<Rightarrow> stream_job \<Rightarrow> bool" where
  "slocal sv (SRelay p inp quiet) \<longleftrightarrow> p < hub_next (sv_hub sv) \<and> \<not> lr_done (sv_round sv p) \<and>
     live_log (sv_round sv p) @ relay (lr_hdr (sv_round sv p) \<noteq> None) (wire_messages inp) = promised sv p"
| "slocal sv (SDone p) \<longleftrightarrow> p < hub_next (sv_hub sv) \<and> \<not> lr_done (sv_round sv p) \<and>
     live_log (sv_round sv p) = promised sv p"
| "slocal sv (SForget p) \<longleftrightarrow> p < hub_next (sv_hub sv) \<and> lr_done (sv_round sv p) \<and> listed sv p"
| "slocal sv (WJoin p os) \<longleftrightarrow> p < hub_next (sv_hub sv)"
| "slocal sv (WRelay p c os) \<longleftrightarrow> p < hub_next (sv_hub sv) \<and> wc_sub c < lr_next (sv_round sv p) \<and>
     wc_frames c = map encode_inline (sv_got sv p (wc_sub c))"
| "slocal sv (WLeave p c) \<longleftrightarrow> p < hub_next (sv_hub sv) \<and> wc_sub c < lr_next (sv_round sv p) \<and>
     prefix (wc_frames c) (map encode_inline (sv_got sv p (wc_sub c)))"
| "slocal sv _ \<longleftrightarrow> True"

text \<open>
  What a section leaves alone: no round loses an entry of its log, a round is written and
  finalized by its connection only, a channel is received from by its handler only, and a
  channel that is closed changes no more.
\<close>

definition round_kept :: "(nat + nat \<times> nat) set \<Rightarrow> service \<Rightarrow> service \<Rightarrow> nat \<Rightarrow> bool" where
  "round_kept S sv sv' p \<longleftrightarrow> lr_next (sv_round sv p) \<le> lr_next (sv_round sv' p) \<and>
     lr_id (sv_round sv' p) = lr_id (sv_round sv p) \<and> prefix (live_log (sv_round sv p)) (live_log (sv_round sv' p)) \<and>
     sv_sent sv' p = sv_sent sv p \<and> (lr_done (sv_round sv p) \<longrightarrow> lr_done (sv_round sv' p)) \<and>
     (Inl p \<notin> S \<longrightarrow> live_log (sv_round sv' p) = live_log (sv_round sv p) \<and> lr_hdr (sv_round sv' p) = lr_hdr (sv_round sv p) \<and>
        lr_done (sv_round sv' p) = lr_done (sv_round sv p) \<and> (listed sv p \<longrightarrow> listed sv' p)) \<and>
     (\<forall>s < lr_next (sv_round sv p). Inr (p, s) \<notin> S \<longrightarrow> sv_got sv' p s = sv_got sv p s \<and>
        (ch_closed (lr_chans (sv_round sv p) s) \<longrightarrow> lr_chans (sv_round sv' p) s = lr_chans (sv_round sv p) s))"

definition skeeps :: "(nat + nat \<times> nat) set \<Rightarrow> service \<Rightarrow> service \<Rightarrow> bool" where
  "skeeps S sv sv' \<longleftrightarrow> hub_next (sv_hub sv) \<le> hub_next (sv_hub sv') \<and>
     (\<forall>p < hub_next (sv_hub sv). round_kept S sv sv' p)"

lemma round_kept_refl: "round_kept S sv sv p" by (simp add: round_kept_def)

lemma skeeps_refl: "skeeps S sv sv" by (simp add: skeeps_def round_kept_refl)

lemma slocal_kept:
  assumes "slocal sv i" and "skeeps S sv sv'" and "sowns i \<inter> S = {}"
  shows "slocal sv' i"
  using assms by (cases i) (auto simp: skeeps_def round_kept_def promised_def)

lemma slocal_not_free: "slocal sv i \<Longrightarrow> sowns i \<inter> sfree sv = {}"
  by (cases i) (auto simp: sfree_def)

section \<open>The calls on a round, once more\<close>

lemma round_Done_eq:
  assumes inv: "live_inv x" and "\<not> lr_done (ls_round x)"
  shows "round_Done (ls_round x) = Some (True, detached (fanned done_message ((ls_round x)\<lparr>lr_done := True\<rparr>)))"
proof -
  let ?d = "(ls_round x)\<lparr>lr_done := True\<rparr>"
  have att: "attached_ok x" using inv by (simp add: live_inv_def live_core_def)
  have fan: "fanoutLocked done_message ?d = Some (fanned done_message ?d)"
    using attached_open [OF att] by (intro fanoutLocked_eq) auto
  have "close_all (lr_subs (fanned done_message ?d)) (fanned done_message ?d) =
      Some (fanned done_message ?d\<lparr>lr_chans := (\<lambda>s. if s \<in> set (lr_subs (fanned done_message ?d))
        then (lr_chans (fanned done_message ?d) s)\<lparr>ch_closed := True\<rparr> else lr_chans (fanned done_message ?d) s)\<rparr>)"
    using attached_open [OF att] by (intro close_all_eq) (auto simp: fanned_def fan_chan_def)
  with fan assms(2) show ?thesis by (simp add: round_Done_def detached_def)
qed

lemma detached_log [simp]: "live_log (detached r) = live_log r" "lr_id (detached r) = lr_id r" "lr_done (detached r) = lr_done r"
  by (simp_all add: detached_def live_log_def)

text \<open>What a call does to a round in good order, besides keeping it so.\<close>

lemma live_apply_effects:
  assumes inv: "live_inv x" and ap: "live_apply e x = Some y"
  shows "lr_id (ls_round y) = lr_id (ls_round x)" and "prefix (live_log (ls_round x)) (live_log (ls_round y))"
    and "lr_done (ls_round x) \<Longrightarrow> lr_done (ls_round y)"
    and "e \<noteq> LRecv s \<Longrightarrow> ls_got y s = ls_got x s"
    and "e \<noteq> LRecv s \<Longrightarrow> s < lr_next (ls_round x) \<Longrightarrow> ch_closed (lr_chans (ls_round x) s) \<Longrightarrow>
      lr_chans (ls_round y) s = lr_chans (ls_round x) s"
    and "e \<notin> {LDone} \<union> range LWriteHeader \<union> range LWriteTick \<Longrightarrow> live_log (ls_round y) = live_log (ls_round x) \<and>
      lr_hdr (ls_round y) = lr_hdr (ls_round x) \<and> lr_done (ls_round y) = lr_done (ls_round x)"
proof -
  let ?r = "ls_round x"
  let ?P = "lr_id (ls_round y) = lr_id (ls_round x) \<and> prefix (live_log (ls_round x)) (live_log (ls_round y)) \<and>
    (lr_done (ls_round x) \<longrightarrow> lr_done (ls_round y)) \<and> (\<forall>s. e \<noteq> LRecv s \<longrightarrow> ls_got y s = ls_got x s) \<and>
    (\<forall>s. e \<noteq> LRecv s \<longrightarrow> s < lr_next (ls_round x) \<longrightarrow> ch_closed (lr_chans (ls_round x) s) \<longrightarrow>
      lr_chans (ls_round y) s = lr_chans (ls_round x) s) \<and>
    (e \<notin> {LDone} \<union> range LWriteHeader \<union> range LWriteTick \<longrightarrow> live_log (ls_round y) = live_log (ls_round x) \<and>
      lr_hdr (ls_round y) = lr_hdr (ls_round x) \<and> lr_done (ls_round y) = lr_done (ls_round x))"
  have op: "\<not> ch_closed (lr_chans ?r s)" if "s \<in> set (lr_subs ?r)" for s
    using inv that by (auto simp: live_inv_def live_core_def attached_ok_def)
  have dist: "distinct (lr_subs ?r)" using inv by (auto simp: live_inv_def live_core_def attached_ok_def)
  have fan: "fanoutLocked m (?r\<lparr>lr_hdr := h\<rparr>) = Some (fanned m (?r\<lparr>lr_hdr := h\<rparr>))"
    "fanoutLocked m (?r\<lparr>lr_tks := ts\<rparr>) = Some (fanned m (?r\<lparr>lr_tks := ts\<rparr>))"
    "fanoutLocked m (?r\<lparr>lr_done := b\<rparr>) = Some (fanned m (?r\<lparr>lr_done := b\<rparr>))" for m h ts b
    using op dist by (simp_all add: fanoutLocked_eq)
  have wf: "lr_tks ?r = []" if "lr_hdr ?r = None" using inv that by (auto simp: live_inv_def live_core_def log_wf_def)
  have ?P
  proof (cases e)
    case (LWriteHeader p)
    with ap op wf show ?thesis by (auto simp: WriteHeader_def Let_def fan live_log_grows split: if_splits) (auto simp: fanned_def)
  next
    case (LWriteTick p)
    with ap op show ?thesis by (auto simp: WriteTick_def Let_def fan live_log_grows split: if_splits) (auto simp: fanned_def)
  next
    case LDone
    with ap op show ?thesis
      by (cases "lr_done ?r") (auto simp: round_Done_eq [OF inv] live_log_grows, auto simp: round_Done_def detached_def fanned_def)
  next
    case (LSubscribe n)
    with ap show ?thesis by (auto simp: Subscribe_eq live_log_def)
  next
    case (LUnsubscribe s)
    with ap op show ?thesis
      by (auto simp: Unsubscribe_def close_chan_def live_log_def split: if_splits)
  next
    case (LRecv s)
    with ap show ?thesis by (auto simp: recv_def live_log_def split: list.splits if_splits)
  qed
  then show "lr_id (ls_round y) = lr_id (ls_round x)" and "prefix (live_log (ls_round x)) (live_log (ls_round y))"
    and "lr_done (ls_round x) \<Longrightarrow> lr_done (ls_round y)"
    and "e \<noteq> LRecv s \<Longrightarrow> ls_got y s = ls_got x s"
    and "e \<noteq> LRecv s \<Longrightarrow> s < lr_next (ls_round x) \<Longrightarrow> ch_closed (lr_chans (ls_round x) s) \<Longrightarrow>
      lr_chans (ls_round y) s = lr_chans (ls_round x) s"
    and "e \<notin> {LDone} \<union> range LWriteHeader \<union> range LWriteTick \<Longrightarrow> live_log (ls_round y) = live_log (ls_round x) \<and>
      lr_hdr (ls_round y) = lr_hdr (ls_round x) \<and> lr_done (ls_round y) = lr_done (ls_round x)"
    by simp_all
qed

section \<open>A section on one round\<close>

definition put_live :: "nat \<Rightarrow> live_sys \<Rightarrow> service \<Rightarrow> service" where
  "put_live p x sv = (put_round p (ls_round x) sv)\<lparr>sv_got := (sv_got sv)(p := ls_got x)\<rparr>"

lemma put_live_sel [simp]:
  "hub_heap (sv_hub (put_live p x sv)) = (hub_heap (sv_hub sv))(p := ls_round x)"
  "hub_rounds (sv_hub (put_live p x sv)) = hub_rounds (sv_hub sv)"
  "hub_next (sv_hub (put_live p x sv)) = hub_next (sv_hub sv)"
  "sv_sent (put_live p x sv) = sv_sent sv" "sv_got (put_live p x sv) = (sv_got sv)(p := ls_got x)"
  "promised (put_live p x sv) = promised sv"
  by (simp_all add: put_live_def promised_def fun_eq_iff)

lemma promised_put_round [simp]: "promised (put_round p r sv) = promised sv"
  by (simp add: promised_def fun_eq_iff)

lemma live_of_put [simp]: "live_of (put_live p x sv) q = (if q = p then x else live_of sv q)"
  by (simp add: live_of_def)

lemma live_of_sel [simp]: "ls_round (live_of sv p) = sv_round sv p" "ls_got (live_of sv p) = sv_got sv p"
  by (simp_all add: live_of_def)

lemma put_live_round: "put_live p (live_of sv p\<lparr>ls_round := r\<rparr>) sv = put_round p r sv"
  by (simp add: put_live_def put_round_def)

text \<open>
  The guarantee of every section that calls one method of a round, or receives from a channel:
  what the call touches is what it may own.
\<close>

definition touches :: "nat \<Rightarrow> live_event \<Rightarrow> (nat + nat \<times> nat) set" where
  "touches p e = (case e of LRecv s \<Rightarrow> {Inr (p, s)} | LUnsubscribe s \<Rightarrow> {} | LSubscribe n \<Rightarrow> {} | _ \<Rightarrow> {Inl p})"

lemma touched_keeps:
  assumes inv: "sv_inv sv" and p: "p < hub_next (sv_hub sv)"
    and ap: "live_apply e (live_of sv p) = Some y" and S: "touches p e \<subseteq> S"
  shows "skeeps S sv (put_live p y sv)"
proof -
  have li: "live_inv (live_of sv p)" using inv p by (simp add: sv_inv_def)
  note eff = live_apply_effects [OF li ap, unfolded live_of_sel]
  have "e \<noteq> LRecv s" if "Inr (p, s) \<notin> S" for s using that S by (auto simp: touches_def)
  moreover have "e \<notin> {LDone} \<union> range LWriteHeader \<union> range LWriteTick" if "Inl p \<notin> S"
    using that S by (auto simp: touches_def)
  ultimately have "round_kept S sv (put_live p y sv) p"
    using eff live_apply_next [OF ap] by (simp add: round_kept_def listed_def)
  then have "round_kept S sv (put_live p y sv) q" for q
    by (cases "q = p") (simp_all add: round_kept_def listed_def)
  then show ?thesis by (simp add: skeeps_def)
qed

lemma touched_inv:
  assumes inv: "sv_inv sv" and p: "p < hub_next (sv_hub sv)" and en: "live_enabled e (live_of sv p)"
    and ap: "live_apply e (live_of sv p) = Some y" and log: "log_ok (put_live p y sv) p"
  shows "sv_inv (put_live p y sv)"
proof -
  have li: "live_inv (live_of sv p)" using inv p by (simp add: sv_inv_def)
  note eff = live_apply_effects [OF li ap, unfolded live_of_sel]
  have "live_inv y" using live_apply_total [OF li en] ap by auto
  moreover have "log_ok (put_live p y sv) q = log_ok sv q" if "q \<noteq> p" for q
    using that by (simp add: log_ok_def)
  moreover have "listed (put_live p y sv) q = listed sv q" for q
    using eff(1) by (simp add: listed_def)
  ultimately show ?thesis using inv p eff(1,3) log by (auto simp: sv_inv_def)
qed

text \<open>A call that writes nothing leaves the log in order.\<close>

lemma unwritten_log:
  assumes inv: "sv_inv sv" and p: "p < hub_next (sv_hub sv)"
    and ap: "live_apply e (live_of sv p) = Some y" and e: "Inl p \<notin> touches p e"
  shows "log_ok (put_live p y sv) p"
proof -
  have "live_inv (live_of sv p)" "log_ok sv p" using inv p by (simp_all add: sv_inv_def)
  moreover have "e \<notin> {LDone} \<union> range LWriteHeader \<union> range LWriteTick" using e by (auto simp: touches_def)
  ultimately show ?thesis using live_apply_effects(6) [OF _ ap] by (simp add: log_ok_def)
qed

section \<open>Every section meets the contract\<close>

definition met :: "stream_job \<Rightarrow> service \<Rightarrow> (stream_job, stream_answer) progress \<Rightarrow> service \<Rightarrow> bool" where
  "met j sv r sv' \<longleftrightarrow> sv_inv sv' \<and> skeeps (sowns j) sv sv' \<and>
     (case r of Ret a \<Rightarrow> True | Next j' \<Rightarrow> slocal sv' j' \<and> sowns j' \<subseteq> sowns j \<union> sfree sv)"

lemma met_same: "sv_inv sv \<Longrightarrow> met j sv (Ret a) sv"
  "sv_inv sv \<Longrightarrow> slocal sv j' \<Longrightarrow> sowns j' \<subseteq> sowns j \<union> sfree sv \<Longrightarrow> met j sv (Next j') sv"
  by (simp_all add: met_def skeeps_refl)

lemma open_met:
  assumes inv: "sv_inv sv"
  shows "case conn_open inp quiet sv of (r, sv') \<Rightarrow> met (SConn inp quiet) sv r sv'"
proof (cases "read_full 8 inp")
  case (Inl e)
  then show ?thesis using met_same [OF inv] by (simp add: conn_open_def)
next
  case (Inr x)
  obtain idBuf rest where x: "x = (idBuf, rest)" by (cases x)
  let ?rid = "le64_of idBuf" and ?h = "sv_hub sv" and ?p = "hub_next (sv_hub sv)"
  show ?thesis
  proof (cases "?rid \<in> set (ActiveRounds ?h)")
    case True
    then show ?thesis using met_same [OF inv] Inr x by (simp add: conn_open_def hub_Open_cases)
  next
    case False
    define sv' where "sv' = sv\<lparr>sv_hub := snd (hub_Open ?rid ?h), sv_sent := (sv_sent sv)(?p := rest)\<rparr>"
    have open_new: "conn_open inp quiet sv = (Next (SRelay ?p rest quiet), sv')"
      using Inr x False by (simp add: conn_open_def hub_Open_cases sv'_def)
    have sel: "hub_next (sv_hub sv') = Suc ?p" "sv_round sv' = (hub_heap ?h)(?p := new_live_round ?rid)"
      "hub_rounds (sv_hub sv') = hub_rounds ?h @ [(?rid, ?p)]" "sv_got sv' = sv_got sv" "sv_sent sv' = (sv_sent sv)(?p := rest)"
      using False by (simp_all add: sv'_def hub_Open_cases fun_eq_iff)
    have "live_init (live_of sv' ?p)"
      using inv by (auto simp: live_of_def sel sv_inv_def live_init_def)
    then have new: "live_inv (live_of sv' ?p)" "live_log (sv_round sv' ?p) = []" "lr_id (sv_round sv' ?p) = ?rid"
      "\<not> lr_done (sv_round sv' ?p)" "lr_hdr (sv_round sv' ?p) = None" "listed sv' ?p"
      by (simp_all add: live_init_inv sel listed_def live_log_def) (simp_all add: new_live_round_def)
    have old: "sv_round sv' q = sv_round sv q" "live_inv (live_of sv' q)" "log_ok sv' q = log_ok sv q" "listed sv q \<Longrightarrow> listed sv' q" if "q < ?p" for q
      using that inv by (simp_all add: live_of_def sel log_ok_def promised_def listed_def sv_inv_def)
    have "sv_inv sv'"
      using inv False new old
      by (auto simp: sv_inv_def sel less_Suc_eq log_ok_def [of sv' ?p] ActiveRounds_def simp flip: sel(2))
    moreover have "skeeps {} sv sv'"
      using old(4) by (auto simp: skeeps_def sel round_kept_def)
    ultimately show ?thesis
      using new by (simp add: open_new met_def sel(1) promised_def sfree_def) (simp add: sel)
  qed
qed

text \<open>Writing to the round a connection owns.\<close>

lemma write_ok:
  assumes inv: "sv_inv sv" and p: "p < hub_next (sv_hub sv)"
    and ap: "live_apply e (live_of sv p) = Some (live_of sv p\<lparr>ls_round := r\<rparr>)" and e: "touches p e = {Inl p}"
    and log: "if lr_done r then live_log r = promised sv p @ [done_message] else prefix (live_log r) (promised sv p)"
  shows "sv_inv (put_round p r sv) \<and> skeeps {Inl p} sv (put_round p r sv)"
proof -
  have "live_enabled e (live_of sv p)"
    using e ap by (cases e) (auto simp: touches_def)
  then show ?thesis
    using touched_inv [OF inv p _ ap] touched_keeps [OF inv p ap] e log by (simp add: put_live_round log_ok_def)
qed

lemma log_open:
  assumes "sv_inv sv" and "slocal sv (SRelay p inp quiet)"
  shows "round_ok (sv_round sv p)" and "\<not> lr_done (sv_round sv p)" and "p < hub_next (sv_hub sv)" and "live_inv (live_of sv p)"
  using assms by (auto simp: sv_inv_def round_ok_def live_of_def)

lemma relay_met:
  assumes inv: "sv_inv sv" and loc: "slocal sv (SRelay p inp quiet)"
  shows "\<exists>r sv'. conn_relay p inp quiet sv = Some (r, sv') \<and> met (SRelay p inp quiet) sv r sv'"
proof (cases "read_message MaxPayloadBytes inp")
  case (Inl e)
  then have "wire_messages inp = []" by (simp add: wire_messages.simps)
  with Inl loc show ?thesis
    using met_same(2) [OF inv loc, of "SRelay p inp quiet"] met_same(2) [OF inv, of "SDone p" "SRelay p inp quiet"]
    by (cases quiet) (simp_all add: conn_relay_def)
next
  case (Inr x)
  obtain m rest where x: "x = (m, rest)" by (cases x)
  let ?r = "sv_round sv p" and ?P = "promised sv p"
  note ok = log_open [OF inv loc]
  have wire: "wire_messages inp = m # wire_messages rest" using Inr x by (subst wire_messages.simps) simp
  have log: "live_log ?r @ relay (lr_hdr ?r \<noteq> None) (m # wire_messages rest) = ?P" using loc wire by simp
  have goes: "met (SRelay p inp quiet) sv (Next (SRelay p rest quiet)) (put_round p r sv)"
    if "live_apply e (live_of sv p) = Some (live_of sv p\<lparr>ls_round := r\<rparr>)" "touches p e = {Inl p}" "\<not> lr_done r"
      "live_log r @ relay (lr_hdr r \<noteq> None) (wire_messages rest) = ?P" for e r
  proof -
    have "prefix (live_log r) ?P" using that(4) by (metis prefixI)
    then show ?thesis
      using write_ok [OF inv ok(3) that(1,2)] that(3,4) ok(3) by (simp add: met_def promised_def)
  qed
  have refused: "met (SRelay p inp quiet) sv (Next (SDone p)) sv" if "relay (lr_hdr ?r \<noteq> None) (m # wire_messages rest) = []"
    using log that ok(2,3) by (intro met_same [OF inv]) auto
  consider (hdr) "msg_Type m = MsgHeader" | (tick) "msg_Type m = MsgTick" "msg_Type m \<noteq> MsgHeader"
    | (other) "msg_Type m \<noteq> MsgHeader" "msg_Type m \<noteq> MsgTick" by blast
  then show ?thesis
  proof cases
    case hdr
    obtain e r where w: "WriteHeader (msg_Payload m) ?r = Some (e, r)" "\<not> lr_done r" and
      eff: "if lr_hdr ?r = None then e = None \<and> lr_hdr r \<noteq> None \<and> live_log r = live_log ?r @ [\<lparr>msg_Type = MsgHeader, msg_Payload = msg_Payload m\<rparr>]
        else e \<noteq> None \<and> r = ?r"
      using WriteHeader_ok [OF ok(1,2)] by blast
    have m: "\<lparr>msg_Type = MsgHeader, msg_Payload = msg_Payload m\<rparr> = m" using hdr message_eq [of m] by simp
    show ?thesis
    proof (cases "lr_hdr ?r = None")
      case True
      have "met (SRelay p inp quiet) sv (Next (SRelay p rest quiet)) (put_round p r sv)"
        using w eff True log hdr m by (intro goes [of "LWriteHeader (msg_Payload m)"]) (auto simp: touches_def)
      with w eff True hdr Inr x show ?thesis by (simp add: conn_relay_def)
    next
      case False
      with w eff hdr Inr x refused show ?thesis by (auto simp: conn_relay_def)
    qed
  next
    case tick
    obtain e r where w: "WriteTick (msg_Payload m) ?r = Some (e, r)" "\<not> lr_done r" and
      eff: "if lr_hdr ?r \<noteq> None then e = None \<and> lr_hdr r \<noteq> None \<and> live_log r = live_log ?r @ [\<lparr>msg_Type = MsgTick, msg_Payload = msg_Payload m\<rparr>]
        else e \<noteq> None \<and> r = ?r"
      using WriteTick_ok [OF ok(1,2)] by blast
    have m: "\<lparr>msg_Type = MsgTick, msg_Payload = msg_Payload m\<rparr> = m" using tick message_eq [of m] by simp
    show ?thesis
    proof (cases "lr_hdr ?r = None")
      case False
      have "met (SRelay p inp quiet) sv (Next (SRelay p rest quiet)) (put_round p r sv)"
        using w eff False log tick m by (intro goes [of "LWriteTick (msg_Payload m)"]) (auto simp: touches_def)
      with w eff False tick Inr x show ?thesis by (simp add: conn_relay_def)
    next
      case True
      with w eff tick Inr x refused show ?thesis by (auto simp: conn_relay_def)
    qed
  next
    case other
    with Inr x refused show ?thesis by (auto simp: conn_relay_def)
  qed
qed

lemma done_met:
  assumes inv: "sv_inv sv" and loc: "slocal sv (SDone p)"
  shows "\<exists>r sv'. conn_done p sv = Some (r, sv') \<and> met (SDone p) sv r sv'"
proof -
  let ?r = "sv_round sv p"
  have p: "p < hub_next (sv_hub sv)" "\<not> lr_done ?r" "live_log ?r = promised sv p" "round_ok ?r" "listed sv p"
    using loc inv by (auto simp: sv_inv_def round_ok_def live_of_def)
  obtain r where r: "round_Done ?r = Some (True, r)" "lr_done r" "lr_id r = lr_id ?r" "live_log r = promised sv p @ [done_message]"
    using round_Done_ok [OF p(4,2)] p(3) by auto
  have "sv_inv (put_round p r sv) \<and> skeeps {Inl p} sv (put_round p r sv)"
    using r by (intro write_ok [OF inv p(1), of LDone]) (auto simp: touches_def)
  with r p show ?thesis by (auto simp: conn_done_def met_def listed_def)
qed

lemma forget_met:
  assumes inv: "sv_inv sv" and loc: "slocal sv (SForget p)"
  shows "case conn_forget p sv of (r, sv') \<Rightarrow> met (SForget p) sv r sv'"
proof -
  let ?h = "hub_remove (lr_id (sv_round sv p)) (sv_hub sv)"
  define sv' where "sv' = sv\<lparr>sv_hub := ?h\<rparr>"
  have sel: "sv_round sv' = sv_round sv" "hub_next (sv_hub sv') = hub_next (sv_hub sv)" "sv_got sv' = sv_got sv"
    "sv_sent sv' = sv_sent sv" "live_of sv' = live_of sv" "log_ok sv' = log_ok sv"
    by (simp_all add: sv'_def hub_remove_def live_of_def log_ok_def promised_def fun_eq_iff)
  have rounds: "hub_rounds (sv_hub sv') = filter (\<lambda>(i, q). i \<noteq> lr_id (sv_round sv p)) (hub_rounds (sv_hub sv))"
    by (simp add: sv'_def hub_remove_def)
  have other: "listed sv' q" if "listed sv q" "q \<noteq> p" for q
  proof -
    have "lr_id (sv_round sv q) \<noteq> lr_id (sv_round sv p)"
      using that loc inv by (auto simp: listed_def sv_inv_def dest: eq_key_imp_eq_value)
    then show ?thesis using that(1) by (simp add: listed_def rounds sel(1))
  qed
  have "sv_inv sv'"
    using inv loc other by (auto simp: sv_inv_def sel rounds distinct_map_filter)
  moreover have "skeeps {Inl p} sv sv'"
    using other by (auto simp: skeeps_def round_kept_def sel)
  ultimately show ?thesis by (simp add: conn_forget_def met_def sv'_def)
qed

lemma find_met:
  assumes inv: "sv_inv sv"
  shows "met (WConn ids up os) sv (ws_find ids up os sv) sv"
proof -
  have "slocal sv (WJoin p os)" if "ws_admit ids (sv_hub sv) = Inr p" for p
    using that inv by (auto simp: ws_admit_def hub_Lookup_def sv_inv_def dest!: map_of_SomeD split: sum.splits option.splits)
  then show ?thesis
    using met_same(1) [OF inv] met_same(2) [OF inv, of "WJoin p os" "WConn ids up os" for p]
    by (auto simp: ws_find_def split: sum.split option.split)
qed

lemma join_met:
  assumes inv: "sv_inv sv" and loc: "slocal sv (WJoin p os)"
  shows "\<exists>r sv'. ws_join p os sv = Some (r, sv') \<and> met (WJoin p os) sv r sv'"
proof -
  let ?r = "sv_round sv p" and ?x = "live_of sv p" and ?e = "LSubscribe ws_buffer"
  have p: "p < hub_next (sv_hub sv)" using loc by simp
  obtain r where r: "Subscribe ws_buffer ?r = Some (lr_next ?r, r)" "lr_next r = Suc (lr_next ?r)"
    by (simp add: Subscribe_eq)
  have ap: "live_apply ?e ?x = Some (?x\<lparr>ls_round := r\<rparr>)" using r by simp
  have "touches p ?e \<subseteq> {}" by (simp add: touches_def)
  note keeps = touched_keeps [OF inv p ap this]
  moreover have "sv_inv (put_round p r sv)"
    using touched_inv [OF inv p _ ap unwritten_log [OF inv p ap]] by (simp add: touches_def put_live_round)
  moreover have "sv_got sv p (lr_next ?r) = []"
    using inv p by (auto simp: sv_inv_def live_inv_def live_core_def clients_ok_def)
  ultimately show ?thesis
    using r p by (auto simp: ws_join_def ws_start_def met_def put_live_round sfree_def)
qed

lemma leave_met:
  assumes inv: "sv_inv sv" and loc: "slocal sv (WLeave p c)"
  shows "\<exists>r sv'. ws_leave p c sv = Some (r, sv') \<and> met (WLeave p c) sv r sv'"
proof -
  let ?r = "sv_round sv p" and ?x = "live_of sv p" and ?e = "LUnsubscribe (wc_sub c)"
  have p: "p < hub_next (sv_hub sv)" and s: "wc_sub c < lr_next ?r" using loc by simp_all
  have "live_inv ?x" using inv p by (simp add: sv_inv_def)
  then obtain r where r: "Unsubscribe (wc_sub c) ?r = Some r" using Unsubscribe_total [of ?x] by auto
  then have ap: "live_apply ?e ?x = Some (?x\<lparr>ls_round := r\<rparr>)" by simp
  have t: "touches p ?e \<subseteq> sowns (WLeave p c)" by (simp add: touches_def)
  have "sv_inv (put_round p r sv)"
    using touched_inv [OF inv p _ ap unwritten_log [OF inv p ap]] s by (simp add: touches_def put_live_round)
  with touched_keeps [OF inv p ap t] r show ?thesis by (simp add: ws_leave_def met_def put_live_round)
qed

lemma ws_relay_met:
  assumes inv: "sv_inv sv" and loc: "slocal sv (WRelay p c os)"
  shows "case ws_relay p c os sv of (r, sv') \<Rightarrow> met (WRelay p c os) sv r sv'"
proof (cases "os 0")
  case ContextDone
  then show ?thesis using met_same(2) [OF inv, of "WLeave p c"] loc by (simp add: ws_relay_def)
next
  case (ChannelReady w)
  let ?r = "sv_round sv p" and ?x = "live_of sv p" and ?s = "wc_sub c"
  have p: "p < hub_next (sv_hub sv)" and s: "?s < lr_next ?r" and fr: "wc_frames c = map encode_inline (sv_got sv p ?s)"
    using loc by simp_all
  show ?thesis
  proof (cases "recv ?s ?r")
    case None
    then show ?thesis using met_same(2) [OF inv loc] ChannelReady by (simp add: ws_relay_def)
  next
    case (Some a)
    obtain m r where m: "recv ?s ?r = Some (m, r)" using Some by (cases a) simp
    define y where "y = \<lparr>ls_round = r, ls_got = (sv_got sv p)(?s := sv_got sv p ?s @ (case m of None \<Rightarrow> [] | Some v \<Rightarrow> [v]))\<rparr>"
    have ap: "live_apply (LRecv ?s) ?x = Some y" using m by (simp add: y_def)
    have en: "live_enabled (LRecv ?s) ?x" using m s by (auto simp: recv_def split: list.splits if_splits)
    have t: "touches p (LRecv ?s) \<subseteq> sowns (WRelay p c os)" by (simp add: touches_def)
    have put: "sv_inv (put_live p y sv)" "skeeps (sowns (WRelay p c os)) sv (put_live p y sv)"
      using touched_inv [OF inv p en ap unwritten_log [OF inv p ap]] touched_keeps [OF inv p ap t] by (simp_all add: touches_def)
    have next_same: "lr_next r = lr_next ?r" using m by (auto simp: recv_def split: list.splits if_splits)
    show ?thesis
    proof (cases m)
      case None
      then have "put_live p y sv = put_round p r sv" by (simp add: y_def put_live_def put_round_def)
      with put ChannelReady m None show ?thesis by (simp add: ws_relay_def met_def)
    next
      case (Some v)
      then have "put_live p y sv = (put_round p r sv)\<lparr>sv_got := (sv_got sv)(p := (sv_got sv p)(?s := sv_got sv p ?s @ [v]))\<rparr>"
        by (simp add: y_def put_live_def)
      moreover have "slocal (put_live p y sv) (WRelay p (c\<lparr>wc_frames := wc_frames c @ [encode_inline v]\<rparr>) (\<lambda>i. os (Suc i)))"
        "slocal (put_live p y sv) (WLeave p c)"
        using p s fr Some next_same by (simp_all add: y_def)
      ultimately show ?thesis
        using put ChannelReady m Some by (cases w) (simp_all add: ws_relay_def met_def)
    qed
  qed
qed

lemma section_met:
  assumes inv: "sv_inv sv" and loc: "slocal sv j"
  shows "\<exists>r sv'. stream_step j sv = Some (r, sv') \<and> met j sv r sv'"
proof (cases j)
  case (SConn inp quiet)
  then show ?thesis using open_met [OF inv, of inp quiet] by (auto split: prod.splits)
next
  case (SForget p)
  then show ?thesis using forget_met [OF inv, of p] loc by (auto split: prod.splits)
next
  case (WConn ids up os)
  then show ?thesis using find_met [OF inv] by simp
next
  case (WRelay p c os)
  then show ?thesis using ws_relay_met [OF inv, of p c os] loc by (auto split: prod.splits)
next
  case LList
  then show ?thesis using met_same [OF inv] by simp
qed (use assms relay_met done_met join_met leave_met in simp_all)

lemma section_met_step:
  assumes "sv_inv sv" and "slocal sv j" and "stream_step j sv = Some (r, sv')"
  shows "met j sv r sv'"
  using section_met [OF assms(1,2)] assms(3) by auto

fun stream_entry :: "stream_job \<Rightarrow> bool" where
  "stream_entry (SConn inp quiet) = True"
| "stream_entry (WConn ids up os) = True"
| "stream_entry LList = True"
| "stream_entry _ = False"

interpretation stream_threads: thread_contract stream_step sv_inv slocal sowns sfree skeeps stream_entry
proof (unfold_locales, goal_cases)
  case (1 j sv)
  then show ?case by (cases j) simp_all
next
  case (2 sv j)
  then show ?case using section_met [of sv j] by auto
next
  case (3 sv j r sv')
  then show ?case using section_met_step by (auto simp: met_def)
next
  case (4 sv j j' sv')
  then show ?case using section_met_step [of sv j "Next j'"] by (auto simp: met_def)
next
  case (5 sv j j' sv')
  then show ?case using section_met_step [of sv j "Next j'"] by (auto simp: met_def)
next
  case (6 sv j r sv')
  then show ?case using section_met_step by (auto simp: met_def)
next
  case (7 sv i S sv')
  then show ?case by (rule slocal_kept)
next
  case (8 sv i)
  then show ?case by (rule slocal_not_free)
qed

end
