(* ===== verification/Stream_Service.thy ===== *)
theory Stream_Service
  imports Stream_Threads
begin

text \<open>
  What the stream service does for its clients under every interleaving of simulator
  connections, WebSocket clients and readers of the active list (server/stream).
\<close>

section \<open>All interleavings\<close>

definition service_start :: "(stream_job, service) pool \<Rightarrow> bool" where
  "service_start c \<longleftrightarrow> c = (new_service, \<lambda>_. None)"

abbreviation service_reach :: "(stream_job, service) pool \<Rightarrow> bool" where
  "service_reach \<equiv> reach service_start (pool_step stream_step (\<lambda>_. stream_entry))"

lemma new_service_inv: "sv_inv new_service"
  by (simp add: sv_inv_def new_service_def NewHub_def)

lemma service_inv:
  assumes "service_reach c"
  shows "stream_threads.pool_inv c"
  using assms
proof (induction rule: reach.induct)
  case (reach_init c)
  then show ?case using stream_threads.pool_inv_idle [OF new_service_inv] by (simp add: service_start_def)
next
  case (reach_step c ev c')
  then show ?case by (blast intro: stream_threads.pool_inv_step)
qed

lemma service_inv_parts:
  assumes "service_reach (sv, js)"
  shows "sv_inv sv" and "js t = Some j \<Longrightarrow> slocal sv j"
    and "t \<noteq> u \<Longrightarrow> js t = Some i \<Longrightarrow> js u = Some j \<Longrightarrow> sowns i \<inter> sowns j = {}"
  using service_inv [OF assms] by (auto simp: stream_threads.pool_inv_def)

section \<open>What a subscriber has received\<close>

lemma promised_log:
  assumes "sv_inv sv" and "p < hub_next (sv_hub sv)"
  shows "prefix (live_log (sv_round sv p)) (promised sv p @ [done_message])"
  using assms by (auto simp: sv_inv_def log_ok_def prefix_def split: if_splits)

lemma done_not_relayed: "done_message \<notin> set (relay seen ms)"
  by (induction seen ms rule: relay.induct) (auto simp: done_message_def msg_types)

lemma received_log:
  assumes inv: "sv_inv sv" and p: "p < hub_next (sv_hub sv)" and s: "s < lr_next (sv_round sv p)"
    and ms: "prefix ms (sv_got sv p s)"
  shows "prefix ms (promised sv p @ [done_message]) \<and> (done_message \<in> set ms \<longrightarrow> ms = promised sv p @ [done_message])"
proof -
  have "prefix (live_view (live_of sv p) s) (live_log (sv_round sv p))"
    using inv p s by (auto simp: sv_inv_def live_inv_def live_core_def clients_ok_def)
  moreover have "prefix ms (live_view (live_of sv p) s)" using ms by (simp add: live_view_def)
  ultimately have pre: "prefix ms (promised sv p @ [done_message])"
    using promised_log [OF inv p] by (meson prefix_order.trans)
  moreover have "\<not> prefix ms (promised sv p)" if "done_message \<in> set ms"
    using that done_not_relayed set_mono_prefix unfolding promised_def by blast
  ultimately show ?thesis by (auto simp: prefix_snoc)
qed

section \<open>Rounds that are listed are connected\<close>

definition connected :: "(stream_job, service) pool \<Rightarrow> bool" where
  "connected c \<longleftrightarrow> (\<forall>(rid, p) \<in> set (hub_rounds (sv_hub (fst c))). \<exists>t j. snd c t = Some j \<and> Inl p \<in> sowns j)"

lemma section_listed:
  assumes inv: "sv_inv sv" and loc: "slocal sv j" and st: "stream_step j sv = Some (r, sv')"
    and q: "(rid, q) \<in> set (hub_rounds (sv_hub sv'))"
  shows "((rid, q) \<in> set (hub_rounds (sv_hub sv)) \<and> Inl q \<notin> sowns j) \<or> (\<exists>j'. r = Next j' \<and> Inl q \<in> sowns j')"
proof (cases j)
  case (SConn inp quiet)
  with st q show ?thesis
    by (auto simp: conn_open_def hub_Open_cases split: sum.splits prod.splits if_splits)
next
  case (SRelay p inp quiet)
  with st q show ?thesis by (auto simp: conn_relay_def split: sum.splits prod.splits if_splits option.splits)
next
  case (SDone p)
  then have "lr_done (sv_round sv p) = False" using loc by simp
  with SDone st q show ?thesis by (auto simp: conn_done_def round_Done_def split: prod.splits if_splits option.splits)
next
  case (SForget p)
  with st q loc inv show ?thesis by (auto simp: conn_forget_def hub_remove_def listed_def sv_inv_def)
next
  case (WRelay p c os)
  with st q show ?thesis
    by (auto simp: ws_relay_def split: ws_choice.splits option.splits prod.splits)
qed (use st q in \<open>auto simp: ws_join_def ws_leave_def\<close>)

lemma connected_step:
  assumes inv: "stream_threads.pool_inv c" and con: "connected c"
    and ap: "pool_apply stream_step ev c = Some (a, c')"
  shows "connected c'"
proof -
  obtain sv js where c: "c = (sv, js)" by (cases c)
  show ?thesis
  proof (cases ev)
    case (Begin t j)
    have "\<exists>u i. snd c' u = Some i \<and> Inl q \<in> sowns i" if q: "(rid, q) \<in> set (hub_rounds (sv_hub sv))" for rid q
    proof -
      obtain u i where "js u = Some i" "Inl q \<in> sowns i" using con c q by (auto simp: connected_def)
      with ap c Begin show ?thesis by (auto intro!: exI [of _ u] split: if_splits)
    qed
    with ap c Begin show ?thesis by (auto simp: connected_def)
  next
    case (Sched t)
    show ?thesis
    proof (cases "js t")
      case None
      with ap con c Sched show ?thesis by simp
    next
      case (Some j)
      then obtain r sv' where st: "stream_step j sv = Some (r, sv')"
        and c': "c' = (sv', js(t := (case r of Next j' \<Rightarrow> Some j' | Ret b \<Rightarrow> None)))"
        using ap c Sched by (auto split: option.splits progress.splits)
      have loc: "sv_inv sv" "slocal sv j" using inv c Some by (auto simp: stream_threads.pool_inv_def)
      have "\<exists>u i. snd c' u = Some i \<and> Inl q \<in> sowns i" if "(rid, q) \<in> set (hub_rounds (sv_hub sv'))" for rid q
        using section_listed [OF loc st that]
      proof
        assume "\<exists>j'. r = Next j' \<and> Inl q \<in> sowns j'"
        then show ?thesis by (auto simp: c')
      next
        assume old: "(rid, q) \<in> set (hub_rounds (sv_hub sv)) \<and> Inl q \<notin> sowns j"
        then obtain u i where "js u = Some i" "Inl q \<in> sowns i" using con c by (auto simp: connected_def)
        with old Some show ?thesis by (auto simp: c' intro!: exI [of _ u])
      qed
      then show ?thesis by (auto simp: connected_def c' simp del: fun_upd_apply)
    qed
  qed
qed

lemma service_connected:
  assumes "service_reach c"
  shows "connected c"
  using assms
proof (induction rule: reach.induct)
  case (reach_init c)
  then show ?case by (simp add: service_start_def connected_def new_service_def NewHub_def)
next
  case (reach_step c ev c')
  then show ?case using connected_step [OF service_inv] unfolding pool_step_def by blast
qed

lemma listed_owned:
  assumes "service_reach (sv, js)" and "(rid, p) \<in> set (hub_rounds (sv_hub sv))"
  shows "\<exists>t j. js t = Some j \<and> Inl p \<in> sowns j"
  using service_connected [OF assms(1)] assms(2) by (auto simp: connected_def)

lemma owned_or_finished:
  assumes "service_reach (sv, js)" and "p < hub_next (sv_hub sv)"
  shows "(\<exists>t j. js t = Some j \<and> Inl p \<in> sowns j) \<or> live_log (sv_round sv p) = promised sv p @ [done_message]"
proof (cases "lr_done (sv_round sv p)")
  case True
  with service_inv_parts(1) [OF assms(1)] assms(2) show ?thesis by (simp add: sv_inv_def log_ok_def)
next
  case False
  then have "listed sv p" using service_inv_parts(1) [OF assms(1)] assms(2) by (simp add: sv_inv_def)
  with listed_owned [OF assms(1)] show ?thesis unfolding listed_def by blast
qed

section \<open>A finalized round lets its clients go\<close>

text \<open>
  A client of a finalized round: the sections it has left are those that empty its channel, one
  that finds it closed, and perhaps \<open>Unsubscribe\<close>.
\<close>

definition drains :: "nat \<Rightarrow> nat \<Rightarrow> service \<Rightarrow> stream_job option \<Rightarrow> nat \<Rightarrow> bool" where
  "drains p s sv job n \<longleftrightarrow> (case job of
       None \<Rightarrow> True
     | Some (WLeave q c) \<Rightarrow> q = p \<and> wc_sub c = s \<and> 0 < n
     | Some (WRelay q c os) \<Rightarrow> q = p \<and> wc_sub c = s \<and> lr_done (sv_round sv p) \<and> length (ch_buf (lr_chans (sv_round sv p) s)) + 1 < n
     | _ \<Rightarrow> False)"

lemma closed_when_done:
  assumes "sv_inv sv" and "p < hub_next (sv_hub sv)" and "lr_done (sv_round sv p)" and "s < lr_next (sv_round sv p)"
  shows "ch_closed (lr_chans (sv_round sv p) s)"
  using assms by (auto simp: sv_inv_def live_inv_def live_core_def clients_ok_def)

lemma own_drains:
  assumes inv: "sv_inv sv" and loc: "slocal sv j" and st: "stream_step j sv = Some (r, sv')"
    and d: "drains p s sv (Some j) (Suc n)"
  shows "drains p s sv' (case r of Next j' \<Rightarrow> Some j' | Ret a \<Rightarrow> None) n"
proof (cases j)
  case (WLeave q c)
  with st show ?thesis by (auto simp: ws_leave_def drains_def)
next
  case (WRelay q c os)
  let ?r = "sv_round sv p"
  have q: "q = p" "wc_sub c = s" "lr_done ?r" "length (ch_buf (lr_chans ?r s)) < n" using d WRelay by (simp_all add: drains_def)
  have "ch_closed (lr_chans ?r s)" using closed_when_done [OF inv] loc WRelay q by auto
  with st WRelay q show ?thesis
    by (cases "ch_buf (lr_chans ?r s)")
      (auto simp: ws_relay_def recv_def drains_def split: ws_choice.splits option.splits)
qed (use d in \<open>simp_all add: drains_def\<close>)

lemma others_drain:
  assumes inv: "sv_inv sv" and loc: "slocal sv i" and sh: "skeeps S sv sv'" and own: "sowns i \<inter> S = {}"
    and d: "drains p s sv (Some i) n"
  shows "drains p s sv' (Some i) n"
proof (cases i)
  case (WRelay q c os)
  then have q: "q = p" "wc_sub c = s" "lr_done (sv_round sv p)" "p < hub_next (sv_hub sv)" "s < lr_next (sv_round sv p)"
    using d loc by (auto simp: drains_def)
  moreover have "ch_closed (lr_chans (sv_round sv p) s)" using closed_when_done [OF inv] q by blast
  ultimately have "lr_chans (sv_round sv' p) s = lr_chans (sv_round sv p) s" "lr_done (sv_round sv' p)"
    using sh own WRelay by (auto simp: skeeps_def round_kept_def)
  with d WRelay q show ?thesis by (simp add: drains_def)
qed (use d in \<open>simp_all add: drains_def\<close>)

lemma run_drains:
  assumes "stream_threads.pool_inv (sv, js)" and "pool_run stream_step evs (sv, js) = Some (as, (sv', js'))"
    and "\<And>u j. Begin u j \<in> set evs \<Longrightarrow> u \<noteq> t \<and> stream_entry j"
    and "drains p s sv (js t) (length (filter (\<lambda>e. e = Sched t) evs))"
  shows "js' t = None"
  using assms
proof (induction evs arbitrary: sv js as)
  case Nil
  then have "slocal sv j" if "js t = Some j" for j using that by (auto simp: stream_threads.pool_inv_def)
  with Nil show ?case by (auto simp: drains_def split: option.splits stream_job.splits)
next
  case (Cons ev evs)
  obtain a sv1 js1 bs where ap: "pool_apply stream_step ev (sv, js) = Some (a, sv1, js1)"
    and run: "pool_run stream_step evs (sv1, js1) = Some (bs, (sv', js'))"
    using Cons.prems(2) by (auto split: option.splits)
  have inv1: "stream_threads.pool_inv (sv1, js1)"
    using Cons.prems(1,3) by (intro stream_threads.pool_inv_apply [OF _ _ ap]) auto
  have begins: "u \<noteq> t \<and> stream_entry j" if "Begin u j \<in> set evs" for u j
    using Cons.prems(3) [of u j] that by simp
  let ?n = "length (filter (\<lambda>e. e = Sched t) evs)"
  have "drains p s sv1 (js1 t) ?n"
  proof (cases ev)
    case (Begin u j)
    then have "u \<noteq> t" using Cons.prems(3) [of u j] by simp
    with Begin ap have "sv1 = sv" "js1 t = js t" by (auto split: if_splits)
    with Cons.prems(4) Begin show ?thesis by simp
  next
    case (Sched u)
    show ?thesis
    proof (cases "js u")
      case None
      with ap Sched Cons.prems(4) show ?thesis by (cases "u = t") (auto simp: drains_def)
    next
      case (Some j)
      then obtain r where st: "stream_step j sv = Some (r, sv1)"
        and js1: "js1 = js(u := (case r of Next j' \<Rightarrow> Some j' | Ret b \<Rightarrow> None))"
        using ap Sched by (auto split: option.splits progress.splits)
      have loc: "sv_inv sv" "slocal sv j" using Cons.prems(1) Some by (auto simp: stream_threads.pool_inv_def)
      show ?thesis
      proof (cases "u = t")
        case True
        with own_drains [OF loc st, of p s ?n] Cons.prems(4) Sched Some show ?thesis by (simp add: js1)
      next
        case False
        show ?thesis
        proof (cases "js t")
          case None
          with False show ?thesis by (simp add: js1 drains_def)
        next
          case i: (Some i)
          have "sowns i \<inter> sowns j = {}"
            using Cons.prems(1) Some i False unfolding stream_threads.pool_inv_def snd_conv by metis
          moreover have "slocal sv i" using Cons.prems(1) i by (simp add: stream_threads.pool_inv_def)
          moreover have "skeeps (sowns j) sv sv1" using section_met_step [OF loc st] by (simp add: met_def)
          ultimately show ?thesis
            using others_drain [OF loc(1), of i "sowns j" sv1 p s ?n] Cons.prems(4) Sched i False by (simp add: js1)
        qed
      qed
    qed
  qed
  then show ?case using Cons.IH [OF inv1 run begins] by blast
qed

lemma closed_answer:
  assumes "stream_step j sv = Some (Ret (WsClosed p c), sv')"
  obtains c0 where "wc_frames c = wc_frames c0" "j = WLeave p c0 \<or> (\<exists>os. j = WRelay p c0 os)"
  using assms
  by (cases j)
    (auto simp: conn_open_def conn_relay_def conn_done_def conn_forget_def ws_find_def ws_join_def ws_relay_def ws_leave_def
      split: sum.splits prod.splits option.splits if_splits ws_choice.splits)

lemma closed_client:
  assumes "service_reach (sv, js)" and "pool_apply stream_step (Sched t) (sv, js) = Some (Some (WsClosed p c), c')"
  obtains c0 where "wc_frames c = wc_frames c0" "slocal sv (WLeave p c0) \<or> (\<exists>os. slocal sv (WRelay p c0 os))"
proof -
  obtain j where j: "js t = Some j" "stream_step j sv = Some (Ret (WsClosed p c), fst c')"
    using assms(2) by (auto split: option.splits progress.splits)
  from j(2) obtain c0 where "wc_frames c = wc_frames c0" "j = WLeave p c0 \<or> (\<exists>os. j = WRelay p c0 os)"
    by (rule closed_answer)
  with that service_inv_parts(2) [OF assms(1) j(1)] show ?thesis by blast
qed

lemma spectator_frames:
  assumes "sv_inv sv" and "slocal sv (WLeave p c) \<or> (\<exists>os. slocal sv (WRelay p c os))"
  shows "\<exists>ms. wc_frames c = map encode_inline ms \<and> prefix ms (promised sv p @ [done_message]) \<and>
    (done_message \<in> set ms \<longrightarrow> ms = promised sv p @ [done_message])"
proof -
  have p: "p < hub_next (sv_hub sv)" "wc_sub c < lr_next (sv_round sv p)"
    and fr: "prefix (wc_frames c) (map encode_inline (sv_got sv p (wc_sub c)))"
    using assms(2) by auto
  then obtain ms where "wc_frames c = map encode_inline ms" "prefix ms (sv_got sv p (wc_sub c))"
    by (metis prefix_map_rightE)
  with received_log [OF assms(1) p] show ?thesis by auto
qed

section \<open>Properties\<close>

text \<open>
  No interleaving of simulator connections, WebSocket clients and readers of the list
  panics or blocks with a mutex held: every section of every thread goes through.
\<close>

theorem stream_never_panics:
  assumes "service_reach c"
  shows "\<exists>a c'. pool_apply stream_step ev c = Some (a, c')"
  using stream_threads.pool_total [OF service_inv [OF assms]] .

text \<open>
  C12: what a spectator sees is what the simulator sent.  However connections and clients are
  interleaved, the frames a client has been sent, while it is connected or when its handler
  returns, are one by one the first messages of what the simulator of its round put on the
  wire (a header, then ticks, up to the first message out of order), followed by DONE; and a
  client that was sent DONE was sent them all.
\<close>

theorem spectators_see_the_race:
  assumes "service_reach (sv, js)"
    and "js t = Some (WRelay p c os) \<or> js t = Some (WLeave p c) \<or>
      pool_apply stream_step (Sched t) (sv, js) = Some (Some (WsClosed p c), c')"
  shows "\<exists>ms. wc_frames c = map encode_inline ms \<and> prefix ms (promised sv p @ [done_message]) \<and>
    (done_message \<in> set ms \<longrightarrow> ms = promised sv p @ [done_message])"
proof -
  note inv = service_inv_parts [OF assms(1)]
  obtain c0 where "wc_frames c = wc_frames c0" "slocal sv (WLeave p c0) \<or> (\<exists>os. slocal sv (WRelay p c0 os))"
    using assms(2) inv(2) closed_client [OF assms(1), of t p c c'] by metis
  with spectator_frames [OF inv(1), of p c0] show ?thesis by simp
qed

text \<open>
  C14: the list of live rounds is the list of simulator connections.  An id is listed exactly
  while a connection holds its round, once; and as soon as a round has no connection, its log
  is all that its simulator was allowed to send, closed by DONE.
\<close>

theorem live_rounds_are_connected:
  assumes "service_reach (sv, js)"
  shows "distinct (ActiveRounds (sv_hub sv)) \<and>
    (rid \<in> set (ActiveRounds (sv_hub sv)) \<longleftrightarrow> (\<exists>t j p. js t = Some j \<and> Inl p \<in> sowns j \<and> lr_id (sv_round sv p) = rid)) \<and>
    (\<forall>p < hub_next (sv_hub sv). (\<exists>t j. js t = Some j \<and> Inl p \<in> sowns j) \<or>
       live_log (sv_round sv p) = promised sv p @ [done_message])"
proof (intro conjI allI impI)
  note inv = service_inv_parts [OF assms]
  show "distinct (ActiveRounds (sv_hub sv))" using inv(1) by (simp add: sv_inv_def ActiveRounds_def)
  show "rid \<in> set (ActiveRounds (sv_hub sv)) \<longleftrightarrow> (\<exists>t j p. js t = Some j \<and> Inl p \<in> sowns j \<and> lr_id (sv_round sv p) = rid)"
  proof
    assume "rid \<in> set (ActiveRounds (sv_hub sv))"
    then obtain p where "(rid, p) \<in> set (hub_rounds (sv_hub sv))" by (auto simp: ActiveRounds_def)
    with listed_owned [OF assms] inv(1) show "\<exists>t j p. js t = Some j \<and> Inl p \<in> sowns j \<and> lr_id (sv_round sv p) = rid"
      by (fastforce simp: sv_inv_def)
  next
    assume "\<exists>t j p. js t = Some j \<and> Inl p \<in> sowns j \<and> lr_id (sv_round sv p) = rid"
    then obtain t j p where j: "js t = Some j" "Inl p \<in> sowns j" "lr_id (sv_round sv p) = rid" by blast
    then have "listed sv p" using inv(1) inv(2) [OF j(1)] by (cases j) (auto simp: sv_inv_def)
    with j(3) show "rid \<in> set (ActiveRounds (sv_hub sv))" by (force simp: listed_def ActiveRounds_def)
  qed
  show "(\<exists>t j. js t = Some j \<and> Inl p \<in> sowns j) \<or> live_log (sv_round sv p) = promised sv p @ [done_message]"
    if "p < hub_next (sv_hub sv)" for p
    using that by (rule owned_or_finished [OF assms])
qed

text \<open>
  C26: nobody waits for a race that is over.  Once a round is finalized, whatever everybody
  else does meanwhile, the handler of each of its clients has returned after at most two
  sections more than there are messages waiting for it.
\<close>

theorem finalized_round_frees_clients:
  assumes "service_reach (sv, js)" and "js t = Some (WRelay p c os)" and "lr_done (sv_round sv p)"
    and "pool_run stream_step evs (sv, js) = Some (as, (sv', js'))"
    and "\<And>u j. Begin u j \<in> set evs \<Longrightarrow> u \<noteq> t \<and> stream_entry j"
    and "length (ch_buf (lr_chans (sv_round sv p) (wc_sub c))) + 2 \<le> length (filter (\<lambda>e. e = Sched t) evs)"
  shows "js' t = None"
  using run_drains [OF service_inv [OF assms(1)] assms(4), of t p "wc_sub c"] assms(2,3,5,6) by (simp add: drains_def)

section \<open>A race with one spectator\<close>

definition demo_header :: message where
  "demo_header = \<lparr>msg_Type = MsgHeader, msg_Payload = [1]\<rparr>"

definition demo_tick :: message where
  "demo_tick = \<lparr>msg_Type = MsgTick, msg_Payload = [2]\<rparr>"

definition demo_feed :: "byte list" where
  "demo_feed = encode_message demo_header @ encode_message demo_tick"

text \<open>The spectator has the header, the tick waits for it, and the simulator is about to end.\<close>

definition demo_race :: "stream_job pool_event list" where
  "demo_race = [Begin 0 (SConn ([9, 0, 0, 0, 0, 0, 0, 0] @ demo_feed) False), Sched 0, Sched 0,
     Begin 1 (WConn (format_uint 9) None (\<lambda>_. ChannelReady None)), Sched 1, Sched 1, Sched 0, Sched 1]"

definition demo_service :: "(stream_job, service) pool" where
  "demo_service = snd (the (pool_run stream_step demo_race (new_service, \<lambda>_. None)))"

lemma demo_wire:
  "read_message MaxPayloadBytes demo_feed = Inr (demo_header, encode_message demo_tick)"
  "read_message MaxPayloadBytes (encode_message demo_tick) = Inr (demo_tick, [])"
  "read_message MaxPayloadBytes [] = Inl (Sentinel (StdErr EOF))"
proof -
  have "sendable demo_header" "sendable demo_tick" by (simp_all add: sendable_def demo_header_def demo_tick_def MaxPayloadBytes_def)
  then show "read_message MaxPayloadBytes demo_feed = Inr (demo_header, encode_message demo_tick)"
    "read_message MaxPayloadBytes (encode_message demo_tick) = Inr (demo_tick, [])"
    using msg.dec_enc [where m = demo_header and rest = "encode_message demo_tick"] msg.dec_enc [where m = demo_tick and rest = "[]"]
    by (simp_all add: sendable_def demo_feed_def)
qed (simp add: read_message_def read_full_def)

lemma demo_types: "msg_Type demo_header = MsgHeader" "msg_Type demo_tick = MsgTick" "MsgTick \<noteq> MsgHeader"
    "\<lparr>msg_Type = MsgHeader, msg_Payload = msg_Payload demo_header\<rparr> = demo_header"
    "\<lparr>msg_Type = MsgTick, msg_Payload = msg_Payload demo_tick\<rparr> = demo_tick"
  by (simp_all add: demo_header_def demo_tick_def msg_types)

lemmas demo_eval = conn_open_def read_full_def new_service_def NewHub_def hub_Open_def conn_relay_def demo_wire ws_find_def
  ws_admit_def hub_Lookup_def ws_join_def ws_start_def Subscribe_eq ws_relay_def conn_done_def round_Done_def close_chan_def
  demo_types new_live_round_def WriteHeader_def WriteTick_def fanoutLocked_def live_log_def recv_def try_send_def sub_cap_def Let_def

lemma demo_race_run:
  "\<exists>as. pool_run stream_step demo_race (new_service, \<lambda>_. None) = Some (as, demo_service) \<and>
    snd demo_service 0 = Some (SRelay 0 [] False) \<and>
    snd demo_service 1 = Some (WRelay 0 \<lparr>wc_sub = 0, wc_frames = [encode_inline demo_header], wc_running = True, wc_ended = False\<rparr> (\<lambda>_. ChannelReady None)) \<and>
    ch_buf (lr_chans (sv_round (fst demo_service) 0) 0) = [demo_tick] \<and> lr_id (sv_round (fst demo_service) 0) = 9"
  by (simp add: demo_service_def demo_race_def demo_eval)

lemma demo_service_reach: "service_reach demo_service"
proof -
  obtain as where run: "pool_run stream_step demo_race (new_service, \<lambda>_. None) = Some (as, demo_service)"
    using demo_race_run by blast
  show ?thesis
    by (rule pool_run_reach [OF reach_init run]) (auto simp: service_start_def demo_race_def)
qed

theorem stream_never_panics_witness:
  "service_reach demo_service \<and> (\<exists>a c'. pool_apply stream_step (Sched 0) demo_service = Some (a, c'))"
  using stream_never_panics [OF demo_service_reach] demo_service_reach by blast

theorem spectators_see_the_race_witness:
  "snd demo_service 1 = Some (WRelay 0 \<lparr>wc_sub = 0, wc_frames = [encode_inline demo_header], wc_running = True, wc_ended = False\<rparr> (\<lambda>_. ChannelReady None)) \<and>
   (\<exists>ms. [encode_inline demo_header] = map encode_inline ms \<and> prefix ms (promised (fst demo_service) 0 @ [done_message]))"
proof -
  have reach: "service_reach (fst demo_service, snd demo_service)" using demo_service_reach by simp
  from demo_race_run have job: "snd demo_service 1 = Some (WRelay 0 \<lparr>wc_sub = 0, wc_frames = [encode_inline demo_header],
      wc_running = True, wc_ended = False\<rparr> (\<lambda>_. ChannelReady None))" by blast
  obtain ms where ms: "[encode_inline demo_header] = map encode_inline ms" "prefix ms (promised (fst demo_service) 0 @ [done_message])"
    using spectators_see_the_race [OF reach disjI1 [OF job], unfolded ws_conn.select_convs] by (elim exE conjE)
  show ?thesis by (intro conjI exI [of _ ms] job ms)
qed

theorem live_rounds_are_connected_witness:
  "snd demo_service 0 = Some (SRelay 0 [] False) \<and> 9 \<in> set (ActiveRounds (sv_hub (fst demo_service)))"
proof -
  have reach: "service_reach (fst demo_service, snd demo_service)" using demo_service_reach by simp
  from demo_race_run have job: "snd demo_service 0 = Some (SRelay 0 [] False)" and id: "lr_id (sv_round (fst demo_service) 0) = 9"
    by blast+
  then have "\<exists>t j p. snd demo_service t = Some j \<and> Inl p \<in> sowns j \<and> lr_id (sv_round (fst demo_service) p) = 9"
    by (intro exI [of _ 0] exI [of _ "SRelay 0 [] False"]) simp
  with job live_rounds_are_connected [OF reach, of 9] show ?thesis by blast
qed

text \<open>The simulator has closed its connection and the round is finalized.\<close>

definition demo_over :: "(stream_job, service) pool" where
  "demo_over = snd (the (pool_run stream_step [Sched 0, Sched 0] demo_service))"

lemma demo_over_run:
  "\<exists>as. pool_run stream_step [Sched 0, Sched 0] demo_service = Some (as, demo_over) \<and>
    snd demo_over 1 = snd demo_service 1 \<and> lr_done (sv_round (fst demo_over) 0) \<and>
    length (ch_buf (lr_chans (sv_round (fst demo_over) 0) 0)) = 2"
  by (simp add: demo_over_def demo_service_def demo_race_def demo_eval)

theorem finalized_round_frees_clients_witness:
  "\<exists>as sv js. pool_run stream_step (replicate 4 (Sched 1)) demo_over = Some (as, (sv, js)) \<and> js 1 = None"
proof -
  obtain as where run: "pool_run stream_step [Sched 0, Sched 0] demo_service = Some (as, demo_over)"
    and over: "snd demo_over 1 = snd demo_service 1" "lr_done (sv_round (fst demo_over) 0)"
      "length (ch_buf (lr_chans (sv_round (fst demo_over) 0) 0)) = 2"
    using demo_over_run by blast
  have reach: "service_reach (fst demo_over, snd demo_over)"
    using pool_run_reach [OF demo_service_reach run] by simp
  obtain bs sv js where rest: "pool_run stream_step (replicate 4 (Sched 1)) (fst demo_over, snd demo_over) = Some (bs, (sv, js))"
    using stream_threads.pool_run_total [OF service_inv [OF reach], of "replicate 4 (Sched 1)"] by auto
  have "snd demo_over 1 = Some (WRelay 0 \<lparr>wc_sub = 0, wc_frames = [encode_inline demo_header], wc_running = True,
      wc_ended = False\<rparr> (\<lambda>_. ChannelReady None))"
    using over(1) demo_race_run by simp
  from finalized_round_frees_clients [OF reach this over(2) rest] rest over(3) show ?thesis by auto
qed

end
