(* ===== verification/Stream_Listener.thy ===== *)
theory Stream_Listener
  imports Stream_Service
begin

text \<open>
  The TCP listener of the ingress (server/stream/ingest.go): the accept loop, which starts a
  handler per connection, and \<open>Close\<close>, which waits for the loop and the handlers through a wait
  group.  The network is an input: which connection arrives, with which bytes and whether the peer
  then stays silent, and when an accept fails.  A wait group that would become negative and a channel closed twice panic.
\<close>

section \<open>The listener\<close>

text \<open>The accept loop is in \<open>Accept\<close>, holds an accepted connection, or has returned.\<close>

datatype accept_point = InAccept | Accepted "byte list" bool | LoopEnded

text \<open>\<open>Close\<close> was not called, has closed \<open>quit\<close>, has closed the socket and waits, or has returned.\<close>

datatype close_point = CloseIdle | QuitClosed | Waiting | CloseReturned

record listener =
  ln_open :: bool
  ln_quit :: bool
  ln_wg :: int
  ln_accept :: accept_point
  ln_closing :: close_point

type_synonym ln_sys = "listener \<times> (stream_job, service) pool"

definition ln_Listen :: "gerr option \<Rightarrow> gerr + listener" where
  "ln_Listen err =
     (case err of
        Some e \<Rightarrow> Inl (Wrapf ''stream: listen'' e)
      | None \<Rightarrow> Inr \<lparr>ln_open = True, ln_quit = False, ln_wg = 0 + 1, ln_accept = InAccept, ln_closing = CloseIdle\<rparr>)"

definition wg_done :: "int \<Rightarrow> int option" where
  "wg_done w = (if w - 1 < 0 then None else Some (w - 1))"

text \<open>The threads that are handlers of simulator connections.\<close>

fun sim_job :: "stream_job \<Rightarrow> bool" where
  "sim_job (SConn inp quiet) = True"
| "sim_job (SRelay p inp quiet) = True"
| "sim_job (SDone p) = True"
| "sim_job (SForget p) = True"
| "sim_job _ = False"

datatype ln_event =
    AcceptConn "byte list" bool | AcceptError | Spawn nat | CloseQuit | CloseSocket | CloseWait | Stream "stream_job pool_event"

text \<open>
  A closed socket accepts nothing; \<open>Wait\<close> returns when the count is 0; \<open>Close\<close> is called once, as by
  replayd; clients other than simulators come from the HTTP server.
\<close>

fun ln_enabled :: "ln_event \<Rightarrow> ln_sys \<Rightarrow> bool" where
  "ln_enabled (AcceptConn inp quiet) (l, c) \<longleftrightarrow> ln_accept l = InAccept \<and> ln_open l"
| "ln_enabled AcceptError (l, c) \<longleftrightarrow> ln_accept l = InAccept"
| "ln_enabled (Spawn t) (l, c) \<longleftrightarrow> (case ln_accept l of Accepted inp quiet \<Rightarrow> snd c t = None | _ \<Rightarrow> False)"
| "ln_enabled CloseQuit (l, c) \<longleftrightarrow> ln_closing l = CloseIdle"
| "ln_enabled CloseSocket (l, c) \<longleftrightarrow> ln_closing l = QuitClosed"
| "ln_enabled CloseWait (l, c) \<longleftrightarrow> ln_closing l = Waiting \<and> ln_wg l = 0"
| "ln_enabled (Stream (Begin t j)) (l, c) \<longleftrightarrow> snd c t = None \<and> stream_entry j \<and> \<not> sim_job j"
| "ln_enabled (Stream (Sched t)) (l, c) \<longleftrightarrow> True"

text \<open>The accept loop; whatever the error is, and whether or not \<open>quit\<close> is closed, it returns.\<close>

definition accept_error :: "listener \<Rightarrow> listener option" where
  "accept_error l = map_option (\<lambda>w. l\<lparr>ln_accept := LoopEnded, ln_wg := w\<rparr>) (wg_done (ln_wg l))"

definition close_quit :: "listener \<Rightarrow> listener option" where
  "close_quit l = (if ln_quit l then None else Some (l\<lparr>ln_quit := True, ln_closing := QuitClosed\<rparr>))"

text \<open>The handler's deferred \<open>wg.Done\<close> runs when the handler has returned.\<close>

definition handler_done :: "(stream_job, service) pool \<Rightarrow> stream_job pool_event \<Rightarrow> stream_answer option \<Rightarrow> listener \<Rightarrow> listener option" where
  "handler_done c ev a l =
     (case ev of
        Begin t j \<Rightarrow> Some l
      | Sched t \<Rightarrow>
          (case (snd c t, a) of
             (Some j, Some r) \<Rightarrow> if sim_job j then map_option (\<lambda>w. l\<lparr>ln_wg := w\<rparr>) (wg_done (ln_wg l)) else Some l
           | _ \<Rightarrow> Some l))"

fun ln_apply :: "ln_event \<Rightarrow> ln_sys \<Rightarrow> ln_sys option" where
  "ln_apply (AcceptConn inp quiet) (l, c) = Some (l\<lparr>ln_accept := Accepted inp quiet\<rparr>, c)"
| "ln_apply AcceptError (l, c) = map_option (\<lambda>l'. (l', c)) (accept_error l)"
| "ln_apply (Spawn t) (l, c) =
     (case ln_accept l of
        Accepted inp quiet \<Rightarrow> map_option (\<lambda>(a, c'). (l\<lparr>ln_accept := InAccept, ln_wg := ln_wg l + 1\<rparr>, c'))
          (pool_apply stream_step (Begin t (SConn inp quiet)) c)
      | _ \<Rightarrow> Some (l, c))"
| "ln_apply CloseQuit (l, c) = map_option (\<lambda>l'. (l', c)) (close_quit l)"
| "ln_apply CloseSocket (l, c) = Some (l\<lparr>ln_open := False, ln_closing := Waiting\<rparr>, c)"
| "ln_apply CloseWait (l, c) = Some (l\<lparr>ln_closing := CloseReturned\<rparr>, c)"
| "ln_apply (Stream ev) (l, c) =
     (case pool_apply stream_step ev c of
        None \<Rightarrow> None
      | Some (a, c') \<Rightarrow> map_option (\<lambda>l'. (l', c')) (handler_done c ev a l))"

definition ln_step :: "ln_sys \<Rightarrow> ln_event \<Rightarrow> ln_sys \<Rightarrow> bool" where
  "ln_step x ev y \<longleftrightarrow> ln_enabled ev x \<and> ln_apply ev x = Some y"

definition ln_init :: "ln_sys \<Rightarrow> bool" where
  "ln_init x \<longleftrightarrow> ln_Listen None = Inr (fst x) \<and> service_start (snd x)"

section \<open>The wait group counts\<close>

definition sims :: "(stream_job, service) pool \<Rightarrow> nat set" where
  "sims c = {t. \<exists>j. snd c t = Some j \<and> sim_job j}"

definition ln_inv :: "ln_sys \<Rightarrow> bool" where
  "ln_inv x \<longleftrightarrow> service_reach (snd x) \<and> finite (sims (snd x)) \<and>
     ln_wg (fst x) = (if ln_accept (fst x) = LoopEnded then 0 else 1) + int (card (sims (snd x))) \<and>
     (ln_quit (fst x) \<longleftrightarrow> ln_closing (fst x) \<noteq> CloseIdle) \<and>
     (ln_open (fst x) \<longleftrightarrow> ln_closing (fst x) \<in> {CloseIdle, QuitClosed}) \<and>
     (ln_closing (fst x) = CloseReturned \<longrightarrow> ln_wg (fst x) = 0)"

lemma sim_job_next: "stream_step j sv = Some (Next j', sv') \<Longrightarrow> sim_job j' = sim_job j"
  by (cases j)
    (auto simp: conn_open_def conn_relay_def conn_done_def conn_forget_def ws_find_def ws_join_def ws_relay_def ws_leave_def
      split: sum.splits prod.splits option.splits if_splits ws_choice.splits)

lemma sims_begin: "snd c t = None \<Longrightarrow> pool_apply stream_step (Begin t j) c = Some (a, c') \<Longrightarrow>
    sims c' = (if sim_job j then insert t (sims c) else sims c) \<and> (sim_job j \<longrightarrow> t \<notin> sims c)"
  by (cases c) (auto simp: sims_def split: if_splits)

lemma sims_sched:
  assumes "pool_apply stream_step (Sched t) c = Some (a, c')"
  shows "sims c' = (if a = None then sims c else sims c - {t})"
proof -
  obtain sv js where c: "c = (sv, js)" by (cases c)
  show ?thesis
  proof (cases "js t")
    case None
    with assms c show ?thesis by (auto simp: sims_def)
  next
    case (Some j)
    then obtain r sv' where st: "stream_step j sv = Some (r, sv')" using assms c by (auto split: option.splits)
    show ?thesis
    proof (cases r)
      case (Next j')
      with sim_job_next [of j sv j' sv'] st assms c Some show ?thesis by (auto simp: sims_def split: if_splits)
    next
      case (Ret b)
      with st assms c Some show ?thesis by (auto simp: sims_def split: if_splits)
    qed
  qed
qed

text \<open>What the threads do is a run of the stream service.\<close>

lemma stream_event_reach:
  assumes "service_reach c" and "\<And>t j. ev = Begin t j \<Longrightarrow> stream_entry j"
  shows "\<exists>a c'. pool_apply stream_step ev c = Some (a, c') \<and> service_reach c'"
proof -
  obtain a c' where ap: "pool_apply stream_step ev c = Some (a, c')"
    using stream_threads.pool_total [OF service_inv [OF assms(1)]] by blast
  moreover have "pool_step stream_step (\<lambda>_. stream_entry) c ev c'" unfolding pool_step_def using assms(2) ap by blast
  then have "service_reach c'" by (rule reach_step [OF assms(1)])
  ultimately show ?thesis by blast
qed

lemma ln_inv_step:
  assumes inv: "ln_inv x" and en: "ln_enabled ev x"
  shows "\<exists>y. ln_apply ev x = Some y \<and> ln_inv y"
proof -
  obtain l c where x: "x = (l, c)" by (cases x)
  have reach: "service_reach c" and fin: "finite (sims c)"
    and wg: "ln_wg l = (if ln_accept l = LoopEnded then 0 else 1) + int (card (sims c))"
    using inv by (simp_all add: ln_inv_def x)
  show ?thesis
  proof (cases ev)
    case (Spawn t)
    then obtain inp quiet where acc: "ln_accept l = Accepted inp quiet" and idle: "snd c t = None"
      using en x by (auto split: accept_point.splits)
    obtain a c' where ap: "pool_apply stream_step (Begin t (SConn inp quiet)) c = Some (a, c')" and r: "service_reach c'"
      using stream_event_reach [OF reach, of "Begin t (SConn inp quiet)"] by auto
    with sims_begin [OF idle ap] acc Spawn x inv show ?thesis by (auto simp: ln_inv_def)
  next
    case (Stream sev)
    have entry: "stream_entry j" if "sev = Begin t j" for t j using en Stream x that by simp
    obtain a c' where ap: "pool_apply stream_step sev c = Some (a, c')" and r: "service_reach c'"
      using stream_event_reach [OF reach, of sev] entry by blast
    show ?thesis
    proof (cases sev)
      case (Begin t j)
      then have "sims c' = sims c" using sims_begin [of c t j a c'] en ap Stream x by simp
      with ap r Begin Stream x inv show ?thesis by (auto simp: ln_inv_def handler_done_def)
    next
      case (Sched t)
      note s = sims_sched [OF ap [unfolded Sched]]
      show ?thesis
      proof (cases "t \<in> sims c \<and> a \<noteq> None")
        case True
        then have "0 < card (sims c)" using fin by (metis card_gt_0_iff empty_iff)
        moreover have "card (sims c') = card (sims c) - 1" using True s fin by (auto simp: card_Diff_singleton)
        moreover have "handler_done c sev a l = Some (l\<lparr>ln_wg := ln_wg l - 1\<rparr>)"
          using True wg calculation(1) Sched by (auto simp: handler_done_def sims_def wg_done_def)
        ultimately show ?thesis
          using ap r s Stream x inv fin by (auto simp: ln_inv_def of_nat_diff)
      next
        case False
        then have "sims c' = sims c" using s by auto
        moreover have "handler_done c sev a l = Some l"
          using False Sched by (auto simp: handler_done_def sims_def split: option.split)
        ultimately show ?thesis using ap r Stream x inv by (auto simp: ln_inv_def)
      qed
    qed
  qed (use inv en x in \<open>auto simp: ln_inv_def accept_error_def wg_done_def close_quit_def\<close>)
qed

interpretation lst: invariant_system ln_init ln_step ln_inv
proof (unfold_locales, goal_cases)
  case (1 x)
  then have "sims (snd x) = {}" by (auto simp: ln_init_def service_start_def sims_def)
  then show ?case using 1 by (cases x) (auto simp: ln_init_def ln_Listen_def ln_inv_def intro: reach_init)
next
  case (2 x ev y)
  then show ?case using ln_inv_step [of x ev] by (auto simp: ln_step_def)
qed

section \<open>Handlers that never return\<close>

text \<open>
  A silent peer holds its handler for ever when what it sent is relayed to the end, so that the handler
  asks for more; any message that is refused, or of another type, ends the handler before that.
\<close>

function starves :: "bool \<Rightarrow> byte list \<Rightarrow> bool" where
  "starves seen inp =
     (case read_message MaxPayloadBytes inp of
        Inl e \<Rightarrow> starved inp
      | Inr (m, rest) \<Rightarrow>
          if msg_Type m = MsgHeader then \<not> seen \<and> starves True rest
          else if msg_Type m = MsgTick then seen \<and> starves seen rest
          else False)"
  by pat_completeness auto
termination
  by (relation "measure (length \<circ> snd)") (auto dest: msg.dec_consumes)

declare starves.simps [simp del]

fun lingers :: "service \<Rightarrow> stream_job \<Rightarrow> bool" where
  "lingers sv (SConn inp quiet) \<longleftrightarrow> quiet \<and> 8 \<le> length inp \<and> starves False (drop 8 inp)"
| "lingers sv (SRelay p inp quiet) \<longleftrightarrow> quiet \<and> starves (lr_hdr (sv_round sv p) \<noteq> None) inp"
| "lingers sv _ \<longleftrightarrow> False"

lemma lingers_kept:
  "slocal sv i \<Longrightarrow> skeeps S sv sv' \<Longrightarrow> sowns i \<inter> S = {} \<Longrightarrow> lingers sv' i = lingers sv i"
  by (cases i) (auto simp: skeeps_def round_kept_def)

lemma relay_lingers:
  assumes inv: "sv_inv sv" and loc: "slocal sv (SRelay p inp quiet)"
    and st: "conn_relay p inp quiet sv = Some (r, sv')"
  shows "if lingers sv (SRelay p inp quiet) then \<exists>rest. r = Next (SRelay p rest quiet) \<and> lingers sv' (SRelay p rest quiet)
    else case r of Next (SRelay q rest z) \<Rightarrow> \<not> lingers sv' (SRelay q rest z) \<and> length rest < length inp | _ \<Rightarrow> True"
proof (cases "read_message MaxPayloadBytes inp")
  case (Inl e)
  with st show ?thesis by (auto simp: conn_relay_def starves.simps [of _ inp])
next
  case (Inr x)
  obtain m rest where x: "x = (m, rest)" by (cases x)
  have short: "length rest < length inp" using msg.dec_consumes Inr x by blast
  note ok = log_open [OF inv loc]
  obtain e r1 where h: "WriteHeader (msg_Payload m) (sv_round sv p) = Some (e, r1)"
    "if lr_hdr (sv_round sv p) = None then e = None \<and> lr_hdr r1 \<noteq> None else e \<noteq> None \<and> r1 = sv_round sv p"
    using WriteHeader_ok [OF ok(1,2), of "msg_Payload m"] by fastforce
  obtain e' r2 where t: "WriteTick (msg_Payload m) (sv_round sv p) = Some (e', r2)"
    "if lr_hdr (sv_round sv p) \<noteq> None then e' = None \<and> lr_hdr r2 \<noteq> None else e' \<noteq> None \<and> r2 = sv_round sv p"
    using WriteTick_ok [OF ok(1,2), of "msg_Payload m"] by fastforce
  have unf: "starves seen inp =
      (if msg_Type m = MsgHeader then \<not> seen \<and> starves True rest
       else if msg_Type m = MsgTick then seen \<and> starves seen rest else False)" for seen
    using Inr x by (simp add: starves.simps [of _ inp])
  show ?thesis
    using st Inr x h t short by (cases e; cases e'; cases "lr_hdr (sv_round sv p)")
      (simp_all add: conn_relay_def unf split: if_splits; auto)+
qed

lemma relay_next:
  "conn_relay p inp quiet sv = Some (Next j', sv') \<Longrightarrow> j' = SDone p \<or> (\<exists>rest. j' = SRelay p rest quiet)"
  by (auto simp: conn_relay_def split: sum.splits prod.splits option.splits if_splits)

text \<open>A section leaves no handler behind that was not one already, and one that is held stays in the loop.\<close>

lemma lingers_step:
  assumes inv: "sv_inv sv" and loc: "slocal sv j" and st: "stream_step j sv = Some (Next j', sv')" and lin: "lingers sv' j'"
  shows "lingers sv j"
proof (cases j)
  case (SConn inp quiet)
  with st lin show ?thesis
    by (auto simp: conn_open_def hub_Open_cases read_full_def new_live_round_def split: sum.splits prod.splits if_splits)
next
  case (SRelay p inp quiet)
  with relay_next [of p inp quiet sv j' sv'] st lin obtain rest where "j' = SRelay p rest quiet" by auto
  with relay_lingers [OF inv, of p inp quiet "Next j'" sv'] SRelay loc st lin show ?thesis by (simp split: if_splits)
qed (use st lin in \<open>auto simp: conn_done_def conn_forget_def ws_find_def ws_join_def ws_relay_def ws_leave_def
    split: sum.splits option.splits if_splits ws_choice.splits prod.splits\<close>)

definition lingering :: "(stream_job, service) pool \<Rightarrow> nat set" where
  "lingering c = {t. \<exists>j. snd c t = Some j \<and> lingers (fst c) j}"

definition held :: "(stream_job, service) pool \<Rightarrow> nat \<Rightarrow> bool" where
  "held c t \<longleftrightarrow> (\<exists>p inp. snd c t = Some (SRelay p inp True) \<and> starves (lr_hdr (sv_round (fst c) p) \<noteq> None) inp)"

lemma others_linger:
  assumes reach: "service_reach (sv, js)" and j: "js t = Some j" and st: "stream_step j sv = Some (r, sv')"
    and i: "js u = Some i" and u: "u \<noteq> t"
  shows "lingers sv' i = lingers sv i"
proof -
  note inv = service_inv_parts [OF reach]
  have "skeeps (sowns j) sv sv'" using section_met_step [OF inv(1) inv(2) [OF j] st] by (simp add: met_def)
  then show ?thesis using lingers_kept [OF inv(2) [OF i]] inv(3) [OF u i j] by blast
qed

lemma lingering_sched:
  assumes reach: "service_reach c" and ap: "pool_apply stream_step (Sched t) c = Some (a, c')"
  shows "lingering c' \<subseteq> lingering c"
proof -
  obtain sv js where c: "c = (sv, js)" by (cases c)
  note inv = service_inv_parts [OF reach [unfolded c]]
  show ?thesis
  proof (cases "js t")
    case None
    with ap c show ?thesis by simp
  next
    case (Some j)
    then obtain r sv' where st: "stream_step j sv = Some (r, sv')"
      and c': "c' = (sv', js(t := (case r of Next j' \<Rightarrow> Some j' | Ret b \<Rightarrow> None)))"
      using ap c by (auto split: option.splits progress.splits)
    have "u \<in> lingering c" if "u \<in> lingering c'" for u
    proof (cases "u = t")
      case True
      with that Some st show ?thesis
        using lingers_step [OF inv(1) inv(2) [OF Some]] by (auto simp: lingering_def c c' split: progress.splits)
    next
      case False
      with that show ?thesis
        using others_linger [OF reach [unfolded c] Some st] by (auto simp: lingering_def c c')
    qed
    then show ?thesis by blast
  qed
qed

lemma held_stays:
  assumes reach: "service_reach c" and ap: "pool_apply stream_step ev c = Some (a, c')" and h: "held c t"
    and new: "\<And>u j. ev = Begin u j \<Longrightarrow> snd c u = None"
  shows "held c' t"
proof -
  obtain sv js where c: "c = (sv, js)" by (cases c)
  note inv = service_inv_parts [OF reach [unfolded c]]
  obtain p inp where i: "js t = Some (SRelay p inp True)" "lingers sv (SRelay p inp True)"
    using h by (auto simp: held_def c)
  show ?thesis
  proof (cases ev)
    case (Begin u j)
    with ap c i new show ?thesis by (auto simp: held_def split: if_splits)
  next
    case (Sched u)
    show ?thesis
    proof (cases "js u")
      case None
      with ap c Sched h show ?thesis by simp
    next
      case (Some j)
      then obtain r sv' where st: "stream_step j sv = Some (r, sv')"
        and c': "c' = (sv', js(u := (case r of Next j' \<Rightarrow> Some j' | Ret b \<Rightarrow> None)))"
        using ap c Sched by (auto split: option.splits progress.splits)
      show ?thesis
      proof (cases "u = t")
        case True
        then show ?thesis
          using relay_lingers [OF inv(1) inv(2) [OF i(1)], of r sv'] i st Some by (auto simp: held_def c')
      next
        case False
        then show ?thesis
          using others_linger [OF reach [unfolded c] Some st i(1)] i by (auto simp: held_def c')
      qed
    qed
  qed
qed

section \<open>The other connections end\<close>

text \<open>A schedule of the listener.\<close>

fun ln_run :: "ln_event list \<Rightarrow> ln_sys \<Rightarrow> ln_sys option" where
  "ln_run [] x = Some x"
| "ln_run (ev # evs) x = (if ln_enabled ev x then case ln_apply ev x of None \<Rightarrow> None | Some y \<Rightarrow> ln_run evs y else None)"

lemma ln_run_reach: "reach ln_init ln_step x \<Longrightarrow> ln_run evs x = Some y \<Longrightarrow> reach ln_init ln_step y"
proof (induction evs arbitrary: x)
  case (Cons ev evs)
  then obtain z where "ln_enabled ev x" "ln_apply ev x = Some z" "ln_run evs z = Some y"
    by (auto split: if_splits option.splits)
  with Cons show ?case by (metis ln_step_def reach_step)
qed simp

lemma ln_run_held:
  assumes "ln_inv x" and "held (snd x) t" and "ln_run evs x = Some y"
  shows "ln_inv y \<and> held (snd y) t"
  using assms
proof (induction evs arbitrary: x)
  case (Cons ev evs)
  then obtain z where en: "ln_enabled ev x" and ap: "ln_apply ev x = Some z" and run: "ln_run evs z = Some y"
    by (auto split: if_splits option.splits)
  have inv: "ln_inv z" using ln_inv_step [OF Cons.prems(1) en] ap by auto
  obtain l c where x: "x = (l, c)" by (cases x)
  have reach: "service_reach c" and h: "held c t" using Cons.prems(1,2) by (simp_all add: ln_inv_def x)
  have "held (snd z) t"
  proof (cases ev)
    case (Spawn u)
    then obtain inp quiet a c' where "pool_apply stream_step (Begin u (SConn inp quiet)) c = Some (a, c')" "snd z = c'" "snd c u = None"
      using en ap x by (auto simp del: pool_apply.simps split: accept_point.splits option.splits)
    with held_stays [OF reach _ h] show ?thesis by blast
  next
    case (Stream sev)
    then obtain a c' where pa: "pool_apply stream_step sev c = Some (a, c')" "snd z = c'"
      using ap x by (auto split: option.splits)
    moreover have "snd c u = None" if "sev = Begin u j" for u j using en that by (simp add: Stream x)
    ultimately show ?thesis using held_stays [OF reach _ h] by blast
  qed (use ap x h in auto)
  with Cons.IH [OF inv _ run] show ?case by blast
qed simp

lemma ln_run_append: "ln_run (xs @ ys) x = (case ln_run xs x of None \<Rightarrow> None | Some y \<Rightarrow> ln_run ys y)"
  by (induction xs arbitrary: x) (auto split: option.split)

fun sim_left :: "stream_job \<Rightarrow> nat" where
  "sim_left (SConn inp quiet) = length inp + 4"
| "sim_left (SRelay p inp quiet) = length inp + 3"
| "sim_left (SDone p) = 2"
| "sim_left _ = 1"

lemma sim_step_decreases:
  assumes "sv_inv sv" and "slocal sv j" and "stream_step j sv = Some (Next j', sv')" and "sim_job j" and "\<not> lingers sv j"
  shows "sim_left j' < sim_left j"
proof (cases j)
  case (SConn inp quiet)
  with assms show ?thesis by (auto simp: conn_open_def read_full_def split: sum.splits prod.splits if_splits)
next
  case (SRelay p inp quiet)
  then have "j' = SDone p \<or> (\<exists>rest. j' = SRelay p rest quiet)" using assms(3) relay_next by simp
  then show ?thesis
    using relay_lingers [OF assms(1), of p inp quiet "Next j'" sv'] SRelay assms by auto
qed (use assms in \<open>auto simp: conn_done_def conn_forget_def split: option.splits if_splits\<close>)

text \<open>A handler that no silent peer holds runs to its end, alone if need be.\<close>

lemma sim_ends:
  assumes "ln_inv (l, c)" and "snd c t = Some j" and "sim_job j" and "t \<notin> lingering c"
  shows "\<exists>n l' c'. ln_run (replicate n (Stream (Sched t))) (l, c) = Some (l', c') \<and> ln_inv (l', c') \<and>
    sims c' = sims c - {t} \<and> lingering c' \<subseteq> lingering c \<and> ln_accept l' = ln_accept l \<and> ln_closing l' = ln_closing l"
  using assms
proof (induction "sim_left j" arbitrary: l c j rule: less_induct)
  case less
  let ?ev = "Stream (Sched t)"
  obtain l1 c1 where ap: "ln_apply ?ev (l, c) = Some (l1, c1)" and inv1: "ln_inv (l1, c1)"
    using ln_inv_step [OF less.prems(1), of ?ev] by auto
  then obtain a where pa: "pool_apply stream_step (Sched t) c = Some (a, c1)" and hd: "handler_done c (Sched t) a l = Some l1"
    by (auto split: option.splits)
  have same: "ln_accept l1 = ln_accept l \<and> ln_closing l1 = ln_closing l"
    using hd by (auto simp: handler_done_def split: option.splits if_splits)
  have step: "ln_run (?ev # evs) (l, c) = ln_run evs (l1, c1)" for evs using ap by simp
  have reach: "service_reach c" using less.prems(1) by (simp add: ln_inv_def)
  note lin = lingering_sched [OF reach pa]
  show ?case
  proof (cases "a = None")
    case True
    obtain sv js where c: "c = (sv, js)" by (cases c)
    then obtain j1 sv1 where j1: "stream_step j sv = Some (Next j1, sv1)" "snd c1 t = Some j1"
      using pa less.prems(2) True by (auto split: option.splits progress.splits)
    have "sims c1 = sims c" using sims_sched [OF pa] True by simp
    moreover have "\<not> lingers sv j" using less.prems(2,4) c by (simp add: lingering_def)
    note dec = sim_step_decreases [OF service_inv_parts(1,2) [OF reach [unfolded c]] j1(1) less.prems(3) this]
    have "sim_left j1 < sim_left j" using dec less.prems(2) c by simp
    then obtain n l' c' where "ln_run (replicate n ?ev) (l1, c1) = Some (l', c')" "ln_inv (l', c')"
        "sims c' = sims c1 - {t}" "lingering c' \<subseteq> lingering c1" "ln_accept l' = ln_accept l1" "ln_closing l' = ln_closing l1"
      using less.hyps [OF _ inv1 j1(2)] sim_job_next [OF j1(1)] less.prems(3,4) lin by (metis in_mono)
    ultimately show ?thesis using step same lin by (intro exI [of _ "Suc n"]) auto
  next
    case False
    then have "sims c1 = sims c - {t}" using sims_sched [OF pa] by auto
    then show ?thesis using step [of "[]"] inv1 same lin by (intro exI [of _ "Suc 0"]) auto
  qed
qed

lemma all_sims_end:
  assumes "ln_inv (l, c)" and "lingering c = {}"
  shows "\<exists>evs l' c'. ln_run evs (l, c) = Some (l', c') \<and> set evs \<subseteq> range (\<lambda>t. Stream (Sched t)) \<and> ln_inv (l', c') \<and>
    sims c' = {} \<and> ln_accept l' = ln_accept l \<and> ln_closing l' = ln_closing l"
  using assms
proof (induction "card (sims c)" arbitrary: l c)
  case 0
  then have "sims c = {}" by (simp add: ln_inv_def)
  with 0 show ?case by (intro exI [of _ "[]"]) auto
next
  case (Suc n)
  then have fin: "finite (sims c)" by (simp add: ln_inv_def)
  obtain t where t: "t \<in> sims c" using Suc.hyps(2) by (metis card.empty ex_in_conv nat.distinct(1))
  then obtain j where j: "snd c t = Some j" "sim_job j" by (auto simp: sims_def)
  have "t \<notin> lingering c" using Suc.prems(2) by simp
  from sim_ends [OF Suc.prems(1) j this] obtain k l1 c1 where one: "ln_run (replicate k (Stream (Sched t))) (l, c) = Some (l1, c1)" "ln_inv (l1, c1)"
      "sims c1 = sims c - {t}" "lingering c1 = {}" "ln_accept l1 = ln_accept l" "ln_closing l1 = ln_closing l"
    unfolding Suc.prems(2) subset_empty by blast
  have "n = card (sims c1)" using one(3) t fin Suc.hyps(2) by simp
  from Suc.hyps(1) [OF this one(2,4)] obtain evs l' c' where "ln_run evs (l1, c1) = Some (l', c')"
      "set evs \<subseteq> range (\<lambda>t. Stream (Sched t))" "ln_inv (l', c')" "sims c' = {}" "ln_accept l' = ln_accept l1"
      "ln_closing l' = ln_closing l1"
    by blast
  then show ?case using one
    by (intro exI [of _ "replicate k (Stream (Sched t)) @ evs"]) (auto simp: ln_run_append)
qed

text \<open>There is always a goroutine to be had.\<close>

lemma finite_threads:
  assumes "service_reach c"
  shows "finite (dom (snd c))"
  using assms
proof (induction rule: reach.induct)
  case (reach_init c)
  then show ?case by (simp add: service_start_def)
next
  case (reach_step c ev c')
  obtain sv js where c: "c = (sv, js)" by (cases c)
  have "dom (snd c') \<subseteq> insert (case ev of Begin t j \<Rightarrow> t | Sched t \<Rightarrow> t) (dom (snd c))"
    using reach_step.hyps(2) by (cases ev) (auto simp: c pool_step_def split: option.splits progress.splits if_splits)
  then show ?case using reach_step.IH by (meson finite.insertI finite_subset)
qed

lemma loop_ends:
  assumes inv: "ln_inv (l, c)" and lin: "lingering c = {}"
    and acc: "\<And>inp quiet. ln_accept l = Accepted inp quiet \<Longrightarrow> \<not> lingers (fst c) (SConn inp quiet)"
  shows "\<exists>evs l' c'. ln_run evs (l, c) = Some (l', c') \<and> set evs \<subseteq> insert AcceptError (range Spawn) \<and> ln_inv (l', c') \<and>
    lingering c' = {} \<and> ln_accept l' = LoopEnded \<and> ln_closing l' = ln_closing l"
proof -
  have err: "\<exists>l'. ln_run [AcceptError] (m, d) = Some (l', d) \<and> ln_inv (l', d) \<and> ln_accept l' = LoopEnded \<and> ln_closing l' = ln_closing m"
    if "ln_inv (m, d)" "ln_accept m = InAccept" for m d
    using ln_inv_step [OF that(1), of AcceptError] that(2) by (auto simp: accept_error_def)
  show ?thesis
  proof (cases "ln_accept l")
    case InAccept
    with err [OF inv] obtain l' where "ln_run [AcceptError] (l, c) = Some (l', c)" "ln_inv (l', c)" "ln_accept l' = LoopEnded"
        "ln_closing l' = ln_closing l" by blast
    then show ?thesis using lin by (intro exI [of _ "[AcceptError]"] exI [of _ l'] exI [of _ c]) simp
  next
    case LoopEnded
    with inv lin show ?thesis by (intro exI [of _ "[]"]) auto
  next
    case (Accepted inp quiet)
    have "finite (dom (snd c))" using finite_threads inv by (simp add: ln_inv_def)
    then obtain t where t: "snd c t = None" using ex_new_if_finite [of "dom (snd c)"] infinite_UNIV_nat by (auto simp: dom_def)
    then have en: "ln_enabled (Spawn t) (l, c)" using Accepted by simp
    obtain y where ap: "ln_apply (Spawn t) (l, c) = Some y" "ln_inv y" using ln_inv_step [OF inv en] by blast
    obtain m d where y: "y = (m, d)" by (cases y)
    then have "ln_accept m = InAccept" "ln_closing m = ln_closing l" using ap(1) Accepted by (auto split: option.splits)
    moreover have "lingering d = {}"
      using ap(1) y Accepted acc [OF Accepted] lin t by (cases c) (auto simp: lingering_def split: if_splits)
    moreover obtain l' where "ln_run [AcceptError] (m, d) = Some (l', d)" "ln_inv (l', d)" "ln_accept l' = LoopEnded"
        "ln_closing l' = ln_closing l" using err [of m d] ap(2) y calculation(1,2) by metis
    moreover have "ln_run [Spawn t, AcceptError] (l, c) = ln_run [AcceptError] (m, d)" using ap(1) en y by simp
    ultimately show ?thesis by (intro exI [of _ "[Spawn t, AcceptError]"] exI [of _ l'] exI [of _ d]) simp
  qed
qed

text \<open>A held handler keeps the wait group above 0.\<close>

lemma held_blocks: "ln_inv y \<and> held (snd y) t \<Longrightarrow> ln_closing (fst y) \<noteq> CloseReturned"
proof
  assume y: "ln_inv y \<and> held (snd y) t" and "ln_closing (fst y) = CloseReturned"
  then have "card (sims (snd y)) = 0" "finite (sims (snd y))" by (auto simp: ln_inv_def split: if_splits)
  moreover have "t \<in> sims (snd y)" using y by (auto simp: held_def sims_def)
  ultimately show False by auto
qed

section \<open>Properties\<close>

lemma owner_is_sim: "Inl p \<in> sowns j \<Longrightarrow> sim_job j"
  by (cases j) simp_all

text \<open>
  C15: closing the ingress leaves no race behind.  Whatever connections, failures and clients
  there are, no step of the listener panics; its wait group is at 0 exactly when the accept
  loop and every handler have returned, so \<open>Close\<close> returns then and not before; and once it has
  returned no round is live, no connection is being served or will be, and the log of every
  round there ever was is all its simulator sent, closed by DONE.
\<close>

theorem closed_listener_leaves_no_race:
  assumes "reach ln_init ln_step (l, c)"
  shows "(ln_enabled ev (l, c) \<longrightarrow> (\<exists>y. ln_apply ev (l, c) = Some y)) \<and>
    (ln_wg l = 0 \<longleftrightarrow> ln_accept l = LoopEnded \<and> sims c = {}) \<and>
    (ln_closing l = CloseReturned \<longrightarrow> ln_accept l = LoopEnded \<and> sims c = {} \<and> ActiveRounds (sv_hub (fst c)) = [] \<and>
       (\<forall>p < hub_next (sv_hub (fst c)). live_log (sv_round (fst c) p) = promised (fst c) p @ [done_message]))"
proof (intro conjI impI)
  have inv: "ln_inv (l, c)" by (rule lst.reach_inv [OF assms])
  show "\<exists>y. ln_apply ev (l, c) = Some y" if "ln_enabled ev (l, c)" using ln_inv_step [OF inv that] by blast
  show zero: "ln_wg l = 0 \<longleftrightarrow> ln_accept l = LoopEnded \<and> sims c = {}" using inv by (auto simp: ln_inv_def)
  assume "ln_closing l = CloseReturned"
  then show ended: "ln_accept l = LoopEnded" "sims c = {}" using inv zero by (auto simp: ln_inv_def)
  obtain sv js where c: "c = (sv, js)" by (cases c)
  have reach: "service_reach (sv, js)" using inv c by (simp add: ln_inv_def)
  have none: "Inl p \<notin> sowns j" if "js t = Some j" for t j p
    using ended(2) that owner_is_sim [of p j] by (auto simp: sims_def c)
  show "ActiveRounds (sv_hub (fst c)) = []"
  proof (cases "hub_rounds (sv_hub sv)")
    case (Cons x xs)
    then show ?thesis using listed_owned [OF reach, of "fst x" "snd x"] none by auto
  qed (simp add: ActiveRounds_def c)
  show "\<forall>p < hub_next (sv_hub (fst c)). live_log (sv_round (fst c) p) = promised (fst c) p @ [done_message]"
    using owned_or_finished [OF reach] none by (auto simp: c)
qed

text \<open>
  C27: \<open>Close\<close> waits for the simulators.  In a reachable state in which \<open>Close\<close> waits: if no peer will hold
  its handler by staying silent, then, whatever the accept loop and the handlers are in the middle
  of, some scheduling of them alone (the accept fails on the closed socket, the connections end)
  lets \<open>Close\<close> return; and if one does, because all it sent is relayed and the next read has no
  deadline, then \<open>Close\<close> returns in no continuation at all, whatever else happens.
\<close>

theorem close_waits_for_the_simulators:
  assumes "reach ln_init ln_step (l, c)" and "ln_closing l = Waiting"
  shows "(lingering c = {} \<and> (\<forall>inp quiet. ln_accept l = Accepted inp quiet \<longrightarrow> \<not> lingers (fst c) (SConn inp quiet)) \<longrightarrow>
      (\<exists>evs y. ln_run evs (l, c) = Some y \<and> ln_closing (fst y) = CloseReturned \<and>
         set evs \<subseteq> {AcceptError, CloseWait} \<union> range Spawn \<union> range (\<lambda>t. Stream (Sched t)))) \<and>
    (\<forall>t evs y. held c t \<and> ln_run evs (l, c) = Some y \<longrightarrow> ln_closing (fst y) \<noteq> CloseReturned)"
proof (intro conjI impI allI)
  have inv: "ln_inv (l, c)" by (rule lst.reach_inv [OF assms(1)])
  show "ln_closing (fst y) \<noteq> CloseReturned" if "held c t \<and> ln_run evs (l, c) = Some y" for t evs y
    using ln_run_held [OF inv, of t evs y] that held_blocks by simp
  assume "lingering c = {} \<and> (\<forall>inp quiet. ln_accept l = Accepted inp quiet \<longrightarrow> \<not> lingers (fst c) (SConn inp quiet))"
  then obtain xs l1 c1 where one: "ln_run xs (l, c) = Some (l1, c1)" "set xs \<subseteq> insert AcceptError (range Spawn)" "ln_inv (l1, c1)"
      "lingering c1 = {}" "ln_accept l1 = LoopEnded" "ln_closing l1 = ln_closing l"
    using loop_ends [OF inv] by metis
  obtain ys l2 c2 where two: "ln_run ys (l1, c1) = Some (l2, c2)" "set ys \<subseteq> range (\<lambda>t. Stream (Sched t))" "ln_inv (l2, c2)"
      "sims c2 = {}" "ln_accept l2 = ln_accept l1" "ln_closing l2 = ln_closing l1"
    using all_sims_end [OF one(3,4)] by blast
  have "ln_wg l2 = 0" using two one(5) by (simp add: ln_inv_def)
  then have "ln_run (xs @ ys @ [CloseWait]) (l, c) = Some (l2\<lparr>ln_closing := CloseReturned\<rparr>, c2)"
    using one two assms(2) by (simp add: ln_run_append)
  with one(2) two(2) show "\<exists>evs y. ln_run evs (l, c) = Some y \<and> ln_closing (fst y) = CloseReturned \<and>
      set evs \<subseteq> {AcceptError, CloseWait} \<union> range Spawn \<union> range (\<lambda>t. Stream (Sched t))"
    by (intro exI [of _ "xs @ ys @ [CloseWait]"]) auto
qed

text \<open>
  After an error of \<open>Accept\<close>, temporary or not and with nobody having called \<open>Close\<close>, the ingress
  accepts no connection ever again, although its socket stays open.
\<close>

lemma accept_error_is_final:
  assumes "ln_accept (fst x) = LoopEnded" and "reach (\<lambda>y. y = x) ln_step y"
  shows "ln_accept (fst y) = LoopEnded \<and> \<not> ln_enabled (AcceptConn inp quiet) y \<and> \<not> ln_enabled (Spawn t) y"
proof -
  have "ln_accept (fst y) = LoopEnded"
    using assms(2)
  proof (induction rule: reach.induct)
    case (reach_init y)
    then show ?case using assms(1) by simp
  next
    case (reach_step y ev z)
    obtain l c where y: "y = (l, c)" by (cases y)
    have ended: "ln_accept l = LoopEnded" and ap: "ln_apply ev (l, c) = Some z" and en: "ln_enabled ev (l, c)"
      using reach_step.IH reach_step.hyps(2) by (simp_all add: ln_step_def y)
    have "ln_accept l' = ln_accept l" if "handler_done c sev a l = Some l'" for sev a l'
      using that by (auto simp: handler_done_def split: option.splits pool_event.splits if_splits)
    with ended ap en show ?case
      by (cases ev) (auto simp: close_quit_def split: option.splits if_splits)
  qed
  then show ?thesis by (cases y) simp
qed

text \<open>One race from the first byte to the return of \<open>Close\<close>: it is called while the simulator is still sending.\<close>

definition demo_shutdown :: "ln_event list" where
  "demo_shutdown = [AcceptConn ([9, 0, 0, 0, 0, 0, 0, 0] @ demo_feed) False, Spawn 0, Stream (Sched 0), Stream (Sched 0), CloseQuit,
     CloseSocket, AcceptError, Stream (Sched 0), Stream (Sched 0), Stream (Sched 0), Stream (Sched 0), CloseWait]"

definition demo_listener :: listener where
  "demo_listener = \<lparr>ln_open = True, ln_quit = False, ln_wg = 1, ln_accept = InAccept, ln_closing = CloseIdle\<rparr>"

lemma demo_listener_init: "ln_init (demo_listener, new_service, \<lambda>_. None)"
  by (simp add: ln_init_def ln_Listen_def demo_listener_def service_start_def)

lemma demo_shutdown_run:
  "\<exists>l c. ln_run demo_shutdown (demo_listener, new_service, \<lambda>_. None) = Some (l, c) \<and> ln_closing l = CloseReturned \<and>
     hub_next (sv_hub (fst c)) = 1"
  by (simp add: demo_shutdown_def demo_listener_def close_quit_def accept_error_def wg_done_def handler_done_def demo_eval
      conn_forget_def hub_remove_def)

theorem closed_listener_leaves_no_race_witness:
  "\<exists>l c. reach ln_init ln_step (l, c) \<and> ln_closing l = CloseReturned \<and> ActiveRounds (sv_hub (fst c)) = [] \<and>
     live_log (sv_round (fst c) 0) = promised (fst c) 0 @ [done_message]"
proof -
  obtain l c where run: "ln_run demo_shutdown (demo_listener, new_service, \<lambda>_. None) = Some (l, c)"
    and closed: "ln_closing l = CloseReturned" "hub_next (sv_hub (fst c)) = 1" using demo_shutdown_run by blast
  have reach: "reach ln_init ln_step (l, c)" using ln_run_reach [OF reach_init [where ini = ln_init, OF demo_listener_init] run] .
  show ?thesis
    using closed_listener_leaves_no_race [OF reach, of CloseWait] closed by (intro exI [of _ l] exI [of _ c] conjI reach) simp_all
qed

lemma demo_waiting_run:
  "\<exists>l c. ln_run (take 6 demo_shutdown) (demo_listener, new_service, \<lambda>_. None) = Some (l, c) \<and> ln_closing l = Waiting \<and>
     ln_accept l = InAccept \<and> snd c 0 = Some (SRelay 0 (encode_message demo_tick) False) \<and> (\<forall>t. t \<noteq> 0 \<longrightarrow> snd c t = None)"
  by (simp add: demo_shutdown_def demo_listener_def close_quit_def handler_done_def demo_eval)

text \<open>The same race, from a simulator that sends its header and the tick and then nothing more.\<close>

definition demo_silence :: "ln_event list" where
  "demo_silence = [AcceptConn ([9, 0, 0, 0, 0, 0, 0, 0] @ demo_feed) True, Spawn 0, Stream (Sched 0), Stream (Sched 0), CloseQuit,
     CloseSocket, AcceptError]"

lemma demo_silence_run:
  "\<exists>l c. ln_run demo_silence (demo_listener, new_service, \<lambda>_. None) = Some (l, c) \<and> ln_closing l = Waiting \<and>
     snd c 0 = Some (SRelay 0 (encode_message demo_tick) True) \<and> lr_hdr (sv_round (fst c) 0) \<noteq> None"
  by (simp add: demo_silence_def demo_listener_def close_quit_def accept_error_def wg_done_def handler_done_def demo_eval)

lemma demo_starves: "starves True (encode_message demo_tick)"
  by (simp add: starves.simps [of True "encode_message demo_tick"] starves.simps [of True "[]"] starved_def demo_wire demo_types)

theorem close_waits_for_the_simulators_witness:
  "(\<exists>l c evs y. ln_closing l = Waiting \<and> snd c 0 = Some (SRelay 0 (encode_message demo_tick) False) \<and>
      ln_run evs (l, c) = Some y \<and> ln_closing (fst y) = CloseReturned) \<and>
   (\<exists>l c. ln_run demo_silence (demo_listener, new_service, \<lambda>_. None) = Some (l, c) \<and> ln_closing l = Waiting \<and>
      (\<forall>evs y. ln_run evs (l, c) = Some y \<longrightarrow> ln_closing (fst y) \<noteq> CloseReturned))"
proof
  note start = reach_init [where ini = ln_init, OF demo_listener_init]
  obtain l c where run: "ln_run (take 6 demo_shutdown) (demo_listener, new_service, \<lambda>_. None) = Some (l, c)"
    and wait: "ln_closing l = Waiting" "ln_accept l = InAccept" "snd c 0 = Some (SRelay 0 (encode_message demo_tick) False)"
    and alone: "\<forall>t. t \<noteq> 0 \<longrightarrow> snd c t = None" using demo_waiting_run by blast
  have "\<not> lingers (fst c) j" if "snd c t = Some j" for t j using wait(3) alone that by (cases "t = 0") auto
  then have "lingering c = {} \<and> (\<forall>inp quiet. ln_accept l = Accepted inp quiet \<longrightarrow> \<not> lingers (fst c) (SConn inp quiet))"
    using wait(2) by (auto simp: lingering_def)
  from mp [OF conjunct1 [OF close_waits_for_the_simulators [OF ln_run_reach [OF start run] wait(1)]] this] wait(1,3)
  show "\<exists>l c evs y. ln_closing l = Waiting \<and> snd c 0 = Some (SRelay 0 (encode_message demo_tick) False) \<and>
      ln_run evs (l, c) = Some y \<and> ln_closing (fst y) = CloseReturned" by blast
  obtain l c where run: "ln_run demo_silence (demo_listener, new_service, \<lambda>_. None) = Some (l, c)"
    and wait: "ln_closing l = Waiting" "snd c 0 = Some (SRelay 0 (encode_message demo_tick) True)" "lr_hdr (sv_round (fst c) 0) \<noteq> None"
    using demo_silence_run by blast
  then have "held c 0" using demo_starves by (auto simp: held_def)
  with close_waits_for_the_simulators [OF ln_run_reach [OF start run] wait(1)] run wait(1)
  show "\<exists>l c. ln_run demo_silence (demo_listener, new_service, \<lambda>_. None) = Some (l, c) \<and> ln_closing l = Waiting \<and>
      (\<forall>evs y. ln_run evs (l, c) = Some y \<longrightarrow> ln_closing (fst y) \<noteq> CloseReturned)" by blast
qed

end
