(* ===== verification/Daemon_Mains.thy ===== *)
theory Daemon_Mains
  imports Roundd Replayd Stream_Listener
begin

text \<open>
  The main functions of the batch daemon (server/cmd/roundd/main.go) and the archive daemon
  (server/cmd/replayd/main.go) around what \<open>Roundd\<close>, \<open>Replayd\<close> and \<open>Stream_Listener\<close> model: flags, start-up,
  and the shutdown of the archive daemon.  What \<open>os.MkdirAll\<close> and \<open>net.Listen\<close> answer are inputs;
  a \<open>log.Fatal\<close> is an error result.
\<close>

section \<open>The store\<close>

definition store_New :: "string \<Rightarrow> gerr option \<Rightarrow> gerr + string" where
  "store_New root mkdir =
     (if root = [] then Inl (Errorf ''replay: root is required'')
      else case mkdir of Some e \<Rightarrow> Inl (Wrapf ''replay: mkdir root'' e) | None \<Rightarrow> Inr root)"

section \<open>roundd\<close>

record roundd_flags =
  of_godotBin :: string
  of_projectPath :: string
  of_replayRoot :: string
  of_workRoot :: string
  of_rounds :: int
  of_marbles :: int
  of_rtpBps :: u64
  of_buyIn :: u64
  of_timeout :: int
  of_streamAddr :: string

definition roundd_defaults :: roundd_flags where
  "roundd_defaults = \<lparr>of_godotBin = [], of_projectPath = [], of_replayRoot = [], of_workRoot = [], of_rounds = 1,
     of_marbles = 20, of_rtpBps = 9500, of_buyIn = 100, of_timeout = 60 * 1000000000, of_streamAddr = []\<rparr>"

definition roundd_work_root :: "roundd_flags \<Rightarrow> string" where
  "roundd_work_root f = (if of_workRoot f = [] then Join2 (of_replayRoot f) ''.work'' else of_workRoot f)"

definition roundd_config :: "roundd_flags \<Rightarrow> int \<Rightarrow> round_config" where
  "roundd_config f previousTrack =
     \<lparr>rc_godotBin = of_godotBin f, rc_projectPath = of_projectPath f, rc_marbles = of_marbles f,
      rc_rtpBps = ucast (of_rtpBps f), rc_buyIn = of_buyIn f, rc_timeout = of_timeout f,
      rc_liveStreamAddr = of_streamAddr f, rc_previousTrack = previousTrack\<rparr>"

text \<open>
  The inputs of each round are a function of its number; the round's directory below
  \<open>roundd_work_root\<close> is among them.
\<close>

definition roundd_main :: "roundd_flags \<Rightarrow> gerr option \<Rightarrow> (nat \<Rightarrow> run_env) \<Rightarrow> disk \<Rightarrow>
    ((gerr + (gerr + u8) list) \<times> disk) option" where
  "roundd_main f mkdir envs fs =
     (if of_godotBin f = [] \<or> of_projectPath f = [] \<or> of_replayRoot f = [] then Some (Inl (Errorf ''usage: roundd''), fs)
      else case store_New (of_replayRoot f) mkdir of
        Inl e \<Rightarrow> Some (Inl (Wrapf ''replay.New'' e), fs)
      | Inr store \<Rightarrow>
          map_option (map_prod Inr id) (roundd_loop (roundd_config f (- 1)) (- 1) (map envs [0..<nat (of_rounds f)]) fs))"

text \<open>
  Without its required flags or its root the daemon touches nothing; otherwise it gets to the
  end of its rounds, one result each.
\<close>

lemma roundd_main_ends:
  "\<exists>res fs'. roundd_main f mkdir envs fs = Some (res, fs') \<and> keeps_rounds fs fs' \<and>
    (case res of Inl e \<Rightarrow> fs' = fs | Inr ress \<Rightarrow> length ress = nat (of_rounds f))"
proof -
  let ?envs = "map envs [0..<nat (of_rounds f)]"
  obtain ress fs' where "roundd_loop (roundd_config f (- 1)) (- 1) ?envs fs = Some (ress, fs')" "length ress = length ?envs"
      "keeps_rounds fs fs'"
    using roundd_loop_trail [of "roundd_config f (- 1)" "- 1" ?envs fs] by blast
  then show ?thesis by (auto simp: roundd_main_def keeps_rounds_refl split: sum.split)
qed

text \<open>The 64-bit flag is cut to 32 bits: a rate above \<open>2^32\<close> passes for a small one.\<close>

lemma rtp_flag_wraps: "rc_rtpBps (roundd_config (roundd_defaults\<lparr>of_rtpBps := 4294967296 + 9500\<rparr>) (- 1)) = 9500"
  by (simp add: roundd_config_def)

section \<open>replayd\<close>

record replayd_flags =
  rf_listen :: string
  rf_stream_tcp :: string
  rf_replay_root :: string
  rf_static_root :: string

definition replayd_defaults :: replayd_flags where
  "replayd_defaults = \<lparr>rf_listen = '':8080'', rf_stream_tcp = [], rf_replay_root = [], rf_static_root = []\<rparr>"

text \<open>The root of the store, the new hub and the listener of the ingress, if one is asked for.\<close>

definition replayd_start :: "replayd_flags \<Rightarrow> gerr option \<Rightarrow> gerr option \<Rightarrow> gerr + string \<times> hub \<times> listener option" where
  "replayd_start f mkdir listen =
     (if rf_replay_root f = [] then Inl (Errorf ''--replay-root is required'')
      else case store_New (rf_replay_root f) mkdir of
        Inl e \<Rightarrow> Inl (Wrapf ''replay.New'' e)
      | Inr store \<Rightarrow>
          if rf_stream_tcp f \<noteq> [] then
            (case ln_Listen listen of
               Inl e \<Rightarrow> Inl (Wrapf ''stream listen'' e)
             | Inr l \<Rightarrow> Inr (store, NewHub, Some l))
          else Inr (store, NewHub, None))"

text \<open>After the HTTP server has shut down: \<open>Close\<close>, if there is a listener.\<close>

definition replayd_shutdown :: "listener option \<Rightarrow> ln_event list" where
  "replayd_shutdown l = (case l of None \<Rightarrow> [] | Some ln \<Rightarrow> [CloseQuit, CloseSocket, CloseWait])"

text \<open>A daemon started with an ingress is in the initial state of the listener.\<close>

lemma replayd_start_init:
  assumes "replayd_start f mkdir listen = Inr (store, h, Some l)"
  shows "store = rf_replay_root f" and "ln_init (l, \<lparr>sv_hub = h, sv_sent = (\<lambda>_. []), sv_got = (\<lambda>_ _. [])\<rparr>, \<lambda>_. None)"
  using assms
  by (auto simp: replayd_start_def store_New_def ln_init_def ln_Listen_def service_start_def new_service_def
      split: if_splits option.splits sum.splits)

text \<open>
  The shutdown, run in any reachable state of the service before it, gets past its first two
  steps at once, and then stands still as long as a single simulator keeps its connection.
\<close>

lemma replayd_shutdown_waits:
  assumes "reach ln_init ln_step (l, c)" and "ln_closing l = CloseIdle" and "sims c \<noteq> {}"
  shows "\<exists>l'. ln_run [CloseQuit, CloseSocket] (l, c) = Some (l', c) \<and> ln_closing l' = Waiting \<and>
    ln_run (replayd_shutdown (Some l)) (l, c) = None"
proof -
  have inv: "ln_inv (l, c)" by (rule lst.reach_inv [OF assms(1)])
  then have "ln_wg l \<noteq> 0" using assms(3) by (auto simp: ln_inv_def split: if_splits)
  with inv assms(2) show ?thesis by (auto simp: ln_inv_def close_quit_def replayd_shutdown_def)
qed

end
