(* ===== verification/Streamtest.thy ===== *)
theory Streamtest
  imports Stream_Service
begin

text \<open>
  The manual client of the stream (server/cmd/streamtest/main.go): it polls the list of live
  rounds, connects to the first and counts what it is sent.  The answers of the HTTP client, the
  outcome of the dial and what each read returns are inputs; \<open>decode\<close> is what the JSON decoder
  leaves in the slice of ids, nothing if it fails.
\<close>

section \<open>The code\<close>

text \<open>\<open>strings.Replace(s, old, new, 1)\<close> for a non-empty \<open>old\<close>.\<close>

fun replace_first :: "string \<Rightarrow> string \<Rightarrow> string \<Rightarrow> string" where
  "replace_first old new [] = []"
| "replace_first old new (c # cs) =
     (if has_prefix (c # cs) old then new @ drop (length old) (c # cs) else c # replace_first old new cs)"

datatype poll_result = Polling | NoRound | Found string

text \<open>One turn of the poll: is it past the deadline, and what \<open>GET /live\<close> answers, if it answers.\<close>

fun poll_rounds :: "(string \<Rightarrow> string list) \<Rightarrow> (bool \<times> string option) list \<Rightarrow> poll_result" where
  "poll_rounds decode [] = Polling"
| "poll_rounds decode ((expired, resp) # turns) =
     (if expired then NoRound
      else case resp of
        None \<Rightarrow> poll_rounds decode turns
      | Some body \<Rightarrow> (case decode body of [] \<Rightarrow> poll_rounds decode turns | rid # ids \<Rightarrow> Found rid))"

record tally =
  ta_header :: nat
  ta_ticks :: nat
  ta_done :: nat

datatype ws_read = ReadErr gerr | Frame bool "byte list"

datatype test_result = Summary tally | TestFatal gerr | StillReading tally

definition count_message :: "message \<Rightarrow> tally \<Rightarrow> tally" where
  "count_message m ta =
     (if msg_Type m = MsgHeader then ta\<lparr>ta_header := ta_header ta + 1\<rparr>
      else if msg_Type m = MsgTick then ta\<lparr>ta_ticks := ta_ticks ta + 1\<rparr>
      else if msg_Type m = MsgDone then ta\<lparr>ta_done := ta_done ta + 1\<rparr>
      else ta)"

fun read_frames :: "ws_read list \<Rightarrow> tally \<Rightarrow> test_result" where
  "read_frames [] ta = StillReading ta"
| "read_frames (ReadErr e # rs) ta = Summary ta"
| "read_frames (Frame binary payload # rs) ta =
     (if \<not> binary then read_frames rs ta
      else case read_message MaxPayloadBytes payload of
        Inl e \<Rightarrow> TestFatal (Wrapf ''parse'' e)
      | Inr (m, rest) \<Rightarrow> read_frames rs (count_message m ta))"

definition streamtest_url :: "string \<Rightarrow> string \<Rightarrow> string" where
  "streamtest_url apiBase roundID = replace_first ''http://'' ''ws://'' apiBase @ ''/live/'' @ roundID"

definition streamtest_main :: "(string \<Rightarrow> string list) \<Rightarrow> string \<Rightarrow> (bool \<times> string option) list \<Rightarrow>
    (string \<Rightarrow> gerr + ws_read list) \<Rightarrow> test_result" where
  "streamtest_main decode apiBase turns dial =
     (case poll_rounds decode turns of
        Polling \<Rightarrow> StillReading \<lparr>ta_header = 0, ta_ticks = 0, ta_done = 0\<rparr>
      | NoRound \<Rightarrow> TestFatal (Errorf ''no active round after 30s'')
      | Found roundID \<Rightarrow>
          (case dial (streamtest_url apiBase roundID) of
             Inl e \<Rightarrow> TestFatal (Wrapf ''ws Dial'' e)
           | Inr reads \<Rightarrow> read_frames reads \<lparr>ta_header = 0, ta_ticks = 0, ta_done = 0\<rparr>))"

section \<open>What it counts\<close>

lemma wire_sendable: "m \<in> set (wire_messages inp) \<Longrightarrow> sendable m"
proof (induction inp rule: wire_messages.induct)
  case (1 inp)
  show ?case
  proof (cases "read_message MaxPayloadBytes inp")
    case (Inl e)
    with 1(2) show ?thesis by (simp add: wire_messages.simps)
  next
    case (Inr x)
    obtain m' rest where x: "x = (m', rest)" by (cases x)
    then have "wire_messages inp = m' # wire_messages rest" using Inr by (subst wire_messages.simps) simp
    moreover have "sendable m'" using msg.enc_dec [where inp = inp and m = m' and rest = rest] Inr x by (simp add: sendable_def)
    ultimately show ?thesis using 1 Inr x by auto
  qed
qed

lemma relay_subset: "set (relay seen ms) \<subseteq> set ms"
  by (induction seen ms rule: relay.induct) auto

lemma promised_sendable: "m \<in> set (promised sv p @ [done_message]) \<Longrightarrow> sendable m"
  using relay_subset wire_sendable by (fastforce simp: promised_def sendable_def done_message_def)

lemma read_own_frame: "sendable m \<Longrightarrow> read_message MaxPayloadBytes (encode_inline m) = Inr (m, [])"
  using msg.dec_enc [where m = m and rest = "[]"] by (simp add: encode_inline_eq sendable_def)

definition tally_of :: "message list \<Rightarrow> tally" where
  "tally_of ms = \<lparr>ta_header = length (filter (\<lambda>m. msg_Type m = MsgHeader) ms),
     ta_ticks = length (filter (\<lambda>m. msg_Type m = MsgTick) ms), ta_done = length (filter (\<lambda>m. msg_Type m = MsgDone) ms)\<rparr>"

lemma tally_snoc: "count_message m (tally_of ms) = tally_of (ms @ [m])"
  by (simp add: count_message_def tally_of_def msg_types)

lemma read_frames_tally:
  "(\<forall>m \<in> set ms. sendable m) \<Longrightarrow>
    read_frames (map (Frame True) (map encode_inline ms) @ [ReadErr e]) (tally_of seen) = Summary (tally_of (seen @ ms))"
  by (induction ms arbitrary: seen) (simp_all add: read_own_frame tally_snoc)

lemma relay_types: "m \<in> set (relay seen ms) \<Longrightarrow> msg_Type m = MsgHeader \<or> msg_Type m = MsgTick"
  by (induction seen ms rule: relay.induct) (auto split: if_splits)

lemma relay_one_header: "length (filter (\<lambda>m. msg_Type m = MsgHeader) (relay seen ms)) \<le> (if seen then 0 else 1)"
proof (induction seen ms rule: relay.induct)
  case (2 seen m ms)
  then show ?case by (cases seen) (auto simp: msg_types)
qed simp

lemma promised_tally:
  "ta_header (tally_of (promised sv p @ [done_message])) \<le> 1" "ta_done (tally_of (promised sv p @ [done_message])) = 1"
proof -
  have "filter (\<lambda>m. msg_Type m = MsgDone) (promised sv p) = []"
    using relay_types by (fastforce simp: promised_def filter_empty_conv msg_types)
  then show "ta_done (tally_of (promised sv p @ [done_message])) = 1" by (simp add: tally_of_def done_message_def)
  show "ta_header (tally_of (promised sv p @ [done_message])) \<le> 1"
    using relay_one_header [of False] by (simp add: tally_of_def promised_def done_message_def msg_types)
qed

section \<open>Properties\<close>

text \<open>
  C38: the manual client reports the race as it was.  Pointed at a live round and reading what
  the handler of its connection sends until it returns, it never fails to parse a frame, counts
  at most one header and one DONE, and when it has counted DONE its tally is exactly the header
  and the ticks that the simulator was allowed to send.
\<close>

theorem streamtest_counts_the_race:
  assumes "service_reach (sv, js)" and "pool_apply stream_step (Sched t) (sv, js) = Some (Some (WsClosed p c), c')"
    and "decode body = rid # ids" and "dial (streamtest_url base rid) = Inr (map (Frame True) (wc_frames c) @ [ReadErr e])"
  shows "\<exists>ta. streamtest_main decode base [(False, Some body)] dial = Summary ta \<and> ta_header ta \<le> 1 \<and> ta_done ta \<le> 1 \<and>
    (ta_done ta = 1 \<longrightarrow> ta = tally_of (promised sv p @ [done_message]))"
proof -
  let ?all = "promised sv p @ [done_message]"
  obtain c0 where c0: "wc_frames c = wc_frames c0" "slocal sv (WLeave p c0) \<or> (\<exists>os. slocal sv (WRelay p c0 os))"
    using closed_client [OF assms(1,2)] .
  obtain ms where ms: "wc_frames c = map encode_inline ms" "prefix ms ?all"
      "done_message \<in> set ms \<longrightarrow> ms = ?all"
    using spectator_frames [OF service_inv_parts(1) [OF assms(1)] c0(2)] c0(1) by auto
  have "\<forall>m \<in> set ms. sendable m" using ms(2) promised_sendable set_mono_prefix by blast
  from read_frames_tally [OF this, of e "[]"]
  have "streamtest_main decode base [(False, Some body)] dial = Summary (tally_of ms)"
    using assms(3,4) ms(1) by (simp add: streamtest_main_def tally_of_def)
  moreover obtain rest where "?all = ms @ rest" using ms(2) by (auto simp: prefix_def)
  then have "ta_header (tally_of ms) \<le> ta_header (tally_of ?all)" "ta_done (tally_of ms) \<le> ta_done (tally_of ?all)"
    by (simp_all add: tally_of_def)
  moreover have "done_message \<in> set ms" if "ta_done (tally_of ms) = 1"
  proof -
    have "filter (\<lambda>m. msg_Type m = MsgDone) ms \<noteq> []" using that by (auto simp: tally_of_def)
    then obtain m where m: "m \<in> set ms" "msg_Type m = MsgDone" by (auto simp: filter_empty_conv)
    then have "m \<in> set ?all" using ms(2) set_mono_prefix by blast
    moreover have "m \<notin> set (promised sv p)" using m(2) relay_types [of m] by (auto simp: promised_def msg_types)
    ultimately show ?thesis using m(1) by auto
  qed
  ultimately show ?thesis using ms(3) promised_tally [of sv p] by auto
qed

definition demo_closing :: "(stream_job, service) pool" where
  "demo_closing = snd (the (pool_run stream_step [Sched 0, Sched 0, Sched 1, Sched 1] demo_service))"

lemma demo_closing_run:
  "\<exists>as c'. pool_run stream_step [Sched 0, Sched 0, Sched 1, Sched 1] demo_service = Some (as, demo_closing) \<and>
    pool_apply stream_step (Sched 1) demo_closing = Some (Some (WsClosed 0 \<lparr>wc_sub = 0,
      wc_frames = map encode_inline [demo_header, demo_tick, done_message], wc_running = False, wc_ended = True\<rparr>), c')"
  by (simp add: demo_closing_def demo_service_def demo_race_def demo_eval)

theorem streamtest_counts_the_race_witness:
  "\<exists>ta. streamtest_main (\<lambda>_. [''9'']) ''http://127.0.0.1:8087'' [(False, Some [])]
      (\<lambda>_. Inr (map (Frame True) (map encode_inline [demo_header, demo_tick, done_message]) @ [ReadErr (Errorf [])])) = Summary ta \<and>
    ta_header ta \<le> 1 \<and> ta_done ta \<le> 1"
proof -
  let ?c = "\<lparr>wc_sub = 0, wc_frames = map encode_inline [demo_header, demo_tick, done_message], wc_running = False, wc_ended = True\<rparr>"
  obtain as c' where run: "pool_run stream_step [Sched 0, Sched 0, Sched 1, Sched 1] demo_service = Some (as, demo_closing)"
    and last: "pool_apply stream_step (Sched 1) (fst demo_closing, snd demo_closing) = Some (Some (WsClosed 0 ?c), c')"
    using demo_closing_run by auto
  have "service_reach (fst demo_closing, snd demo_closing)" using pool_run_reach [OF demo_service_reach run] by simp
  from streamtest_counts_the_race [OF this last, of "\<lambda>_. [''9'']" "[]" "''9''" "[]"
      "\<lambda>_. Inr (map (Frame True) (wc_frames ?c) @ [ReadErr (Errorf [])])" "''http://127.0.0.1:8087''" "Errorf []"]
  show ?thesis by auto
qed

end
