(* ===== verification/Manager_Conc.thy ===== *)
theory Manager_Conc
  imports Manager_Props Threads
begin

text \<open>
  The manager under concurrent callers (server/rgs/manager.go, whose comment promises that its
  methods are safe for concurrent calls).  Every method is a job: a program counter with its
  local values.  A section is what the code does between two points where another goroutine
  can see or change something: one critical section under \<open>m.mu\<close>, one session method, one
  call of the wallet, the code around them that touches only locals, or the save of a round.
  A save is one section: it works in a directory of its own and publishes by one rename (the
  theory \<open>Store_Conc\<close> takes it apart and shows that nothing else of it can be seen).
\<close>

section \<open>Calls in progress\<close>

text \<open>A round whose race is over: what the rest of \<open>RunNextRound\<close> holds in locals.\<close>

record raced_round =
  rc_env :: run_env
  rc_round :: nat
  rc_state :: round_state
  rc_sim :: sim_result
  rc_seed :: "byte list"
  rc_prize :: u64

datatype answer =
    AnsOpen "gerr + nat" | AnsBet "gerr + bet" | AnsClose "gerr option" | AnsMint "gerr + round_spec"
  | AnsRoundBet "gerr + round_bet \<times> f64" | AnsRun run_result

text \<open>The program points, in the order of the methods: \<open>JDebit\<close> is about to debit, and so on.\<close>

datatype job =
    JOpen "byte list" gtime string
  | JBet "byte list" gtime gtime string u64
  | JDebit string gtime gtime nat u64
  | JPlace gtime nat bet
  | JRefund nat bet gerr
  | JEnqueue nat bet
  | JClose gtime string
  | JCloseSes gtime nat
  | JMint "gerr + byte list" u64
  | JAnnounce round_spec
  | JRb "byte list" gtime u64 string int f64
  | JRbKnown u64
  | JRbDebit nat u64 round_bet
  | JRbBalance nat u64 round_bet
  | JRbRecord nat u64 round_bet f64
  | JRbRefund u64 round_bet
  | JRun run_env
  | JSelect run_env "nat list" int
  | JRegister run_env "nat list" round_spec
  | JField run_env "nat list" nat
  | JAssign run_env "nat list" nat "byte list" round_state int "nat list"
  | JRace run_env "nat list" nat "byte list" round_state
  | JCredit raced_round "settlement_outcome list" "nat list"
  | JSettle raced_round "settlement_outcome list" settlement_outcome nat "nat list"
  | JSave raced_round "settlement_outcome list"
  | JRbets raced_round manifest "settlement_outcome list" "round_bet_outcome list" "round_bet list"
  | JTrack raced_round manifest "settlement_outcome list" "round_bet_outcome list"

text \<open>Where a call starts.\<close>

fun call_job :: "mgr_event \<Rightarrow> job" where
  "call_job (EvOpen rnd now pl) = JOpen rnd now pl"
| "call_job (EvBet rnd t now sid a) = JBet rnd t now sid a"
| "call_job (EvCloseSession now sid) = JClose now sid"
| "call_job (EvMint r rid) = JMint r rid"
| "call_job (EvRoundBet rnd now rid pl i a) = JRb rnd now rid pl i a"
| "call_job (EvRun env) = JRun env"

section \<open>Sections\<close>

text \<open>\<open>PlaceBet\<close>: look up, debit, place in the session, refund or enqueue.\<close>

definition bet_lookup :: "byte list \<Rightarrow> gtime \<Rightarrow> gtime \<Rightarrow> string \<Rightarrow> u64 \<Rightarrow> 'w mgr \<Rightarrow> (job, answer) progress \<times> 'w mgr" where
  "bet_lookup rnd t now sid a m =
     (case mg_sessions m sid of
        None \<Rightarrow> (Ret (AnsBet (Inl (Errorf ''rgs: unknown session''))), m)
      | Some p \<Rightarrow>
          if a = 0 then (Ret (AnsBet (Inl (Errorf ''rgs: bet amount must be > 0''))), m)
          else (Next (JDebit (newID ''bet_'' rnd) t now p a), m))"

definition bet_debit :: "'w mgr_config \<Rightarrow> string \<Rightarrow> gtime \<Rightarrow> gtime \<Rightarrow> nat \<Rightarrow> u64 \<Rightarrow> 'w mgr \<Rightarrow> (job, answer) progress \<times> 'w mgr" where
  "bet_debit cfg betID t now p a m =
     (case w_Debit (cfg_Wallet cfg) (ses_PlayerID (mg_heap m p)) a betID (mg_wallet m) of
        (Some e, w) \<Rightarrow> (Ret (AnsBet (Inl (Wrapf ''rgs: wallet debit'' e))), m\<lparr>mg_wallet := w\<rparr>)
      | (None, w) \<Rightarrow>
          (Next (JPlace now p \<lparr>bet_BetID = betID, bet_Amount = a, bet_PlayerID = ses_PlayerID (mg_heap m p),
             bet_PlacedAt = t, bet_MarbleIndex = 0\<rparr>), m\<lparr>mg_wallet := w\<rparr>))"

definition bet_place :: "gtime \<Rightarrow> nat \<Rightarrow> bet \<Rightarrow> 'w mgr \<Rightarrow> (job, answer) progress \<times> 'w mgr" where
  "bet_place now p b m =
     (case session_place_bet now b (mg_heap m p) of
        (Some e, s) \<Rightarrow> (Next (JRefund p b e), m)
      | (None, s) \<Rightarrow> (Next (JEnqueue p b), m\<lparr>mg_heap := (mg_heap m)(p := s)\<rparr>))"

definition bet_refund :: "'w mgr_config \<Rightarrow> nat \<Rightarrow> bet \<Rightarrow> gerr \<Rightarrow> 'w mgr \<Rightarrow> (job, answer) progress \<times> 'w mgr" where
  "bet_refund cfg p b e m =
     (Ret (AnsBet (Inl (Wrapf ''rgs: session refused bet'' e))),
      m\<lparr>mg_wallet := snd (w_Credit (cfg_Wallet cfg) (ses_PlayerID (mg_heap m p)) (bet_Amount b)
          (bet_BetID b @ '':refund'') (mg_wallet m))\<rparr>)"

text \<open>\<open>GenerateRoundSpec\<close>: choose the track, then announce.\<close>

definition mint_select :: "'w mgr_config \<Rightarrow> gerr + byte list \<Rightarrow> u64 \<Rightarrow> 'w mgr \<Rightarrow> ((job, answer) progress \<times> 'w mgr) option" where
  "mint_select cfg r rid m =
     (case r of
        Inl e \<Rightarrow> Some (Ret (AnsMint (Inl (Wrapf ''rgs: GenerateRoundSpec seed'' e))), m)
      | Inr seed \<Rightarrow>
          (case mgr_select_track (cfg_TrackPool cfg) rid (mg_prevTrack m) of
             None \<Rightarrow> None
           | Some t \<Rightarrow>
               Some (Next (JAnnounce \<lparr>sp_RoundID = rid, sp_ServerSeedHex = hex_encode seed, sp_TrackID = t,
                        sp_ClientSeeds = replicate (nat (cfg_MaxMarbles cfg)) []\<rparr>),
                     m\<lparr>mg_prevTrack := uint t\<rparr>)))"

definition add_round :: "round_spec \<Rightarrow> 'w mgr \<Rightarrow> 'w mgr" where
  "add_round spec m = m
     \<lparr>mg_rounds := (mg_rounds m)(mg_nextRound m := \<lparr>pr_spec = spec, pr_bets = []\<rparr>),
      mg_nextRound := Suc (mg_nextRound m),
      mg_roundBets := (mg_roundBets m)(sp_RoundID spec \<mapsto> [])\<rparr>"

definition mint_announce :: "round_spec \<Rightarrow> 'w mgr \<Rightarrow> (job, answer) progress \<times> 'w mgr" where
  "mint_announce spec m =
     (Ret (AnsMint (Inr spec)),
      (add_round spec m)\<lparr>mg_pendingRounds := mg_pendingRounds m @ [mg_nextRound m]\<rparr>)"

text \<open>\<open>PlaceBetOnRound\<close>: find the round, debit, read the balance, re-validate and record, or refund.\<close>

definition rb_find :: "'w mgr_config \<Rightarrow> byte list \<Rightarrow> gtime \<Rightarrow> u64 \<Rightarrow> string \<Rightarrow> int \<Rightarrow> f64 \<Rightarrow> 'w mgr \<Rightarrow>
    (job, answer) progress" where
  "rb_find cfg rnd now rid pl i a m =
     (if i < 0 \<or> cfg_MaxMarbles cfg \<le> i
        then Ret (AnsRoundBet (Inl (Wrapf ''marble_idx'' (Sentinel (SessionErr ErrInvalidMarbleIdx)))))
      else if f64_le0 a
        then Ret (AnsRoundBet (Inl (Wrapf ''amount must be > 0'' (Sentinel (SessionErr ErrInvalidBetAmount)))))
      else (case findPendingRound rid m of
          None \<Rightarrow> Next (JRbKnown rid)
        | Some pr \<Rightarrow>
            (let u = f64_to_u64 (cfg_oor cfg) (f64_mult a (f64_int 100)) in
             if u = 0
               then Ret (AnsRoundBet (Inl (Wrapf ''amount rounds to zero'' (Sentinel (SessionErr ErrInvalidBetAmount)))))
             else Next (JRbDebit pr u \<lparr>rb_BetID = newID ''rbet_'' rnd, rb_PlayerID = pl, rb_RoundID = rid,
                    rb_MarbleIdx = i, rb_Amount = a, rb_PlacedAt = now\<rparr>))))"

definition rb_known :: "u64 \<Rightarrow> 'w mgr \<Rightarrow> (job, answer) progress" where
  "rb_known rid m = Ret (AnsRoundBet (Inl (Sentinel (SessionErr
     (if mg_roundBets m rid \<noteq> None then ErrRoundAlreadyRun else ErrUnknownRound)))))"

definition rb_debit :: "'w mgr_config \<Rightarrow> nat \<Rightarrow> u64 \<Rightarrow> round_bet \<Rightarrow> 'w mgr \<Rightarrow> (job, answer) progress \<times> 'w mgr" where
  "rb_debit cfg pr u b m =
     (case w_Debit (cfg_Wallet cfg) (rb_PlayerID b) u (rb_BetID b) (mg_wallet m) of
        (Some e, w) \<Rightarrow> (Ret (AnsRoundBet (Inl (Wrapf ''rgs: wallet debit'' e))), m\<lparr>mg_wallet := w\<rparr>)
      | (None, w) \<Rightarrow> (Next (JRbBalance pr u b), m\<lparr>mg_wallet := w\<rparr>))"

definition rb_balance :: "'w mgr_config \<Rightarrow> nat \<Rightarrow> u64 \<Rightarrow> round_bet \<Rightarrow> 'w mgr \<Rightarrow> (job, answer) progress" where
  "rb_balance cfg pr u b m = Next (JRbRecord pr u b
     (case w_Balance (cfg_Wallet cfg) (rb_PlayerID b) (mg_wallet m) of
        Inl e \<Rightarrow> f64_int 0 | Inr balUnits \<Rightarrow> f64_div100 (f64_of_u64 balUnits)))"

definition rb_record :: "nat \<Rightarrow> u64 \<Rightarrow> round_bet \<Rightarrow> f64 \<Rightarrow> 'w mgr \<Rightarrow> (job, answer) progress \<times> 'w mgr" where
  "rb_record pr u b bal m =
     (if findPendingRound (rb_RoundID b) m = None then (Next (JRbRefund u b), m)
      else (Ret (AnsRoundBet (Inr (b, bal))),
            m\<lparr>mg_rounds := (mg_rounds m)(pr := (mg_rounds m pr)\<lparr>pr_bets := pr_bets (mg_rounds m pr) @ [b]\<rparr>),
              mg_roundBets := (mg_roundBets m)(rb_RoundID b \<mapsto>
                (case mg_roundBets m (rb_RoundID b) of None \<Rightarrow> [] | Some bs \<Rightarrow> bs) @ [b])\<rparr>))"

definition rb_refund :: "'w mgr_config \<Rightarrow> u64 \<Rightarrow> round_bet \<Rightarrow> 'w mgr \<Rightarrow> (job, answer) progress \<times> 'w mgr" where
  "rb_refund cfg u b m =
     (Ret (AnsRoundBet (Inl (Sentinel (SessionErr ErrRoundAlreadyRun)))),
      m\<lparr>mg_wallet := snd (w_Credit (cfg_Wallet cfg) (rb_PlayerID b) u (rb_BetID b @ '':refund'') (mg_wallet m))\<rparr>)"

text \<open>\<open>RunNextRound\<close>: take, choose a track for an unannounced round, build the field, race.\<close>

definition run_take :: "run_env \<Rightarrow> 'w mgr \<Rightarrow> (job, answer) progress \<times> 'w mgr" where
  "run_take env m =
     (case run_consume m of (ps, pr, prevTrack, m1) \<Rightarrow>
        (Next (case pr of None \<Rightarrow> JSelect env ps prevTrack | Some p \<Rightarrow> JField env ps p), m1))"

definition run_select :: "'w mgr_config \<Rightarrow> run_env \<Rightarrow> nat list \<Rightarrow> int \<Rightarrow> (job, answer) progress option" where
  "run_select cfg env ps prevTrack =
     (case re_seed env of
        Inl e \<Rightarrow> Some (Ret (AnsRun (Inl (Wrapf ''rgs: seed'' e))))
      | Inr rawSeed \<Rightarrow>
          map_option (\<lambda>t. Next (JRegister env ps \<lparr>sp_RoundID = re_freshID env, sp_ServerSeedHex = hex_encode rawSeed,
              sp_TrackID = t, sp_ClientSeeds = []\<rparr>))
            (mgr_select_track (cfg_TrackPool cfg) (re_freshID env) prevTrack))"

definition run_field :: "'w mgr_config \<Rightarrow> run_env \<Rightarrow> nat list \<Rightarrow> nat \<Rightarrow> 'w mgr \<Rightarrow> (job, answer) progress" where
  "run_field cfg env ps pr m =
     (let spec = pr_spec (mg_rounds m pr) in
      case hex_decode (sp_ServerSeedHex spec) of
        Inl e \<Rightarrow> Ret (AnsRun (Inl (Wrapf ''rgs: decode server seed'' e)))
      | Inr seedBytes \<Rightarrow>
          (case build_round cfg env spec (seed32 seedBytes) (map (\<lambda>p. ses_PlayerID (mg_heap m p)) ps) of
             Inl e \<Rightarrow> Ret (AnsRun (Inl e))
           | Inr r \<Rightarrow> Next (JAssign env ps pr (seed32 seedBytes) r 0 ps)))"

definition run_racing :: "'w mgr_config \<Rightarrow> run_env \<Rightarrow> nat list \<Rightarrow> nat \<Rightarrow> byte list \<Rightarrow> round_state \<Rightarrow> 'w mgr \<Rightarrow>
    (job, answer) progress" where
  "run_racing cfg env ps pr seed r m =
     (case run_race cfg env (pr_spec (mg_rounds m pr)) seed r of
        Inl e \<Rightarrow> Ret (AnsRun (Inl e))
      | Inr (simRes, r2, revealed) \<Rightarrow>
          (case settle \<lparr>RTPBasisPoints = cfg_RTPBps cfg\<rparr>
                 (replicate (nat (cfg_MaxMarbles cfg)) (cfg_BuyIn cfg)) (sim_WinnerMarbleIndex simRes) of
             Inl e \<Rightarrow> Ret (AnsRun (Inl (Wrapf ''rgs: rtp.Settle'' e)))
           | Inr (prize, houseCut) \<Rightarrow>
               Next (JCredit \<lparr>rc_env = env, rc_round = pr, rc_state = r2, rc_sim = simRes, rc_seed = revealed,
                        rc_prize = prize\<rparr> [] ps)))"

text \<open>Settlement: one session after the other, then the save and the bets on the round.\<close>

definition settle_credit :: "'w mgr_config \<Rightarrow> raced_round \<Rightarrow> settlement_outcome list \<Rightarrow> nat \<Rightarrow> nat list \<Rightarrow> 'w mgr \<Rightarrow>
    ((job, answer) progress \<times> 'w mgr) option" where
  "settle_credit cfg R outs p todo m =
     (case ses_Bet (mg_heap m p) of
        None \<Rightarrow> None
      | Some b \<Rightarrow>
     (let out = session_outcome (re_settle (rc_env R)) (sim_WinnerMarbleIndex (rc_sim R)) (rc_prize R) b in
      if so_Won out
      then (case w_Credit (cfg_Wallet cfg) (ses_PlayerID (mg_heap m p)) (so_PrizeAmount out) (so_CreditTxID out)
                   (mg_wallet m) of
              (Some e, w) \<Rightarrow> Some (Ret (AnsRun (Inl (Wrapf ''rgs: credit winner'' e))), m\<lparr>mg_wallet := w\<rparr>)
            | (None, w) \<Rightarrow> Some (Next (JSettle R outs out p todo), m\<lparr>mg_wallet := w\<rparr>))
      else Some (Next (JSettle R outs out p todo), m)))"

definition settle_session :: "raced_round \<Rightarrow> settlement_outcome list \<Rightarrow> settlement_outcome \<Rightarrow> nat \<Rightarrow> nat list \<Rightarrow> 'w mgr \<Rightarrow>
    (job, answer) progress \<times> 'w mgr" where
  "settle_session R outs out p todo m =
     (case session_settle (re_settle (rc_env R)) out (mg_heap m p) of
        (Some e, s) \<Rightarrow> (Ret (AnsRun (Inl (Wrapf ''rgs: session Settle'' e))), m)
      | (None, s) \<Rightarrow> (Next (JCredit R (outs @ [out]) todo), m\<lparr>mg_heap := (mg_heap m)(p := s)\<rparr>))"

definition run_save :: "raced_round \<Rightarrow> settlement_outcome list \<Rightarrow> 'w mgr \<Rightarrow> (job, answer) progress \<times> 'w mgr" where
  "run_save R outs m =
     (case persist_round (rc_env R) (manifest_of (pr_spec (mg_rounds m (rc_round R))) (rc_state R) (rc_seed R) (rc_sim R))
             (sim_ReplayPath (rc_sim R)) (mg_disk m) of
        (Inl e, fs) \<Rightarrow> (Ret (AnsRun (Inl e)), m\<lparr>mg_disk := fs\<rparr>)
      | (Inr mf, fs) \<Rightarrow> (Next (JRbets R mf outs [] (pr_bets (mg_rounds m (rc_round R)))), m\<lparr>mg_disk := fs\<rparr>))"

definition rb_settle :: "'w mgr_config \<Rightarrow> raced_round \<Rightarrow> manifest \<Rightarrow> settlement_outcome list \<Rightarrow> round_bet_outcome list \<Rightarrow>
    round_bet \<Rightarrow> round_bet list \<Rightarrow> 'w mgr \<Rightarrow> (job, answer) progress \<times> 'w mgr" where
  "rb_settle cfg R mf outs rbs b bs m =
     (let out = round_outcome (sim_WinnerMarbleIndex (rc_sim R)) b in
      if ro_Won out
      then (case w_Credit (cfg_Wallet cfg) (rb_PlayerID b) (payout_units (cfg_oor cfg) (rb_Amount b))
                   (rb_BetID b @ '':credit'') (mg_wallet m) of
              (Some e, w) \<Rightarrow> (Ret (AnsRun (Inl (Wrapf ''rgs: credit round-bet winner'' e))), m\<lparr>mg_wallet := w\<rparr>)
            | (None, w) \<Rightarrow> (Next (JRbets R mf outs (rbs @ [out]) bs), m\<lparr>mg_wallet := w\<rparr>))
      else (Next (JRbets R mf outs (rbs @ [out]) bs), m))"

section \<open>The job step\<close>

fun job_step :: "'w mgr_config \<Rightarrow> job \<Rightarrow> 'w mgr \<Rightarrow> ((job, answer) progress \<times> 'w mgr) option" where
  "job_step cfg (JOpen rnd now pl) m = Some (map_prod (Ret \<circ> AnsOpen) id (OpenSession rnd now pl m))"
| "job_step cfg (JBet rnd t now sid a) m = Some (bet_lookup rnd t now sid a m)"
| "job_step cfg (JDebit betID t now p a) m = Some (bet_debit cfg betID t now p a m)"
| "job_step cfg (JPlace now p b) m = Some (bet_place now p b m)"
| "job_step cfg (JRefund p b e) m = Some (bet_refund cfg p b e m)"
| "job_step cfg (JEnqueue p b) m = Some (Ret (AnsBet (Inr b)), m\<lparr>mg_pending := mg_pending m @ [p]\<rparr>)"
| "job_step cfg (JClose now sid) m =
     Some (case mg_sessions m sid of
             None \<Rightarrow> Ret (AnsClose (Some (Errorf ''rgs: unknown session'')))
           | Some p \<Rightarrow> Next (JCloseSes now p), m)"
| "job_step cfg (JCloseSes now p) m =
     (case session_close now (mg_heap m p) of
        (e, s) \<Rightarrow> Some (Ret (AnsClose e), m\<lparr>mg_heap := (mg_heap m)(p := s)\<rparr>))"
| "job_step cfg (JMint r rid) m = mint_select cfg r rid m"
| "job_step cfg (JAnnounce spec) m = Some (mint_announce spec m)"
| "job_step cfg (JRb rnd now rid pl i a) m = Some (rb_find cfg rnd now rid pl i a m, m)"
| "job_step cfg (JRbKnown rid) m = Some (rb_known rid m, m)"
| "job_step cfg (JRbDebit pr u b) m = Some (rb_debit cfg pr u b m)"
| "job_step cfg (JRbBalance pr u b) m = Some (rb_balance cfg pr u b m, m)"
| "job_step cfg (JRbRecord pr u b bal) m = Some (rb_record pr u b bal m)"
| "job_step cfg (JRbRefund u b) m = Some (rb_refund cfg u b m)"
| "job_step cfg (JRun env) m = Some (run_take env m)"
| "job_step cfg (JSelect env ps prevTrack) m = map_option (\<lambda>r. (r, m)) (run_select cfg env ps prevTrack)"
| "job_step cfg (JRegister env ps spec) m = Some (Next (JField env ps (mg_nextRound m)), add_round spec m)"
| "job_step cfg (JField env ps pr) m = Some (run_field cfg env ps pr m, m)"
| "job_step cfg (JAssign env ps pr seed r i []) m = Some (Next (JRace env ps pr seed r), m)"
| "job_step cfg (JAssign env ps pr seed r i (p # todo)) m =
     (case session_assign_marble (re_assign env) i (mg_heap m p) of
        (Some e, s) \<Rightarrow> Some (Ret (AnsRun (Inl (Wrapf ''rgs: assign marble'' e))), m)
      | (None, s) \<Rightarrow> Some (Next (JAssign env ps pr seed r (i + 1) todo), m\<lparr>mg_heap := (mg_heap m)(p := s)\<rparr>))"
| "job_step cfg (JRace env ps pr seed r) m = Some (run_racing cfg env ps pr seed r m, m)"
| "job_step cfg (JCredit R outs []) m = Some (Next (JSave R outs), m)"
| "job_step cfg (JCredit R outs (p # todo)) m = settle_credit cfg R outs p todo m"
| "job_step cfg (JSettle R outs out p todo) m = Some (settle_session R outs out p todo m)"
| "job_step cfg (JSave R outs) m = Some (run_save R outs m)"
| "job_step cfg (JRbets R mf outs rbs []) m = Some (Next (JTrack R mf outs rbs), m)"
| "job_step cfg (JRbets R mf outs rbs (b # bs)) m = Some (rb_settle cfg R mf outs rbs b bs m)"
| "job_step cfg (JTrack R mf outs rbs) m =
     Some (Ret (AnsRun (Inr (mf, outs, rbs))),
           m\<lparr>mg_prevTrack := uint (sp_TrackID (pr_spec (mg_rounds m (rc_round R))))\<rparr>)"

text \<open>What a section does, for the facts that hold of every section alike.\<close>

lemmas section_defs = OpenSession_def bet_lookup_def bet_debit_def bet_place_def bet_refund_def mint_select_def
  mint_announce_def add_round_def rb_find_def rb_known_def rb_debit_def rb_balance_def rb_record_def rb_refund_def
  run_take_def run_consume_def run_select_def run_field_def run_racing_def settle_credit_def settle_session_def
  run_save_def rb_settle_def Let_def

lemmas section_splits = prod.splits option.splits sum.splits if_splits list.splits

section \<open>A call that nothing interrupts\<close>

definition atomic_call :: "'w mgr_config \<Rightarrow> mgr_event \<Rightarrow> 'w mgr \<Rightarrow> (answer \<times> 'w mgr) option" where
  "atomic_call cfg ev m =
     (case ev of
        EvOpen rnd now pl \<Rightarrow> Some (map_prod AnsOpen id (OpenSession rnd now pl m))
      | EvBet rnd t now sid a \<Rightarrow> Some (map_prod AnsBet id (PlaceBet cfg rnd t now sid a m))
      | EvCloseSession now sid \<Rightarrow> Some (map_prod AnsClose id (CloseSession now sid m))
      | EvMint r rid \<Rightarrow> map_option (map_prod AnsMint id) (GenerateRoundSpec cfg r rid m)
      | EvRoundBet rnd now rid pl i a \<Rightarrow> Some (map_prod AnsRoundBet id (PlaceBetOnRound cfg rnd now id rid pl i a m))
      | EvRun env \<Rightarrow> map_option (map_prod AnsRun id) (RunNextRound cfg env m))"

lemma solo_job: "solo (job_step cfg) j m =
    (case job_step cfg j m of
       None \<Rightarrow> None | Some (Next j', m') \<Rightarrow> solo (job_step cfg) j' m' | Some (Ret a, m') \<Rightarrow> Some (a, m'))"
  by (rule solo.simps)

lemmas solo_points =
  solo_job [where j = "JOpen rnd now pl" for rnd now pl]
  solo_job [where j = "JBet rnd t now sid a" for rnd t now sid a]
  solo_job [where j = "JDebit betID t now p a" for betID t now p a]
  solo_job [where j = "JPlace now p b" for now p b]
  solo_job [where j = "JRefund p b e" for p b e]
  solo_job [where j = "JEnqueue p b" for p b]
  solo_job [where j = "JClose now sid" for now sid]
  solo_job [where j = "JCloseSes now p" for now p]
  solo_job [where j = "JMint r rid" for r rid]
  solo_job [where j = "JAnnounce spec" for spec]
  solo_job [where j = "JRb rnd now rid pl i a" for rnd now rid pl i a]
  solo_job [where j = "JRbKnown rid" for rid]
  solo_job [where j = "JRbDebit pr u b" for pr u b]
  solo_job [where j = "JRbBalance pr u b" for pr u b]
  solo_job [where j = "JRbRecord pr u b bal" for pr u b bal]
  solo_job [where j = "JRbRefund u b" for u b]

lemma solo_open: "solo (job_step cfg) (JOpen rnd now pl) m = Some (map_prod AnsOpen id (OpenSession rnd now pl m))"
  by (cases "OpenSession rnd now pl m") (simp add: solo_points)

lemma solo_bet: "solo (job_step cfg) (JBet rnd t now sid a) m = Some (map_prod AnsBet id (PlaceBet cfg rnd t now sid a m))"
  by (auto simp: solo_points bet_lookup_def bet_debit_def bet_place_def bet_refund_def PlaceBet_def Let_def
      split: option.splits prod.splits)

lemma solo_close: "solo (job_step cfg) (JClose now sid) m = Some (map_prod AnsClose id (CloseSession now sid m))"
  by (auto simp: solo_points CloseSession_def split: option.splits prod.splits)

lemma solo_mint: "solo (job_step cfg) (JMint r rid) m = map_option (map_prod AnsMint id) (GenerateRoundSpec cfg r rid m)"
  by (auto simp: solo_points mint_select_def mint_announce_def add_round_def GenerateRoundSpec_def Let_def
      split: option.splits sum.splits)

lemma solo_round_bet: "solo (job_step cfg) (JRb rnd now rid pl i a) m =
    Some (map_prod AnsRoundBet id (PlaceBetOnRound cfg rnd now id rid pl i a m))"
  by (auto simp: solo_points rb_find_def rb_known_def rb_debit_def rb_balance_def rb_record_def rb_refund_def
      PlaceBetOnRound_def round_bet_check_def round_bet_debit_def round_bet_record_def Let_def
      split: option.splits sum.splits prod.splits)


lemma solo_assign: "solo (job_step cfg) (JAssign env ps pr seed r i todo) m =
    (case assign_all (re_assign env) i todo (mg_heap m) of
       (Some e, h) \<Rightarrow> Some (AnsRun (Inl e), m\<lparr>mg_heap := h\<rparr>)
     | (None, h) \<Rightarrow> solo (job_step cfg) (JRace env ps pr seed r) (m\<lparr>mg_heap := h\<rparr>))"
proof (induction todo arbitrary: i m)
  case Nil
  then show ?case by (subst solo_job) simp
next
  case (Cons p todo)
  obtain e s where a: "session_assign_marble (re_assign env) i (mg_heap m p) = (e, s)" by fastforce
  show ?case by (subst solo_job) (cases e; simp add: a Cons split: prod.split option.split)
qed

lemma solo_rbets: "solo (job_step cfg) (JRbets R mf outs rbs bs) m =
    (case settle_round_bets (cfg_Wallet cfg) (cfg_oor cfg) (sim_WinnerMarbleIndex (rc_sim R)) bs (mg_wallet m) of
       (Inl e, w) \<Rightarrow> Some (AnsRun (Inl e), m\<lparr>mg_wallet := w\<rparr>)
     | (Inr os, w) \<Rightarrow> Some (AnsRun (Inr (mf, outs, rbs @ os)),
         m\<lparr>mg_wallet := w, mg_prevTrack := uint (sp_TrackID (pr_spec (mg_rounds m (rc_round R))))\<rparr>))"
proof (induction bs arbitrary: rbs m)
  case Nil
  then show ?case by (simp add: solo_job [of cfg "JRbets R mf outs rbs []"] solo_job [of cfg "JTrack R mf outs rbs"])
next
  case (Cons b bs)
  show ?case
    by (subst solo_job) (auto simp: rb_settle_def round_outcome_def Let_def Cons split: prod.split option.split sum.split)
qed

lemma solo_credit: "solo (job_step cfg) (JCredit R outs todo) m =
    (case settle_sessions (cfg_Wallet cfg) (re_settle (rc_env R)) (sim_WinnerMarbleIndex (rc_sim R)) (rc_prize R)
            todo (mg_heap m) (mg_wallet m) of
       None \<Rightarrow> None
     | Some (Inl e, h, w) \<Rightarrow> Some (AnsRun (Inl e), m\<lparr>mg_heap := h, mg_wallet := w\<rparr>)
     | Some (Inr os, h, w) \<Rightarrow> solo (job_step cfg) (JSave R (outs @ os)) (m\<lparr>mg_heap := h, mg_wallet := w\<rparr>))"
proof (induction todo arbitrary: outs m)
  case Nil
  then show ?case by (subst solo_job) simp
next
  case (Cons p todo)
  let ?w = "sim_WinnerMarbleIndex (rc_sim R)"
  have settle: "solo (job_step cfg) (JSettle R outs out p todo) m' =
      (case session_settle (re_settle (rc_env R)) out (mg_heap m' p) of
         (Some e, s) \<Rightarrow> Some (AnsRun (Inl (Wrapf ''rgs: session Settle'' e)), m')
       | (None, s) \<Rightarrow> solo (job_step cfg) (JCredit R (outs @ [out]) todo) (m'\<lparr>mg_heap := (mg_heap m')(p := s)\<rparr>))" for out m'
    by (subst solo_job) (simp add: settle_session_def split: prod.split option.split)
  show ?case
  proof (cases "ses_Bet (mg_heap m p)")
    case None
    then show ?thesis by (subst solo_job) (simp add: settle_credit_def)
  next
    case (Some b)
    let ?out = "session_outcome (re_settle (rc_env R)) ?w (rc_prize R) b"
    obtain e w1 where cr: "(if so_Won ?out then w_Credit (cfg_Wallet cfg) (ses_PlayerID (mg_heap m p)) (so_PrizeAmount ?out)
        (so_CreditTxID ?out) (mg_wallet m) else (None, mg_wallet m)) = (e, w1)" by fastforce
    obtain e2 s where se: "session_settle (re_settle (rc_env R)) ?out (mg_heap m p) = (e2, s)" by fastforce
    have step: "solo (job_step cfg) (JCredit R outs (p # todo)) m = (case e of
        Some err \<Rightarrow> Some (AnsRun (Inl (Wrapf ''rgs: credit winner'' err)), m\<lparr>mg_wallet := w1\<rparr>)
      | None \<Rightarrow> solo (job_step cfg) (JSettle R outs ?out p todo) (m\<lparr>mg_wallet := w1\<rparr>))"
      using cr Some by (subst solo_job) (auto simp: settle_credit_def Let_def split: if_splits option.split)
    obtain r where rest: "settle_sessions (cfg_Wallet cfg) (re_settle (rc_env R)) ?w (rc_prize R) todo ((mg_heap m)(p := s)) w1 = r"
      by blast
    show ?thesis
      using cr se Some rest
      by (cases e; cases e2; cases r) (auto simp: step settle Cons Let_def fun_upd_def split: sum.split prod.split)
  qed
qed

lemma solo_save: "solo (job_step cfg) (JSave R outs) m =
    (case persist_round (rc_env R) (manifest_of (pr_spec (mg_rounds m (rc_round R))) (rc_state R) (rc_seed R) (rc_sim R))
        (sim_ReplayPath (rc_sim R)) (mg_disk m) of
       (Inl e, fs) \<Rightarrow> Some (AnsRun (Inl e), m\<lparr>mg_disk := fs\<rparr>)
     | (Inr mf, fs) \<Rightarrow> solo (job_step cfg) (JRbets R mf outs [] (pr_bets (mg_rounds m (rc_round R)))) (m\<lparr>mg_disk := fs\<rparr>))"
  by (subst solo_job) (simp add: run_save_def split: prod.split sum.split)

lemma solo_race: "solo (job_step cfg) (JRace env ps pr seed r) m =
    (case run_race cfg env (pr_spec (mg_rounds m pr)) seed r of
       Inl e \<Rightarrow> Some (AnsRun (Inl e), m)
     | Inr (simRes, r2, revealed) \<Rightarrow> map_option (map_prod AnsRun id) (run_settle cfg env ps pr r2 simRes revealed m))"
proof (cases "run_race cfg env (pr_spec (mg_rounds m pr)) seed r")
  case (Inl e)
  then show ?thesis by (subst solo_job) (simp add: run_racing_def)
next
  case (Inr x)
  obtain simRes r2 revealed where x: "x = (simRes, r2, revealed)" by (cases x)
  let ?st = "settle \<lparr>RTPBasisPoints = cfg_RTPBps cfg\<rparr> (replicate (nat (cfg_MaxMarbles cfg)) (cfg_BuyIn cfg))
    (sim_WinnerMarbleIndex simRes)"
  show ?thesis
  proof (cases ?st)
    case (Inl e)
    with Inr x show ?thesis by (subst solo_job) (simp add: run_racing_def run_settle_def Let_def)
  next
    case st: (Inr ph)
    obtain prize cut where ph: "ph = (prize, cut)" by (cases ph)
    let ?ss = "settle_sessions (cfg_Wallet cfg) (re_settle env) (sim_WinnerMarbleIndex simRes) prize ps (mg_heap m) (mg_wallet m)"
    show ?thesis
    proof (cases ?ss)
      case None
      with Inr x st ph show ?thesis
        by (subst solo_job) (simp add: run_racing_def run_settle_def Let_def solo_credit)
    next
      case (Some y)
      obtain res h w where "y = (res, h, w)" by (cases y)
      with Some Inr x st ph show ?thesis
        by (subst solo_job, cases res)
          (auto simp: run_racing_def run_settle_def Let_def solo_credit solo_save solo_rbets split: prod.split sum.split)
    qed
  qed
qed

lemma solo_field: "solo (job_step cfg) (JField env ps pr) m = map_option (map_prod AnsRun id) (run_round cfg env ps pr m)"
proof (cases "hex_decode (sp_ServerSeedHex (pr_spec (mg_rounds m pr)))")
  case (Inl e)
  then show ?thesis by (subst solo_job) (simp add: run_field_def run_round_def Let_def)
next
  case (Inr bytes)
  show ?thesis
  proof (cases "build_round cfg env (pr_spec (mg_rounds m pr)) (seed32 bytes) (map (\<lambda>p. ses_PlayerID (mg_heap m p)) ps)")
    case (Inl e)
    with Inr show ?thesis by (subst solo_job) (simp add: run_field_def run_round_def Let_def)
  next
    case r: (Inr r)
    obtain e h where "assign_all (re_assign env) 0 ps (mg_heap m) = (e, h)" by fastforce
    with Inr r show ?thesis
      by (subst solo_job, cases e) (simp_all add: run_field_def run_round_def Let_def solo_assign solo_race split: sum.split)
  qed
qed

lemma solo_run: "solo (job_step cfg) (JRun env) m = map_option (map_prod AnsRun id) (RunNextRound cfg env m)"
  by (subst solo_job)
    (auto simp: run_take_def RunNextRound_def run_consume_def run_spec_def solo_field Let_def run_select_def add_round_def
      solo_job [where j = "JSelect env ps t" for ps t] solo_job [where j = "JRegister env ps spec" for ps spec]
      split: prod.split option.split sum.split list.split)

text \<open>
  The sections are the calls.  A call whose sections run with nothing in between answers
  and leaves the manager exactly as the call read as one operation, panics included; so what
  is proved of a single call is what a client sees when no other call interferes.
\<close>

theorem calls_are_solo_runs: "solo (job_step cfg) (call_job ev) m = atomic_call cfg ev m"
  by (cases ev) (simp_all add: atomic_call_def solo_open solo_bet solo_close solo_mint solo_round_bet solo_run)

end
