(* ===== verification/Manager_Threads.thy ===== *)
theory Manager_Threads
  imports Manager_Conc
begin

text \<open>
  The manager's methods are safe for concurrent calls (server/rgs/manager.go): who owns a
  session or an announced round while calls are in progress, what each section guarantees to
  the other calls, and the contract of \<open>Threads\<close> discharged for them, so that the invariant of
  the manager holds between any two sections of any interleaving.
\<close>

section \<open>Who owns what\<close>

text \<open>
  A call in progress owns the sessions whose bets it has taken out of everybody's reach, and
  the announced round it runs.
\<close>

type_synonym resource = "nat + nat"

abbreviation own_run :: "nat list \<Rightarrow> nat \<Rightarrow> resource set" where
  "own_run ps pr \<equiv> insert (Inr pr) (Inl ` set ps)"

fun owns :: "job \<Rightarrow> resource set" where
  "owns (JEnqueue p b) = {Inl p}"
| "owns (JSelect env ps t) = Inl ` set ps"
| "owns (JRegister env ps spec) = Inl ` set ps"
| "owns (JField env ps pr) = own_run ps pr"
| "owns (JAssign env ps pr seed r i todo) = own_run ps pr"
| "owns (JRace env ps pr seed r) = own_run ps pr"
| "owns (JCredit R outs todo) = own_run todo (rc_round R)"
| "owns (JSettle R outs out p todo) = own_run (p # todo) (rc_round R)"
| "owns (JSave R outs) = {Inr (rc_round R)}"
| "owns (JRbets R mf outs rbs bs) = {Inr (rc_round R)}"
| "owns (JTrack R mf outs rbs) = {Inr (rc_round R)}"
| "owns _ = {}"

definition unowned :: "'w mgr \<Rightarrow> resource set" where
  "unowned m = Inl ` {p. \<not> stranded p m} \<union> Inr ` {pr. mg_nextRound m \<le> pr \<or> pr \<in> set (mg_pendingRounds m)}"

section \<open>What a call in progress relies on\<close>

definition round_taken :: "'w mgr_config \<Rightarrow> 'w mgr \<Rightarrow> nat \<Rightarrow> bool" where
  "round_taken cfg m pr \<longleftrightarrow> round_entry_ok cfg m pr \<and> pr \<notin> set (mg_pendingRounds m)"

definition bet_fits :: "'w mgr_config \<Rightarrow> 'w mgr \<Rightarrow> nat \<Rightarrow> round_bet \<Rightarrow> bool" where
  "bet_fits cfg m pr b \<longleftrightarrow> pr < mg_nextRound m \<and> sp_RoundID (pr_spec (mg_rounds m pr)) = rb_RoundID b \<and>
     0 \<le> rb_MarbleIdx b \<and> rb_MarbleIdx b < cfg_MaxMarbles cfg"

definition all_in :: "(session \<Rightarrow> bool) \<Rightarrow> nat list \<Rightarrow> 'w mgr \<Rightarrow> bool" where
  "all_in P ps m \<longleftrightarrow> distinct ps \<and> (\<forall>p \<in> set ps. stranded p m \<and> P (mg_heap m p))"

definition seed_spec :: "round_spec \<Rightarrow> bool" where
  "seed_spec spec \<longleftrightarrow> (\<exists>seed. length seed = 32 \<and> sp_ServerSeedHex spec = hex_encode seed)"

fun local_ok :: "'w mgr_config \<Rightarrow> 'w mgr \<Rightarrow> job \<Rightarrow> bool" where
  "local_ok cfg m (JDebit betID t now p a) = (p < mg_next m)"
| "local_ok cfg m (JPlace now p b) = (p < mg_next m)"
| "local_ok cfg m (JRefund p b e) = (p < mg_next m)"
| "local_ok cfg m (JEnqueue p b) = all_in waiting [p] m"
| "local_ok cfg m (JCloseSes now p) = (p < mg_next m)"
| "local_ok cfg m (JMint r rid) = seed_ok r"
| "local_ok cfg m (JAnnounce spec) = seed_spec spec"
| "local_ok cfg m (JRbDebit pr u b) = bet_fits cfg m pr b"
| "local_ok cfg m (JRbBalance pr u b) = bet_fits cfg m pr b"
| "local_ok cfg m (JRbRecord pr u b bal) = bet_fits cfg m pr b"
| "local_ok cfg m (JRun env) = seed_ok (re_seed env)"
| "local_ok cfg m (JSelect env ps t) = (all_in waiting ps m \<and> seed_ok (re_seed env))"
| "local_ok cfg m (JRegister env ps spec) = (all_in waiting ps m \<and> seed_spec spec)"
| "local_ok cfg m (JField env ps pr) = (all_in waiting ps m \<and> round_taken cfg m pr)"
| "local_ok cfg m (JAssign env ps pr seed r i todo) =
     (all_in (\<lambda>s. True) ps m \<and> all_in waiting todo m \<and> (\<exists>ran. ps = ran @ todo \<and> all_in racing ran m) \<and>
      round_taken cfg m pr)"
| "local_ok cfg m (JRace env ps pr seed r) = (all_in racing ps m \<and> round_taken cfg m pr)"
| "local_ok cfg m (JCredit R outs todo) = (all_in racing todo m \<and> round_taken cfg m (rc_round R))"
| "local_ok cfg m (JSettle R outs out p todo) = (all_in racing (p # todo) m \<and> round_taken cfg m (rc_round R))"
| "local_ok cfg m (JSave R outs) = round_taken cfg m (rc_round R)"
| "local_ok cfg m (JRbets R mf outs rbs bs) = round_taken cfg m (rc_round R)"
| "local_ok cfg m (JTrack R mf outs rbs) = round_taken cfg m (rc_round R)"
| "local_ok cfg m _ = True"

section \<open>What a step guarantees to the others\<close>

definition keeps :: "'w mgr_config \<Rightarrow> resource set \<Rightarrow> 'w mgr \<Rightarrow> 'w mgr \<Rightarrow> bool" where
  "keeps cfg S m m' \<longleftrightarrow> mg_next m \<le> mg_next m' \<and> mg_nextRound m \<le> mg_nextRound m' \<and>
     (\<forall>p. stranded p m \<and> Inl p \<notin> S \<longrightarrow> mg_heap m' p = mg_heap m p \<and> p \<notin> set (mg_pending m')) \<and>
     (\<forall>pr < mg_nextRound m. pr_spec (mg_rounds m' pr) = pr_spec (mg_rounds m pr) \<and>
        (round_entry_ok cfg m pr \<longrightarrow> round_entry_ok cfg m' pr)) \<and>
     (\<forall>pr < mg_nextRound m. pr \<notin> set (mg_pendingRounds m) \<longrightarrow> pr \<notin> set (mg_pendingRounds m'))"

lemma keeps_stranded: "keeps cfg S m m' \<Longrightarrow> stranded p m \<Longrightarrow> Inl p \<notin> S \<Longrightarrow> stranded p m' \<and> mg_heap m' p = mg_heap m p"
  by (auto simp: keeps_def stranded_def)

lemma keeps_all_in: "keeps cfg S m m' \<Longrightarrow> all_in P ps m \<Longrightarrow> Inl ` set ps \<inter> S = {} \<Longrightarrow> all_in P ps m'"
  unfolding all_in_def using keeps_stranded [of cfg S m m'] by fastforce

lemma keeps_round: "keeps cfg S m m' \<Longrightarrow> round_taken cfg m pr \<Longrightarrow> round_taken cfg m' pr"
  by (auto simp: keeps_def round_taken_def round_entry_ok_def [of cfg m])

lemma keeps_bet_fits: "keeps cfg S m m' \<Longrightarrow> bet_fits cfg m pr b \<Longrightarrow> bet_fits cfg m' pr b"
  by (auto simp: keeps_def bet_fits_def)

lemma keeps_next: "keeps cfg S m m' \<Longrightarrow> p < mg_next m \<Longrightarrow> p < mg_next m'"
  by (simp add: keeps_def)

lemma local_ok_kept:
  assumes "local_ok cfg m i" and k: "keeps cfg S m m'" and "owns i \<inter> S = {}"
  shows "local_ok cfg m' i"
proof (cases i)
  case (JAssign env ps pr seed r k todo)
  then obtain don where "ps = don @ todo" "all_in racing don m" "all_in waiting todo m" "all_in (\<lambda>s. True) ps m"
    "round_taken cfg m pr" using assms(1) by auto
  moreover have "Inl ` set ps \<inter> S = {}" "Inl ` set don \<inter> S = {}" "Inl ` set todo \<inter> S = {}"
    using assms(3) JAssign \<open>ps = don @ todo\<close> by auto
  ultimately show ?thesis
    using keeps_all_in [OF k] keeps_round [OF k] JAssign by auto
qed (use assms keeps_all_in [OF k] keeps_round [OF k] keeps_bet_fits [OF k] keeps_next [OF k] in auto)

lemma owned_stranded: "local_ok cfg m i \<Longrightarrow> owns i \<inter> unowned m = {}"
  by (cases i) (auto simp: unowned_def all_in_def round_taken_def round_entry_ok_def)


section \<open>The steps, one kind of change at a time\<close>

definition step_ok :: "'w mgr_config \<Rightarrow> job \<Rightarrow> 'w mgr \<Rightarrow> (job, answer) progress \<Rightarrow> 'w mgr \<Rightarrow> bool" where
  "step_ok cfg j m r m' \<longleftrightarrow> mgr_inv cfg m' \<and> keeps cfg (owns j) m m' \<and>
     (\<forall>j'. r = Next j' \<longrightarrow> local_ok cfg m' j' \<and> owns j' \<subseteq> owns j \<union> unowned m)"

text \<open>Wallet, disk and last track are nobody's.\<close>

lemma shared_frame [simp]:
  "stranded p (m\<lparr>mg_wallet := w\<rparr>) = stranded p m" "stranded p (m\<lparr>mg_disk := fs\<rparr>) = stranded p m"
  "stranded p (m\<lparr>mg_prevTrack := t\<rparr>) = stranded p m"
  "round_entry_ok cfg (m\<lparr>mg_wallet := w\<rparr>) pr = round_entry_ok cfg m pr"
  "round_entry_ok cfg (m\<lparr>mg_disk := fs\<rparr>) pr = round_entry_ok cfg m pr"
  "round_entry_ok cfg (m\<lparr>mg_prevTrack := t\<rparr>) pr = round_entry_ok cfg m pr"
  by (simp_all add: stranded_def round_entry_ok_def)

lemma shared_local [simp]:
  "local_ok cfg (m\<lparr>mg_wallet := w\<rparr>) j = local_ok cfg m j" "local_ok cfg (m\<lparr>mg_disk := fs\<rparr>) j = local_ok cfg m j"
  "local_ok cfg (m\<lparr>mg_prevTrack := t\<rparr>) j = local_ok cfg m j"
  by (cases j; simp add: all_in_def round_taken_def bet_fits_def)+

lemma shared_inv [simp]:
  "mgr_inv cfg (m\<lparr>mg_wallet := w\<rparr>) = mgr_inv cfg m" "mgr_inv cfg (m\<lparr>mg_disk := fs\<rparr>) = mgr_inv cfg m"
  "mgr_inv cfg (m\<lparr>mg_prevTrack := t\<rparr>) = mgr_inv cfg m"
  by (simp_all add: mgr_inv_def queue_ok_def table_ok_def rounds_ok_def)

lemma keeps_refl [simp]: "keeps cfg S m m"
  by (simp add: keeps_def stranded_def)

lemma shared_keeps [simp]:
  "keeps cfg S m (m\<lparr>mg_wallet := w\<rparr>)" "keeps cfg S m (m\<lparr>mg_disk := fs\<rparr>)" "keeps cfg S m (m\<lparr>mg_prevTrack := t\<rparr>)"
  by (simp_all add: keeps_def stranded_def)

text \<open>A session that is owned, or that nobody can own.\<close>

lemma keeps_session: "Inl p \<in> S \<or> \<not> stranded p m \<Longrightarrow> keeps cfg S m (m\<lparr>mg_heap := (mg_heap m)(p := s)\<rparr>)"
  by (auto simp: keeps_def stranded_def round_entry_ok_def)

lemma session_upd_inv:
  assumes "mgr_inv cfg m" and "session_apply ev (mg_heap m p) = (e, s)"
    and "p < mg_next m" and "p \<in> set (mg_pending m) \<Longrightarrow> ses_State s = SessionBet"
  shows "mgr_inv cfg (m\<lparr>mg_heap := (mg_heap m)(p := s)\<rparr>)"
proof -
  have "session_inv s" "ses_PlayerID s \<noteq> []"
    using assms session_apply_inv [OF _ assms(2)] session_apply_frame [OF assms(2)]
    by (auto simp: mgr_inv_def heap_ok_def)
  then show ?thesis
    using assms by (auto simp: mgr_inv_def heap_ok_def queue_ok_def table_ok_def rounds_ok_def round_entry_ok_def)
qed

text \<open>A session in the hands of a call may change its contents, not its owner.\<close>

lemma all_in_upd:
  assumes "all_in P ps m" and "ses_State s \<in> {SessionBet, SessionRacing}"
    and "p \<in> set ps \<Longrightarrow> P s"
  shows "all_in P ps (m\<lparr>mg_heap := (mg_heap m)(p := s)\<rparr>)"
  using assms by (auto simp: all_in_def stranded_def)

lemma all_in_other: "all_in P ps m \<Longrightarrow> p \<notin> set ps \<Longrightarrow> all_in P ps (m\<lparr>mg_heap := (mg_heap m)(p := s)\<rparr>)"
  by (auto simp: all_in_def stranded_def)

lemma heap_rounds [simp]:
  "round_taken cfg (m\<lparr>mg_heap := h\<rparr>) pr = round_taken cfg m pr" "bet_fits cfg (m\<lparr>mg_heap := h\<rparr>) pr b = bet_fits cfg m pr b"
  by (simp_all add: round_taken_def bet_fits_def round_entry_ok_def)

text \<open>A new round.\<close>

lemma add_round_entry: "round_entry_ok cfg m pr \<Longrightarrow> round_entry_ok cfg (add_round spec m) pr"
  by (auto simp: round_entry_ok_def add_round_def)

lemma add_round_new: "seed_spec spec \<Longrightarrow> round_entry_ok cfg (add_round spec m) (mg_nextRound m)"
  by (auto simp: round_entry_ok_def add_round_def seed_spec_def)

lemma add_round_sel [simp]:
  "mg_heap (add_round spec m) = mg_heap m" "mg_pending (add_round spec m) = mg_pending m"
  "mg_next (add_round spec m) = mg_next m" "mg_sessions (add_round spec m) = mg_sessions m"
  "mg_nextRound (add_round spec m) = Suc (mg_nextRound m)" "mg_pendingRounds (add_round spec m) = mg_pendingRounds m"
  "mg_wallet (add_round spec m) = mg_wallet m" "mg_disk (add_round spec m) = mg_disk m"
  by (simp_all add: add_round_def)

lemma add_round_inv: "mgr_inv cfg m \<Longrightarrow> mgr_inv cfg (add_round spec m)"
  using add_round_entry [of cfg m _ spec]
  by (simp add: mgr_inv_def queue_ok_def table_ok_def rounds_ok_def)

lemma add_round_keeps: "keeps cfg S m (add_round spec m)"
  using add_round_entry [of cfg m _ spec] by (auto simp: keeps_def stranded_def add_round_def)

lemma announce_inv:
  assumes "mgr_inv cfg m" and "seed_spec spec"
  shows "mgr_inv cfg ((add_round spec m)\<lparr>mg_pendingRounds := mg_pendingRounds m @ [mg_nextRound m]\<rparr>)"
proof -
  have entry: "round_entry_ok cfg (m'\<lparr>mg_pendingRounds := q\<rparr>) pr = round_entry_ok cfg m' pr" for m' q pr
    by (simp add: round_entry_ok_def)
  have "mg_nextRound m \<notin> set (mg_pendingRounds m)" using assms(1) by (auto simp: mgr_inv_def rounds_ok_def round_entry_ok_def)
  then show ?thesis
    using assms add_round_entry [of cfg m _ spec] add_round_new [of spec cfg m]
    by (auto simp: mgr_inv_def queue_ok_def table_ok_def rounds_ok_def entry)
qed

lemma announce_keeps:
  "keeps cfg S m ((add_round spec m)\<lparr>mg_pendingRounds := mg_pendingRounds m @ [mg_nextRound m]\<rparr>)"
proof -
  have "round_entry_ok cfg (m'\<lparr>mg_pendingRounds := q\<rparr>) pr = round_entry_ok cfg m' pr" for m' :: "'a mgr" and q pr
    by (simp add: round_entry_ok_def)
  then show ?thesis
    using add_round_entry [of cfg m _ spec] by (auto simp: keeps_def stranded_def add_round_def)
qed

section \<open>Every section keeps the contract\<close>

lemma open_ok:
  assumes "mgr_inv cfg m"
  shows "step_ok cfg (JOpen rnd now pl) m (Ret a) (snd (OpenSession rnd now pl m))"
proof -
  have "\<not> stranded (mg_next m) m" by (simp add: stranded_def)
  moreover have "mg_next m \<notin> set (mg_pending m)" using assms by (auto simp: mgr_inv_def queue_ok_def)
  ultimately have "keeps cfg S m (snd (OpenSession rnd now pl m))" for S
    by (auto simp: OpenSession_def Let_def keeps_def stranded_def round_entry_ok_def)
  then show ?thesis using assms OpenSession_inv by (auto simp: step_ok_def)
qed

lemma bet_place_ok:
  assumes "mgr_inv cfg m" and "p < mg_next m"
  shows "case bet_place now p b m of (r, m') \<Rightarrow> step_ok cfg (JPlace now p b) m r m'"
proof -
  obtain e s where pl: "session_place_bet now b (mg_heap m p) = (e, s)" by fastforce
  then have ap: "session_apply (EvPlaceBet now b) (mg_heap m p) = (e, s)" by simp
  show ?thesis
  proof (cases e)
    case (Some err)
    with assms pl show ?thesis by (simp add: bet_place_def step_ok_def)
  next
    case None
    have free: "\<not> stranded p m" "ses_State s = SessionBet" "ses_Bet s \<noteq> None" "ses_State (mg_heap m p) \<noteq> SessionBet"
      using pl None by (auto simp: stranded_def session_place_bet_def split: if_splits)
    moreover have "p \<notin> set (mg_pending m)" using assms(1) free(4) by (auto simp: mgr_inv_def queue_ok_def)
    ultimately have "all_in waiting [p] (m\<lparr>mg_heap := (mg_heap m)(p := s)\<rparr>)"
      using assms(2) by (simp add: all_in_def stranded_def waiting_def)
    with pl None free show ?thesis
      using session_upd_inv [OF assms(1) ap assms(2)] keeps_session [of p "{}" m cfg s]
      by (simp add: bet_place_def step_ok_def unowned_def)
  qed
qed

lemma enqueue_ok:
  assumes "mgr_inv cfg m" and "all_in waiting [p] m"
  shows "step_ok cfg (JEnqueue p b) m (Ret a) (m\<lparr>mg_pending := mg_pending m @ [p]\<rparr>)"
  using assms
  by (auto simp: step_ok_def mgr_inv_def queue_ok_def table_ok_def rounds_ok_def round_entry_ok_def keeps_def
      all_in_def stranded_def waiting_def)

lemma close_ok:
  assumes "mgr_inv cfg m" and "p < mg_next m" and "session_close now (mg_heap m p) = (e, s)"
  shows "step_ok cfg (JCloseSes now p) m (Ret a) (m\<lparr>mg_heap := (mg_heap m)(p := s)\<rparr>)"
proof -
  have ap: "session_apply (EvClose now) (mg_heap m p) = (e, s)" using assms(3) by simp
  have same: "ses_State (mg_heap m p) \<in> {SessionBet, SessionRacing} \<Longrightarrow> s = mg_heap m p"
    using assms(3) by (auto simp: session_close_def split: if_splits)
  have "keeps cfg {} m (m\<lparr>mg_heap := (mg_heap m)(p := s)\<rparr>)"
  proof (cases "stranded p m")
    case True
    then have "m\<lparr>mg_heap := (mg_heap m)(p := s)\<rparr> = m" using same by (auto simp: stranded_def)
    then show ?thesis by simp
  qed (intro keeps_session, simp)
  moreover have "p \<in> set (mg_pending m) \<Longrightarrow> ses_State s = SessionBet"
    using assms(1) same by (auto simp: mgr_inv_def queue_ok_def)
  ultimately show ?thesis using session_upd_inv [OF assms(1) ap assms(2)] by (simp add: step_ok_def)
qed

lemma rb_record_ok:
  assumes "mgr_inv cfg m" and "bet_fits cfg m pr b"
  shows "case rb_record pr u b bal m of (r, m') \<Rightarrow> step_ok cfg (JRbRecord pr u b bal) m r m'"
proof (cases "findPendingRound (rb_RoundID b) m")
  case None
  with assms show ?thesis by (simp add: rb_record_def step_ok_def)
next
  case (Some q)
  let ?m = "m\<lparr>mg_rounds := (mg_rounds m)(pr := (mg_rounds m pr)\<lparr>pr_bets := pr_bets (mg_rounds m pr) @ [b]\<rparr>),
    mg_roundBets := (mg_roundBets m)(rb_RoundID b \<mapsto>
      (case mg_roundBets m (rb_RoundID b) of None \<Rightarrow> [] | Some bs \<Rightarrow> bs) @ [b])\<rparr>"
  have entry: "round_entry_ok cfg ?m q" if "round_entry_ok cfg m q" for q
    using that assms(2) by (auto simp: round_entry_ok_def bet_fits_def)
  then have "mgr_inv cfg ?m"
    using assms(1) by (simp add: mgr_inv_def queue_ok_def table_ok_def rounds_ok_def)
  moreover have "keeps cfg {} m ?m" using entry by (auto simp: keeps_def stranded_def)
  ultimately show ?thesis using Some by (simp add: rb_record_def step_ok_def)
qed

lemma in_set_tl: "x \<in> set (tl xs) \<Longrightarrow> x \<in> set xs"
  by (cases xs) auto

lemma run_take_ok:
  assumes inv: "mgr_inv cfg m" and "seed_ok (re_seed env)"
  shows "case run_take env m of (r, m') \<Rightarrow> step_ok cfg (JRun env) m r m'"
proof -
  note q = queue_waiting [OF inv]
  have "all_in waiting (mg_pending m) (consumed m)"
    using q by (auto simp: all_in_def stranded_def waiting_def)
  moreover have "round_taken cfg (consumed m) pr" if "mg_pendingRounds m = pr # prs" for pr prs
    using that inv by (simp add: round_taken_def mgr_inv_def rounds_ok_def round_entry_ok_def)
  moreover have "keeps cfg {} m (consumed m)"
    by (auto simp: keeps_def stranded_def round_entry_ok_def dest: in_set_tl)
  moreover have "Inl ` set (mg_pending m) \<subseteq> unowned m"
    by (auto simp: unowned_def stranded_def)
  ultimately show ?thesis
    using assms consumed_inv [OF inv]
    by (auto simp: run_take_def run_consume_def step_ok_def unowned_def simp flip: consumed_def split: list.split)
qed

lemma assign_ok:
  assumes inv: "mgr_inv cfg m" and loc: "local_ok cfg m (JAssign env ps pr seed r i (p # todo))"
  shows "\<exists>res m'. job_step cfg (JAssign env ps pr seed r i (p # todo)) m = Some (res, m') \<and>
    step_ok cfg (JAssign env ps pr seed r i (p # todo)) m res m'"
proof -
  obtain ran where ran: "ps = ran @ p # todo" "all_in racing ran m" and all: "all_in (\<lambda>s. True) ps m"
    "all_in waiting (p # todo) m" "round_taken cfg m pr" using loc by auto
  then have w: "waiting (mg_heap m p)" "p < mg_next m" "p \<notin> set (mg_pending m)" "p \<notin> set todo" "p \<notin> set ran" "distinct ps"
    by (auto simp: all_in_def stranded_def)
  define s where "s = raced (re_assign env) i (mg_heap m p)"
  have as: "session_assign_marble (re_assign env) i (mg_heap m p) = (None, s)"
    using w(1) by (auto simp: s_def session_assign_marble_def raced_def waiting_def split: option.split)
  then have ap: "session_apply (EvAssignMarble (re_assign env) i) (mg_heap m p) = (None, s)" by simp
  let ?m = "m\<lparr>mg_heap := (mg_heap m)(p := s)\<rparr>"
  have s: "racing s" "ses_State s \<in> {SessionBet, SessionRacing}"
    using w(1) by (auto simp: s_def racing_def waiting_def)
  have "all_in racing (ran @ [p]) ?m"
    using ran(2) w s by (auto simp: all_in_def stranded_def racing_def)
  moreover have "all_in waiting todo ?m" using all(2) w(4) by (intro all_in_other) (auto simp: all_in_def)
  moreover have "all_in (\<lambda>s. True) ps ?m" using all(1) s(2) by (intro all_in_upd) auto
  ultimately have "local_ok cfg ?m (JAssign env ps pr seed r (i + 1) todo)"
    using all(3) ran(1) by (auto intro!: exI [of _ "ran @ [p]"])
  moreover have "mgr_inv cfg ?m" using session_upd_inv [OF inv ap w(2)] w(3) by simp
  moreover have "keeps cfg (own_run ps pr) m ?m" using ran(1) by (intro keeps_session) auto
  ultimately show ?thesis using as by (auto simp: step_ok_def)
qed

lemma credit_step_ok:
  assumes inv: "mgr_inv cfg m" and loc: "local_ok cfg m (JCredit R outs (p # todo))"
  shows "\<exists>res m'. settle_credit cfg R outs p todo m = Some (res, m') \<and> step_ok cfg (JCredit R outs (p # todo)) m res m'"
proof -
  obtain b where "ses_Bet (mg_heap m p) = Some b" using loc by (auto simp: all_in_def racing_def)
  with assms show ?thesis
    by (auto simp: settle_credit_def Let_def step_ok_def split: prod.split option.split)
qed

lemma settle_ok:
  assumes inv: "mgr_inv cfg m" and loc: "local_ok cfg m (JSettle R outs out p todo)"
  shows "case settle_session R outs out p todo m of (res, m') \<Rightarrow> step_ok cfg (JSettle R outs out p todo) m res m'"
proof -
  have r: "racing (mg_heap m p)" "p < mg_next m" "p \<notin> set (mg_pending m)" "p \<notin> set todo" "all_in racing todo m"
    using loc by (auto simp: all_in_def stranded_def)
  obtain s where se: "session_settle (re_settle (rc_env R)) out (mg_heap m p) = (None, s)"
    using r(1) by (simp add: session_settle_def racing_def)
  then have ap: "session_apply (EvSettle (re_settle (rc_env R)) out) (mg_heap m p) = (None, s)" by simp
  have "mgr_inv cfg (m\<lparr>mg_heap := (mg_heap m)(p := s)\<rparr>)" using session_upd_inv [OF inv ap r(2)] r(3) by simp
  moreover have "all_in racing todo (m\<lparr>mg_heap := (mg_heap m)(p := s)\<rparr>)" using r(4,5) by (intro all_in_other)
  moreover have "keeps cfg (own_run (p # todo) (rc_round R)) m (m\<lparr>mg_heap := (mg_heap m)(p := s)\<rparr>)"
    by (intro keeps_session) simp
  ultimately show ?thesis using se loc by (auto simp: settle_session_def step_ok_def)
qed

lemma mint_ok:
  assumes "mgr_inv cfg m" and "cfg_ok cfg" and "seed_ok r"
  shows "\<exists>res m'. mint_select cfg r rid m = Some (res, m') \<and> step_ok cfg (JMint r rid) m res m'"
proof -
  obtain t where "mgr_select_track (cfg_TrackPool cfg) rid (mg_prevTrack m) = Some t"
    using select_track_defined [of "cfg_TrackPool cfg"] assms(2) unfolding cfg_ok_def by blast
  with assms show ?thesis
    by (cases r) (auto simp: mint_select_def step_ok_def seed_spec_def seed_ok_def)
qed

lemma select_ok:
  assumes "mgr_inv cfg m" and "cfg_ok cfg" and "local_ok cfg m (JSelect env ps t)"
  shows "\<exists>res. run_select cfg env ps t = Some res \<and> step_ok cfg (JSelect env ps t) m res m"
proof -
  obtain u where "mgr_select_track (cfg_TrackPool cfg) (re_freshID env) t = Some u"
    using select_track_defined [of "cfg_TrackPool cfg"] assms(2) unfolding cfg_ok_def by blast
  with assms show ?thesis
    by (cases "re_seed env") (auto simp: run_select_def step_ok_def seed_spec_def seed_ok_def)
qed

lemma register_ok:
  assumes "mgr_inv cfg m" and "local_ok cfg m (JRegister env ps spec)"
  shows "step_ok cfg (JRegister env ps spec) m (Next (JField env ps (mg_nextRound m))) (add_round spec m)"
proof -
  have "mg_nextRound m \<notin> set (mg_pendingRounds m)" using assms(1) by (auto simp: mgr_inv_def rounds_ok_def round_entry_ok_def)
  moreover have "all_in waiting ps (add_round spec m)" using assms(2) by (simp add: all_in_def stranded_def)
  ultimately show ?thesis
    using assms add_round_inv add_round_keeps add_round_new [of spec cfg m]
    by (auto simp: step_ok_def round_taken_def unowned_def)
qed

lemma announce_ok:
  assumes "mgr_inv cfg m" and "seed_spec spec"
  shows "case mint_announce spec m of (res, m') \<Rightarrow> step_ok cfg (JAnnounce spec) m res m'"
  using assms by (simp add: mint_announce_def step_ok_def announce_inv announce_keeps)

lemma rb_find_ok:
  assumes "mgr_inv cfg m"
  shows "step_ok cfg (JRb rnd now rid pl i a) m (rb_find cfg rnd now rid pl i a m) m"
proof -
  have "bet_fits cfg m pr b" if "findPendingRound rid m = Some pr" "0 \<le> i" "i < cfg_MaxMarbles cfg"
    "rb_RoundID b = rid" "rb_MarbleIdx b = i" for pr b
    using findPendingRound_Some [OF that(1)] that(2-) assms
    by (auto simp: bet_fits_def mgr_inv_def rounds_ok_def round_entry_ok_def)
  with assms show ?thesis by (auto simp: rb_find_def step_ok_def Let_def split: option.split)
qed

text \<open>A section that always goes on or answers.\<close>

lemma section_ok: "(case x of (r, m') \<Rightarrow> step_ok cfg j m r m') \<Longrightarrow> job_step cfg j m = Some x \<Longrightarrow>
    \<exists>r m'. job_step cfg j m = Some (r, m') \<and> step_ok cfg j m r m'"
  by (cases x) simp

lemma job_step_ok:
  assumes inv: "mgr_inv cfg m" and cfg: "cfg_ok cfg" and loc: "local_ok cfg m j"
  shows "\<exists>r m'. job_step cfg j m = Some (r, m') \<and> step_ok cfg j m r m'"
proof (cases j)
  case (JOpen rnd now pl)
  then show ?thesis by (cases "OpenSession rnd now pl m") (metis inv open_ok comp_apply id_apply job_step.simps(1) map_prod_simp snd_conv)
next
  case (JPlace now p b)
  then show ?thesis using bet_place_ok [OF inv, of p now b] loc section_ok [where x = "bet_place now p b m"] by simp
next
  case (JRbRecord pr u b bal)
  then show ?thesis using rb_record_ok [OF inv, of pr b u bal] loc section_ok [where x = "rb_record pr u b bal m"] by simp
next
  case (JRun env)
  then show ?thesis using run_take_ok [OF inv, of env] loc section_ok [where x = "run_take env m"] by simp
next
  case (JSettle R outs out p todo)
  then show ?thesis using settle_ok [OF inv] loc section_ok [where x = "settle_session R outs out p todo m"] by simp
next
  case (JAnnounce spec)
  then show ?thesis using announce_ok [OF inv, of spec] loc section_ok [where x = "mint_announce spec m"] by simp
next
  case (JAssign env ps pr seed r i todo)
  show ?thesis
  proof (cases todo)
    case Nil
    with JAssign inv loc show ?thesis by (auto simp: step_ok_def)
  next
    case (Cons p rest)
    with JAssign assign_ok [OF inv] loc show ?thesis by blast
  qed
next
  case (JCredit R outs todo)
  show ?thesis
  proof (cases todo)
    case Nil
    with JCredit inv loc show ?thesis by (simp add: step_ok_def)
  next
    case (Cons p rest)
    with JCredit credit_step_ok [OF inv] loc show ?thesis by simp
  qed
next
  case (JRbets R mf outs rbs bs)
  with inv loc show ?thesis
    by (cases bs) (auto simp: step_ok_def rb_settle_def Let_def split: prod.split option.split)
next
  case (JCloseSes now p)
  with loc close_ok [OF inv] show ?thesis by (simp split: prod.split)
next
  case (JBet rnd t now sid a)
  with inv show ?thesis
    by (auto simp: bet_lookup_def step_ok_def mgr_inv_def table_ok_def split: option.split)
next
  case (JClose now sid)
  with inv show ?thesis by (auto simp: step_ok_def mgr_inv_def table_ok_def split: option.split)
next
  case (JRace env ps pr seed r)
  with inv loc show ?thesis by (auto simp: run_racing_def step_ok_def split: sum.split)
next
  case (JField env ps pr)
  with inv loc show ?thesis
    by (auto simp: run_field_def step_ok_def all_in_def Let_def split: sum.split)
next
  case (JEnqueue p b)
  with loc enqueue_ok [OF inv] show ?thesis by simp
next
  case (JMint r rid)
  with loc mint_ok [OF inv cfg] show ?thesis by simp
next
  case (JRb rnd now rid pl i a)
  with rb_find_ok [OF inv] show ?thesis by simp
next
  case (JSelect env ps t)
  with select_ok [OF inv cfg] loc show ?thesis by fastforce
next
  case (JRegister env ps spec)
  with register_ok [OF inv] loc show ?thesis by simp
qed (use inv loc in \<open>auto simp: step_ok_def bet_debit_def bet_refund_def rb_known_def rb_debit_def rb_balance_def
      rb_refund_def run_save_def split: prod.split option.split sum.split\<close>)

lemma job_step_facts:
  "mgr_inv cfg m \<Longrightarrow> cfg_ok cfg \<Longrightarrow> local_ok cfg m j \<Longrightarrow> job_step cfg j m = Some (r, m') \<Longrightarrow> step_ok cfg j m r m'"
  using job_step_ok [of cfg m j] by auto

section \<open>The contract of the manager's calls\<close>

definition call_enabled :: "job \<Rightarrow> bool" where
  "call_enabled j \<longleftrightarrow> (\<exists>ev. j = call_job ev \<and> mgr_enabled ev)"

interpretation mgr_threads: thread_contract "job_step cfg" "\<lambda>m. cfg_ok cfg \<and> mgr_inv cfg m" "local_ok cfg" owns unowned
    "keeps cfg" call_enabled for cfg :: "'w mgr_config"
proof (unfold_locales, goal_cases)
  case (1 j m)
  then obtain ev where "j = call_job ev" "mgr_enabled ev" by (auto simp: call_enabled_def)
  then show ?case by (cases ev) auto
next
  case (2 m j)
  then show ?case using job_step_ok [of cfg m j] by auto
next
  case (3 m j r m')
  then show ?case using job_step_facts [of cfg m j r m'] by (simp add: step_ok_def)
next
  case (4 m j j' m')
  then show ?case using job_step_facts [of cfg m j "Next j'" m'] by (simp add: step_ok_def)
next
  case (5 m j j' m')
  then show ?case using job_step_facts [of cfg m j "Next j'" m'] by (simp add: step_ok_def)
next
  case (6 m j r m')
  then show ?case using job_step_facts [of cfg m j r m'] by (simp add: step_ok_def)
next
  case (7 m i S m')
  then show ?case using local_ok_kept by blast
next
  case (8 m i)
  then show ?case by (rule owned_stranded)
qed

section \<open>All interleavings\<close>

definition idle_start :: "(job, 'w mgr) pool \<Rightarrow> bool" where
  "idle_start c \<longleftrightarrow> fresh_mgr (fst c) \<and> snd c = (\<lambda>_. None)"

abbreviation conc_reach :: "'w mgr_config \<Rightarrow> (job, 'w mgr) pool \<Rightarrow> bool" where
  "conc_reach cfg \<equiv> reach idle_start (pool_step (job_step cfg) (\<lambda>_. call_enabled))"

lemma conc_inv:
  assumes "conc_reach cfg c" and "cfg_ok cfg"
  shows "mgr_threads.pool_inv cfg c"
  using assms(1)
proof (induction rule: reach.induct)
  case (reach_init c)
  then have "snd c = (\<lambda>_. None)" "mgr_inv cfg (fst c)"
    by (auto simp: idle_start_def fresh_mgr_def intro: blank_mgr_inv)
  then show ?case using mgr_threads.pool_inv_idle [of cfg "fst c"] assms(2) by (cases c) simp
next
  case (reach_step c ev c')
  then show ?case by (blast intro: mgr_threads.pool_inv_step)
qed

lemma conc_inv_parts:
  assumes "conc_reach cfg (m, js)" and "cfg_ok cfg"
  shows "mgr_inv cfg m" and "js t = Some j \<Longrightarrow> local_ok cfg m j"
    and "t \<noteq> u \<Longrightarrow> js t = Some i \<Longrightarrow> js u = Some j \<Longrightarrow> owns i \<inter> owns j = {}"
  using conc_inv [OF assms] by (auto simp: mgr_threads.pool_inv_def)

section \<open>Properties\<close>


text \<open>
  C6: a bet has one owner, whatever the calls in progress are: the queue holds each session
  once and only sessions in BET; a session in the hands of a call is in BET or RACING, in no
  queue and in the hands of no other call; and an announced round that a call runs is neither
  queued nor run by another.
\<close>

theorem every_bet_has_one_owner:
  assumes "conc_reach cfg (m, js)" and "cfg_ok cfg"
  shows "distinct (mg_pending m) \<and> (\<forall>p \<in> set (mg_pending m). waiting (mg_heap m p)) \<and>
    (\<forall>t j p. js t = Some j \<and> Inl p \<in> owns j \<longrightarrow>
       ses_State (mg_heap m p) \<in> {SessionBet, SessionRacing} \<and> p \<notin> set (mg_pending m)) \<and>
    (\<forall>t j pr. js t = Some j \<and> Inr pr \<in> owns j \<longrightarrow> pr \<notin> set (mg_pendingRounds m)) \<and>
    (\<forall>t u i j x. js t = Some i \<and> js u = Some j \<and> x \<in> owns i \<and> x \<in> owns j \<longrightarrow> t = u)"
proof (intro conjI allI impI)
  note inv = conc_inv_parts [OF assms]
  show "distinct (mg_pending m)" "\<forall>p \<in> set (mg_pending m). waiting (mg_heap m p)"
    using queue_waiting [OF inv(1)] by auto
  show "t = u" if "js t = Some i \<and> js u = Some j \<and> x \<in> owns i \<and> x \<in> owns j" for t u i j x
    using that inv(3) by blast
  have free: "x \<notin> unowned m" if "js t = Some j" "x \<in> owns j" for t j x
    using owned_stranded [OF inv(2) [OF that(1)]] that(2) by blast
  show "ses_State (mg_heap m p) \<in> {SessionBet, SessionRacing}" "p \<notin> set (mg_pending m)"
    if "js t = Some j \<and> Inl p \<in> owns j" for t j p
    using free [of t j "Inl p"] that by (auto simp: unowned_def stranded_def)
  show "pr \<notin> set (mg_pendingRounds m)" if "js t = Some j \<and> Inr pr \<in> owns j" for t j pr
    using free [of t j "Inr pr"] that by (auto simp: unowned_def)
qed

section \<open>Two callers at once\<close>

text \<open>
  Alice's bet is queued and a run has just taken it, while bob's bet is in his session and not
  yet queued.
\<close>

definition race_mgr0 :: "mock_wallet mgr" where
  "race_mgr0 = blank_mgr (SetBalance ''bob'' 500 (SetBalance ''alice'' 1000 NewMockWallet)) []"

definition race_schedule :: "job pool_event list" where
  "race_schedule = [Begin 0 (JOpen [1] 5 ''alice''), Sched 0, Begin 0 (JOpen [3] 5 ''bob''), Sched 0,
     Begin 1 (JBet [2] 6 6 (newID ''sess_'' [1]) 100), Sched 1, Sched 1, Sched 1, Sched 1,
     Begin 2 (JMint (Inr (replicate 32 7)) 11), Sched 2, Sched 2,
     Begin 1 (JBet [4] 7 7 (newID ''sess_'' [3]) 200), Sched 1, Sched 1, Begin 3 (JRun demo_run_env), Sched 1, Sched 3]"

definition race_pool :: "(job, mock_wallet mgr) pool" where
  "race_pool = snd (the (pool_run (job_step demo_cfg) race_schedule (race_mgr0, \<lambda>_. None)))"

lemma race_pool_run:
  "\<exists>as. pool_run (job_step demo_cfg) race_schedule (race_mgr0, \<lambda>_. None) = Some (as, race_pool) \<and>
    (\<exists>b. snd race_pool 1 = Some (JEnqueue 1 b)) \<and> snd race_pool 3 = Some (JField demo_run_env [0] 0) \<and>
    mg_pending (fst race_pool) = [] \<and> bet_Amount (the (ses_Bet (mg_heap (fst race_pool) 0))) = 100"
  by (simp add: race_pool_def race_schedule_def race_mgr0_def demo_cfg_def blank_mgr_def OpenSession_def Let_def
      bet_lookup_def bet_debit_def bet_place_def mint_select_def mint_announce_def add_round_def run_take_def run_consume_def
      MockWallet_def mock_debit_def SetBalance_def NewMockWallet_def new_session_def session_place_bet_def
      mgr_select_track_def newID_def hex_digit_def)

lemma race_pool_from:
  assumes "ini (race_mgr0, \<lambda>_. None)"
  shows "reach ini (pool_step (job_step demo_cfg) (\<lambda>_. call_enabled)) race_pool"
proof -
  obtain as where run: "pool_run (job_step demo_cfg) race_schedule (race_mgr0, \<lambda>_. None) = Some (as, race_pool)"
    using race_pool_run by blast
  have "call_enabled j" if "Begin t j \<in> set race_schedule" for t j
    using that
    by (auto simp: race_schedule_def call_enabled_def seed_ok_def demo_run_env_def
        intro: exI [of _ "EvOpen [1] 5 ''alice''"] exI [of _ "EvOpen [3] 5 ''bob''"]
          exI [of _ "EvBet [2] 6 6 (newID ''sess_'' [1]) 100"] exI [of _ "EvBet [4] 7 7 (newID ''sess_'' [3]) 200"]
          exI [of _ "EvMint (Inr (replicate 32 7)) 11"] exI [of _ "EvRun demo_run_env"])
  then show ?thesis by (intro pool_run_reach [OF reach_init [where ini = ini, OF assms] run])
qed

lemma race_pool_reach: "conc_reach demo_cfg race_pool"
  by (rule race_pool_from) (auto simp: idle_start_def fresh_mgr_def race_mgr0_def)


theorem every_bet_has_one_owner_witness:
  "ses_State (mg_heap (fst race_pool) 1) \<in> {SessionBet, SessionRacing} \<and> 0 \<notin> set (mg_pendingRounds (fst race_pool))"
proof -
  obtain b where jobs: "snd race_pool 1 = Some (JEnqueue 1 b)" "snd race_pool 3 = Some (JField demo_run_env [0] 0)"
    using race_pool_run by blast
  have "conc_reach demo_cfg (fst race_pool, snd race_pool)" using race_pool_reach by simp
  note owner = every_bet_has_one_owner [OF this demo_cfg_ok]
  from owner jobs(1) have "ses_State (mg_heap (fst race_pool) 1) \<in> {SessionBet, SessionRacing}"
    by (metis insertI1 owns.simps(1))
  moreover from owner jobs(2) have "0 \<notin> set (mg_pendingRounds (fst race_pool))" 
    by (metis insertI1 owns.simps(4))
  ultimately show ?thesis by blast
qed

end
