(* ===== verification/Manager_Flight.thy ===== *)
theory Manager_Flight
  imports Manager_Threads Manager_Round "HOL-Library.Sublist"
begin

text \<open>
  A round in flight (server/rgs/manager.go, \<open>RunNextRound\<close> with other calls in between): from
  the moment it has taken its queue, what it settles depends on the bets it took, on the
  announcement and on the simulator, and on nothing the other calls do; and so does what its own
  sections pay and settle.
\<close>

section \<open>What the run has done so far\<close>

text \<open>The results the run owes: fixed by the state \<open>m0\<close> in which it took its bets.\<close>

definition owed :: "run_env \<Rightarrow> int \<Rightarrow> u64 \<Rightarrow> nat list \<Rightarrow> 'w mgr \<Rightarrow> nat \<Rightarrow> settlement_outcome" where
  "owed env winner prize ps m0 k = bet_result env winner prize k (mg_heap m0 (ps ! k))"

definition field_of :: "'w mgr_config \<Rightarrow> run_env \<Rightarrow> nat list \<Rightarrow> nat \<Rightarrow> 'w mgr \<Rightarrow> byte list \<Rightarrow> round_state" where
  "field_of cfg env ps pr m0 seed =
     field_round cfg env (pr_spec (mg_rounds m0 pr)) seed (map (\<lambda>p. ses_PlayerID (mg_heap m0 p)) ps)"

definition raced_ok :: "'w mgr_config \<Rightarrow> run_env \<Rightarrow> nat list \<Rightarrow> nat \<Rightarrow> 'w mgr \<Rightarrow> byte list \<Rightarrow> raced_round \<Rightarrow> bool" where
  "raced_ok cfg env ps pr m0 seed R \<longleftrightarrow> rc_env R = env \<and> rc_round R = pr \<and>
     run_race cfg env (pr_spec (mg_rounds m0 pr)) seed (field_of cfg env ps pr m0 seed) =
       Inr (rc_sim R, rc_state R, rc_seed R) \<and>
     (\<exists>cut. settle \<lparr>RTPBasisPoints = cfg_RTPBps cfg\<rparr> (replicate (nat (cfg_MaxMarbles cfg)) (cfg_BuyIn cfg))
        (sim_WinnerMarbleIndex (rc_sim R)) = Inr (rc_prize R, cut)) \<and>
     int (length ps) \<le> cfg_MaxMarbles cfg"

definition owed_by :: "raced_round \<Rightarrow> nat list \<Rightarrow> 'w mgr \<Rightarrow> nat \<Rightarrow> settlement_outcome" where
  "owed_by R ps m0 = owed (rc_env R) (sim_WinnerMarbleIndex (rc_sim R)) (rc_prize R) ps m0"

definition manifest_ok :: "raced_round \<Rightarrow> 'w mgr \<Rightarrow> manifest \<Rightarrow> bool" where
  "manifest_ok R m0 mf \<longleftrightarrow> (\<exists>fs fs'. persist_round (rc_env R)
     (manifest_of (pr_spec (mg_rounds m0 (rc_round R))) (rc_state R) (rc_seed R) (rc_sim R))
     (sim_ReplayPath (rc_sim R)) fs = (Inr mf, fs'))"

text \<open>The sessions from place \<open>n\<close> on wait with their marble.\<close>

definition raced_from :: "run_env \<Rightarrow> nat list \<Rightarrow> 'w mgr \<Rightarrow> nat \<Rightarrow> 'w mgr \<Rightarrow> bool" where
  "raced_from env ps m0 n m \<longleftrightarrow>
     (\<forall>k < length ps. n \<le> k \<longrightarrow> mg_heap m (ps ! k) = raced (re_assign env) (int k) (mg_heap m0 (ps ! k)))"

definition assigned_to :: "run_env \<Rightarrow> nat list \<Rightarrow> 'w mgr \<Rightarrow> nat \<Rightarrow> 'w mgr \<Rightarrow> bool" where
  "assigned_to env ps m0 n m \<longleftrightarrow>
     (\<forall>k < length ps. mg_heap m (ps ! k) =
        (if k < n then raced (re_assign env) (int k) (mg_heap m0 (ps ! k)) else mg_heap m0 (ps ! k)))"

fun flight :: "'w mgr_config \<Rightarrow> run_env \<Rightarrow> nat list \<Rightarrow> nat \<Rightarrow> 'w mgr \<Rightarrow> byte list \<Rightarrow> 'w mgr \<Rightarrow> job \<Rightarrow> bool" where
  "flight cfg env ps pr m0 seed m (JField env' ps' pr') = (env' = env \<and> ps' = ps \<and> pr' = pr \<and> assigned_to env ps m0 0 m)"
| "flight cfg env ps pr m0 seed m (JAssign env' ps' pr' seed' r i todo) =
     (env' = env \<and> ps' = ps \<and> pr' = pr \<and> seed' = seed \<and> r = field_of cfg env ps pr m0 seed \<and>
      int (length ps) \<le> cfg_MaxMarbles cfg \<and>
      (\<exists>n \<le> length ps. i = int n \<and> todo = drop n ps \<and> assigned_to env ps m0 n m))"
| "flight cfg env ps pr m0 seed m (JRace env' ps' pr' seed' r) =
     (env' = env \<and> ps' = ps \<and> pr' = pr \<and> seed' = seed \<and> r = field_of cfg env ps pr m0 seed \<and>
      int (length ps) \<le> cfg_MaxMarbles cfg \<and> raced_from env ps m0 0 m)"
| "flight cfg env ps pr m0 seed m (JCredit R outs todo) =
     (raced_ok cfg env ps pr m0 seed R \<and> (\<exists>n \<le> length ps. todo = drop n ps \<and>
        outs = map (owed_by R ps m0) [0..<n] \<and> raced_from env ps m0 n m))"
| "flight cfg env ps pr m0 seed m (JSettle R outs out p todo) =
     (raced_ok cfg env ps pr m0 seed R \<and> (\<exists>n < length ps. p # todo = drop n ps \<and>
        outs @ [out] = map (owed_by R ps m0) [0..<Suc n] \<and> raced_from env ps m0 n m))"
| "flight cfg env ps pr m0 seed m (JSave R outs) =
     (raced_ok cfg env ps pr m0 seed R \<and> outs = map (owed_by R ps m0) [0..<length ps])"
| "flight cfg env ps pr m0 seed m (JRbets R mf outs rbs bs) =
     (raced_ok cfg env ps pr m0 seed R \<and> outs = map (owed_by R ps m0) [0..<length ps] \<and> manifest_ok R m0 mf \<and>
      (\<exists>bets. prefix (pr_bets (mg_rounds m0 pr)) bets \<and>
         rbs @ map (round_outcome (sim_WinnerMarbleIndex (rc_sim R))) bs =
           map (round_outcome (sim_WinnerMarbleIndex (rc_sim R))) bets))"
| "flight cfg env ps pr m0 seed m (JTrack R mf outs rbs) =
     (raced_ok cfg env ps pr m0 seed R \<and> outs = map (owed_by R ps m0) [0..<length ps] \<and> manifest_ok R m0 mf \<and>
      (\<exists>bets. prefix (pr_bets (mg_rounds m0 pr)) bets \<and>
         rbs = map (round_outcome (sim_WinnerMarbleIndex (rc_sim R))) bets))"
| "flight cfg env ps pr m0 seed m _ = False"

text \<open>The announcement stays, and its bets only get more.\<close>

definition grown :: "nat \<Rightarrow> 'w mgr \<Rightarrow> 'w mgr \<Rightarrow> bool" where
  "grown pr m m' \<longleftrightarrow> pr_spec (mg_rounds m' pr) = pr_spec (mg_rounds m pr) \<and>
     prefix (pr_bets (mg_rounds m pr)) (pr_bets (mg_rounds m' pr)) \<and> mg_nextRound m \<le> mg_nextRound m'"

lemma grown_refl [simp]: "grown pr m m"
  by (simp add: grown_def)

lemma grown_trans: "grown pr m m' \<Longrightarrow> grown pr m' m'' \<Longrightarrow> grown pr m m''"
  by (auto simp: grown_def intro: prefix_order.trans)

lemma job_step_grown:
  assumes st: "job_step cfg j m = Some (r, m')" and "pr < mg_nextRound m"
  shows "grown pr m m'"
  using assms by (cases "(cfg, j, m)" rule: job_step.cases) (auto simp: grown_def section_defs split: section_splits)

section \<open>The other calls leave it alone\<close>

lemma nth_in_drop: "k < length xs \<Longrightarrow> n \<le> k \<Longrightarrow> xs ! k \<in> set (drop n xs)"
  by (auto simp: in_set_conv_nth intro!: exI [of _ "k - n"])

lemma kept_session:
  assumes "local_ok cfg m j" and "keeps cfg S m m'" and "owns j \<inter> S = {}" and "Inl p \<in> owns j"
  shows "mg_heap m' p = mg_heap m p"
proof -
  have "stranded p m" using owned_stranded [OF assms(1)] assms(4) by (auto simp: unowned_def)
  then show ?thesis using keeps_stranded [OF assms(2)] assms(3,4) by blast
qed

lemma flight_kept:
  assumes fl: "flight cfg env ps pr m0 seed m j" and loc: "local_ok cfg m j"
    and k: "keeps cfg S m m'" "owns j \<inter> S = {}"
  shows "flight cfg env ps pr m0 seed m' j"
proof -
  have same: "mg_heap m' p = mg_heap m p" if "Inl p \<in> owns j" for p
    using kept_session [OF loc k that] .
  have ass: "assigned_to env ps m0 n m'" if "assigned_to env ps m0 n m" "Inl ` set ps \<subseteq> owns j" for n
    using that same by (simp add: assigned_to_def image_subset_iff)
  have rac: "raced_from env ps m0 n m'" if "raced_from env ps m0 n m" "Inl ` set (drop n ps) \<subseteq> owns j" for n
    using that same nth_in_drop [of _ ps n] by (simp add: raced_from_def image_subset_iff)
  show ?thesis
  proof (cases j)
    case (JCredit R outs todo)
    with fl rac show ?thesis by fastforce
  next
    case (JSettle R outs out p todo)
    with fl obtain n where n: "n < length ps" "p # todo = drop n ps" "outs @ [out] = map (owed_by R ps m0) [0..<Suc n]"
      "raced_from env ps m0 n m" "raced_ok cfg env ps pr m0 seed R" by auto
    have "raced_from env ps m0 n m'" using rac [OF n(4)] by (auto simp: JSettle n(2) [symmetric])
    with n JSettle show ?thesis by (auto simp del: upt_Suc)
  next
    case (JAssign env' ps' pr' seed' r i todo)
    with fl ass show ?thesis by fastforce
  next
    case (JRace env' ps' pr' seed' r)
    with fl rac show ?thesis by fastforce
  next
    case (JField env' ps' pr')
    with fl ass show ?thesis by fastforce
  qed (use fl in auto)
qed

section \<open>Its own sections\<close>

lemma flight_field:
  assumes inv: "mgr_inv cfg m" and cfg: "cfg_ok cfg" and loc: "local_ok cfg m (JField env ps pr)"
    and spec: "pr_spec (mg_rounds m pr) = pr_spec (mg_rounds m0 pr)" "length seed = 32"
      "sp_ServerSeedHex (pr_spec (mg_rounds m0 pr)) = hex_encode seed"
    and fl: "assigned_to env ps m0 0 m" and st: "run_field cfg env ps pr m = Next j'"
  shows "flight cfg env ps pr m0 seed m j'"
proof -
  have same: "map (\<lambda>p. ses_PlayerID (mg_heap m p)) ps = map (\<lambda>p. ses_PlayerID (mg_heap m0 p)) ps"
    using fl by (intro nth_equalityI) (simp_all add: assigned_to_def)
  have "[] \<notin> set (map (\<lambda>p. ses_PlayerID (mg_heap m p)) ps)"
    using loc inv by (force simp: all_in_def stranded_def mgr_inv_def heap_ok_def)
  then have "build_round cfg env (pr_spec (mg_rounds m0 pr)) seed (map (\<lambda>p. ses_PlayerID (mg_heap m p)) ps) =
      (if int (length ps) \<le> cfg_MaxMarbles cfg then Inr (field_of cfg env ps pr m0 seed)
       else Inl (Wrapf ''rgs: add bettor'' (Sentinel (RoundErr ErrRoundFull))))"
    using build_round_eq [of "map (\<lambda>p. ses_PlayerID (mg_heap m p)) ps" cfg env] cfg
    by (simp add: cfg_ok_def field_of_def same)
  with st spec fl show ?thesis
    by (auto simp: run_field_def Let_def seed32_id split: if_splits)
qed

lemma flight_assign:
  assumes loc: "local_ok cfg m (JAssign env ps pr seed r i (p # todo))"
    and fl: "i = int n" "p # todo = drop n ps" "assigned_to env ps m0 n m"
    and st: "job_step cfg (JAssign env ps pr seed r i (p # todo)) m = Some (Next j', m')"
  shows "j' = JAssign env ps pr seed r (int (Suc n)) (drop (Suc n) ps) \<and> assigned_to env ps m0 (Suc n) m' \<and> n < length ps"
proof -
  have n: "n < length ps" using fl(2) by (metis drop_all leI list.distinct(1))
  then have p: "p = ps ! n" "todo = drop (Suc n) ps" using fl(2) by (simp_all add: Cons_nth_drop_Suc [symmetric])
  have w: "waiting (mg_heap m p)" "distinct ps" using loc by (auto simp: all_in_def)
  then have as: "session_assign_marble (re_assign env) i (mg_heap m p) = (None, raced (re_assign env) i (mg_heap m p))"
    by (auto simp: session_assign_marble_def raced_def waiting_def split: option.split)
  have h: "mg_heap m p = mg_heap m0 p" using fl(3) n p(1) by (simp add: assigned_to_def)
  have "assigned_to env ps m0 (Suc n) (m\<lparr>mg_heap := (mg_heap m)(p := raced (re_assign env) i (mg_heap m p))\<rparr>)"
    using fl(1,3) n p(1) h w(2) by (auto simp: assigned_to_def less_Suc_eq nth_eq_iff_index_eq)
  with st as fl(1) p(2) n show ?thesis by (auto simp: add.commute)
qed

lemma raced_bet_at:
  assumes "raced_from env ps m0 n m" and "n < length ps" and "ses_Bet (mg_heap m (ps ! n)) = Some b"
  shows "session_outcome (re_settle env) winner prize b = owed env winner prize ps m0 n"
  using assms by (auto simp: raced_from_def owed_def bet_result_def)

lemma flight_settle:
  assumes loc: "local_ok cfg m (JSettle R outs out p todo)"
    and fl: "n < length ps" "p # todo = drop n ps" "raced_from env ps m0 n m"
    and st: "settle_session R outs out p todo m = (Next j', m')"
  shows "j' = JCredit R (outs @ [out]) (drop (Suc n) ps) \<and> raced_from env ps m0 (Suc n) m'"
proof -
  have p: "p = ps ! n" "todo = drop (Suc n) ps" using fl(1,2) by (simp_all add: Cons_nth_drop_Suc [symmetric])
  have "ps ! k \<noteq> p" if "k < length ps" "Suc n \<le> k" for k
  proof -
    have "ps ! k \<in> set todo" unfolding p(2) using that by (rule nth_in_drop)
    moreover have "p \<notin> set todo" using loc by (simp add: all_in_def)
    ultimately show ?thesis by blast
  qed
  with st fl(3) p(2) show ?thesis
    by (auto simp: settle_session_def raced_from_def split: prod.splits option.splits)
qed

text \<open>What the flight assumes of the state besides the job.\<close>

definition on_course :: "'w mgr_config \<Rightarrow> run_env \<Rightarrow> nat list \<Rightarrow> nat \<Rightarrow> 'w mgr \<Rightarrow> byte list \<Rightarrow> 'w mgr \<Rightarrow> job \<Rightarrow> bool" where
  "on_course cfg env ps pr m0 seed m j \<longleftrightarrow> grown pr m0 m \<and> flight cfg env ps pr m0 seed m j"

lemma flight_next:
  assumes inv: "mgr_inv cfg m" and cfg: "cfg_ok cfg" and loc: "local_ok cfg m j"
    and spec: "length seed = 32" "sp_ServerSeedHex (pr_spec (mg_rounds m0 pr)) = hex_encode seed"
    and gr: "grown pr m0 m" and fl: "flight cfg env ps pr m0 seed m j" and st: "job_step cfg j m = Some (Next j', m')"
  shows "flight cfg env ps pr m0 seed m' j'"
proof -
  have sp: "pr_spec (mg_rounds m pr) = pr_spec (mg_rounds m0 pr)" and bets: "prefix (pr_bets (mg_rounds m0 pr)) (pr_bets (mg_rounds m pr))"
    using gr by (simp_all add: grown_def)
  show ?thesis
  proof (cases j)
    case (JField env' ps' pr')
    with fl st loc flight_field [OF inv cfg _ sp spec] show ?thesis by auto
  next
    case (JAssign env' ps' pr' seed' r i todo)
    with fl obtain n where n: "n \<le> length ps" "i = int n" "todo = drop n ps" "assigned_to env ps m0 n m"
      and j: "j = JAssign env ps pr seed (field_of cfg env ps pr m0 seed) i todo" "int (length ps) \<le> cfg_MaxMarbles cfg" by auto
    show ?thesis
    proof (cases todo)
      case Nil
      then have "n = length ps" using n(1,3) by simp
      with n(4) have "raced_from env ps m0 0 m" by (simp add: raced_from_def assigned_to_def)
      with st j Nil show ?thesis by auto
    next
      case (Cons p rest)
      from flight_assign [OF loc [unfolded j(1) Cons] n(2) n(3) [unfolded Cons] n(4) st [unfolded j(1) Cons]] j(2)
      show ?thesis by (auto simp del: of_nat_Suc intro: exI [of _ "Suc n"])
    qed
  next
    case (JRace env' ps' pr' seed' r)
    with fl st sp show ?thesis
      by (auto simp: run_racing_def raced_ok_def split: sum.splits)
  next
    case (JCredit R outs todo)
    with fl obtain n where n: "n \<le> length ps" "todo = drop n ps" "outs = map (owed_by R ps m0) [0..<n]" "raced_from env ps m0 n m"
      and R: "raced_ok cfg env ps pr m0 seed R" by auto
    show ?thesis
    proof (cases todo)
      case Nil
      with st JCredit n R show ?thesis by auto
    next
      case (Cons p rest)
      then have lt: "n < length ps" using n(2) by (metis drop_all leI list.distinct(1))
      then have p: "p = ps ! n" "rest = drop (Suc n) ps" using n(2) Cons by (simp_all add: Cons_nth_drop_Suc [symmetric])
      obtain b where b: "ses_Bet (mg_heap m p) = Some b" using st JCredit Cons by (auto simp: settle_credit_def split: option.splits)
      have env: "rc_env R = env" using R by (simp add: raced_ok_def)
      have out: "session_outcome (re_settle (rc_env R)) (sim_WinnerMarbleIndex (rc_sim R)) (rc_prize R) b = owed_by R ps m0 n"
        using raced_bet_at [OF n(4) lt] b p(1) by (simp add: owed_by_def env)
      then have "j' = JSettle R outs (owed_by R ps m0 n) p rest \<and> mg_heap m' = mg_heap m"
        using st JCredit Cons b by (auto simp: settle_credit_def Let_def split: prod.splits option.splits if_splits)
      with R lt n Cons show ?thesis by (auto simp: raced_from_def intro!: exI [of _ n])
    qed
  next
    case (JSettle R outs out p todo)
    with fl obtain n where n: "n < length ps" "p # todo = drop n ps" "outs @ [out] = map (owed_by R ps m0) [0..<Suc n]"
      "raced_from env ps m0 n m" and R: "raced_ok cfg env ps pr m0 seed R" by auto
    have "settle_session R outs out p todo m = (Next j', m')" using st JSettle by simp
    from flight_settle [OF loc [unfolded JSettle] n(1,2,4) this] R n(1,3) show ?thesis
      by (auto simp del: upt_Suc intro!: exI [of _ "Suc n"])
  next
    case (JSave R outs)
    with fl st sp bets show ?thesis
      by (auto simp: run_save_def manifest_ok_def raced_ok_def split: prod.splits sum.splits; blast)
  next
    case (JRbets R mf outs rbs bs)
    with fl st show ?thesis
      by (cases bs) (auto simp: rb_settle_def Let_def split: prod.splits option.splits if_splits)
  qed (use fl st in auto)
qed

section \<open>From the queue to the answer\<close>

text \<open>The calls of a thread that begins nothing new: \<open>t\<close> goes on with the call it is in.\<close>

abbreviation rest_of :: "'w mgr_config \<Rightarrow> nat \<Rightarrow> (job, 'w mgr) pool \<Rightarrow> (job, 'w mgr) pool \<Rightarrow> bool" where
  "rest_of cfg t c0 \<equiv> reach (\<lambda>c. c = c0) (pool_step (job_step cfg) (\<lambda>u j. u \<noteq> t \<and> call_enabled j))"

definition course_inv :: "'w mgr_config \<Rightarrow> run_env \<Rightarrow> nat list \<Rightarrow> nat \<Rightarrow> 'w mgr \<Rightarrow> byte list \<Rightarrow> nat \<Rightarrow> (job, 'w mgr) pool \<Rightarrow> bool" where
  "course_inv cfg env ps pr m0 seed t c \<longleftrightarrow> mgr_threads.pool_inv cfg c \<and> grown pr m0 (fst c) \<and>
     (\<forall>j. snd c t = Some j \<longrightarrow> flight cfg env ps pr m0 seed (fst c) j)"

lemma course_step:
  assumes inv: "course_inv cfg env ps pr m0 seed t c"
    and spec: "pr < mg_nextRound m0" "length seed = 32" "sp_ServerSeedHex (pr_spec (mg_rounds m0 pr)) = hex_encode seed"
    and st: "pool_step (job_step cfg) (\<lambda>u j. u \<noteq> t \<and> call_enabled j) c ev c'"
  shows "course_inv cfg env ps pr m0 seed t c'"
proof -
  obtain m js where c: "c = (m, js)" by (cases c)
  have pool: "mgr_threads.pool_inv cfg (m, js)" "mgr_threads.pool_inv cfg c'"
    using inv st mgr_threads.pool_inv_step [of cfg c _ ev c'] by (auto simp: course_inv_def c)
  obtain a where ap: "pool_apply (job_step cfg) ev (m, js) = Some (a, c')" using st c by (auto simp: pool_step_def)
  have gr: "grown pr m0 m" and fl: "\<And>j. js t = Some j \<Longrightarrow> flight cfg env ps pr m0 seed m j"
    using inv by (auto simp: course_inv_def c)
  show ?thesis
  proof (cases ev)
    case (Begin u j)
    then have "u \<noteq> t" using st by (auto simp: pool_step_def)
    with Begin ap gr fl pool(2) show ?thesis by (auto simp: course_inv_def split: if_splits)
  next
    case (Sched u)
    show ?thesis
    proof (cases "js u")
      case None
      with Sched ap gr fl pool(2) show ?thesis by (auto simp: course_inv_def)
    next
      case (Some j)
      obtain r m' where js: "job_step cfg j m = Some (r, m')" using Sched ap Some by (auto split: option.splits)
      have c': "c' = (m', js(u := (case r of Next j' \<Rightarrow> Some j' | Ret b \<Rightarrow> None)))"
        using ap Sched Some js by (auto split: progress.splits)
      have facts: "cfg_ok cfg" "mgr_inv cfg m" "\<And>u j. js u = Some j \<Longrightarrow> local_ok cfg m j"
        "\<And>u v i j. u \<noteq> v \<Longrightarrow> js u = Some i \<Longrightarrow> js v = Some j \<Longrightarrow> owns i \<inter> owns j = {}"
        using pool(1) by (auto simp: mgr_threads.pool_inv_def)
      have "pr < mg_nextRound m" using gr spec(1) by (simp add: grown_def)
      then have gr': "grown pr m0 m'" using grown_trans [OF gr] job_step_grown [OF js] by blast
      have "flight cfg env ps pr m0 seed m' i" if i: "snd c' t = Some i" for i
      proof (cases "u = t")
        case True
        with c' i have "r = Next i" by (auto split: progress.splits)
        with flight_next [OF facts(2,1) facts(3) [OF Some] spec(2,3) gr fl] js Some True show ?thesis by blast
      next
        case False
        then have it: "js t = Some i" using c' i by simp
        have "keeps cfg (owns j) m m'" using job_step_facts [OF facts(2,1) facts(3) [OF Some] js] by (simp add: step_ok_def)
        with flight_kept [OF fl [OF it] facts(3) [OF it]] facts(4) [OF _ it Some] False show ?thesis by blast
      qed
      with gr' pool(2) show ?thesis by (simp add: course_inv_def c')
    qed
  qed
qed

lemma course_reach:
  assumes "conc_reach cfg (m0, js0)" and "cfg_ok cfg" and "js0 t = Some (JField env ps pr)"
    and "rest_of cfg t (m0, js0) c"
  shows "\<exists>seed. length seed = 32 \<and> sp_ServerSeedHex (pr_spec (mg_rounds m0 pr)) = hex_encode seed \<and>
    course_inv cfg env ps pr m0 seed t c"
proof -
  have "round_entry_ok cfg m0 pr"
    using conc_inv_parts(2) [OF assms(1,2,3)] by (simp add: round_taken_def)
  then obtain seed where seed: "pr < mg_nextRound m0" "length seed = 32" "sp_ServerSeedHex (pr_spec (mg_rounds m0 pr)) = hex_encode seed"
    by (auto simp: round_entry_ok_def)
  have "course_inv cfg env ps pr m0 seed t c"
    using assms(4)
  proof (induction rule: reach.induct)
    case (reach_init c)
    then show ?case
      using conc_inv [OF assms(1,2)] assms(3) by (simp add: course_inv_def assigned_to_def)
  next
    case (reach_step c ev c')
    then show ?case using course_step [OF _ seed] by blast
  qed
  with seed show ?thesis by blast
qed

lemma answered_by_track:
  assumes "job_step cfg j m = Some (Ret (AnsRun (Inr (mf, outs, rbs))), m')" and "flight cfg env ps pr m0 seed m j"
  shows "\<exists>R. j = JTrack R mf outs rbs"
  using assms by (cases "(cfg, j, m)" rule: job_step.cases) (auto simp: section_defs split: section_splits)

section \<open>What its sections pay and settle\<close>

text \<open>The states of the manager before and after each section of a thread, along a schedule.\<close>

fun sections_of :: "'w mgr_config \<Rightarrow> nat \<Rightarrow> job pool_event list \<Rightarrow> (job, 'w mgr) pool \<Rightarrow> ('w mgr \<times> 'w mgr) list" where
  "sections_of cfg t [] c = []"
| "sections_of cfg t (ev # evs) c =
     (case pool_apply (job_step cfg) ev c of
        None \<Rightarrow> []
      | Some (a, c') \<Rightarrow> (if ev = Sched t \<and> snd c t \<noteq> None then [(fst c, fst c')] else []) @ sections_of cfg t evs c')"

lemma sections_of_snoc:
  "pool_run (job_step cfg) evs c = Some (as, c1) \<Longrightarrow>
   sections_of cfg t (evs @ [ev]) c = sections_of cfg t evs c @ sections_of cfg t [ev] c1"
  by (induction evs arbitrary: c as) (auto split: option.splits)

text \<open>
  The credits that a run of sections makes: each section either leaves the wallet as it is or is one
  acknowledged credit, in this order.
\<close>

type_synonym credit = "string \<times> u64 \<times> string"

inductive credits_made :: "'w wallet \<Rightarrow> credit list \<Rightarrow> ('w mgr \<times> 'w mgr) list \<Rightarrow> bool" for W where
  nothing: "credits_made W [] []"
| idle: "credits_made W cs ms \<Longrightarrow> mg_wallet m' = mg_wallet m \<Longrightarrow> credits_made W cs (ms @ [(m, m')])"
| paid: "credits_made W cs ms \<Longrightarrow> w_Credit W pl a tx (mg_wallet m) = (None, mg_wallet m') \<Longrightarrow>
    credits_made W (cs @ [(pl, a, tx)]) (ms @ [(m, m')])"

text \<open>The sessions it settles: each section settles no session or takes one from RACING to SETTLED with its result.\<close>

inductive settlements_made :: "(nat \<times> settlement_outcome) list \<Rightarrow> ('w mgr \<times> 'w mgr) list \<Rightarrow> bool" where
  nothing: "settlements_made [] []"
| idle: "settlements_made ss ms \<Longrightarrow> (\<And>p. ses_State (mg_heap m' p) = SessionSettled \<Longrightarrow> mg_heap m' p = mg_heap m p) \<Longrightarrow>
    settlements_made ss (ms @ [(m, m')])"
| settled: "settlements_made ss ms \<Longrightarrow> ses_State (mg_heap m p) = SessionRacing \<Longrightarrow> mg_heap m' = (mg_heap m)(p := s) \<Longrightarrow>
    ses_State s = SessionSettled \<Longrightarrow> ses_Bet s = None \<Longrightarrow> ses_LastResult s = Some out \<Longrightarrow>
    settlements_made (ss @ [(p, out)]) (ms @ [(m, m')])"

text \<open>What the winners are due: the prize of a session, the payout of a bet on the round.\<close>

definition session_credits :: "string list \<Rightarrow> settlement_outcome list \<Rightarrow> credit list" where
  "session_credits names outs =
     concat (map (\<lambda>(pl, out). if so_Won out then [(pl, so_PrizeAmount out, so_CreditTxID out)] else []) (zip names outs))"

definition round_credits :: "'w mgr_config \<Rightarrow> int \<Rightarrow> round_bet list \<Rightarrow> credit list" where
  "round_credits cfg winner bets =
     map (\<lambda>b. (rb_PlayerID b, payout_units (cfg_oor cfg) (rb_Amount b), rb_BetID b @ '':credit''))
       (filter (\<lambda>b. rb_MarbleIdx b = winner) bets)"


lemma zip_snoc: "length ys < length xs \<Longrightarrow> zip xs (ys @ [y]) = zip xs ys @ [(xs ! length ys, y)]"
proof (induction ys arbitrary: xs)
  case Nil
  then show ?case by (cases xs) auto
next
  case (Cons z ys)
  then show ?case by (cases xs) auto
qed

lemma session_credits_snoc:
  "length outs < length names \<Longrightarrow> session_credits names (outs @ [out]) = session_credits names outs @
     (if so_Won out then [(names ! length outs, so_PrizeAmount out, so_CreditTxID out)] else [])"
  by (simp add: session_credits_def zip_snoc)

lemma round_credits_simps [simp]:
  "round_credits cfg winner [] = []"
  "round_credits cfg winner (bets @ [b]) = round_credits cfg winner bets @
     (if rb_MarbleIdx b = winner then [(rb_PlayerID b, payout_units (cfg_oor cfg) (rb_Amount b), rb_BetID b @ '':credit'')] else [])"
  by (simp_all add: round_credits_def)

text \<open>What a run has paid and settled when it is at a given point.\<close>

definition names_of :: "nat list \<Rightarrow> 'w mgr \<Rightarrow> string list" where
  "names_of ps m0 = map (\<lambda>p. ses_PlayerID (mg_heap m0 p)) ps"

fun accounted :: "'w mgr_config \<Rightarrow> nat list \<Rightarrow> nat \<Rightarrow> 'w mgr \<Rightarrow> job \<Rightarrow> credit list \<Rightarrow> (nat \<times> settlement_outcome) list \<Rightarrow> bool" where
  "accounted cfg ps pr m0 (JCredit R outs todo) cs ss = (cs = session_credits (names_of ps m0) outs \<and> ss = zip ps outs)"
| "accounted cfg ps pr m0 (JSettle R outs out p todo) cs ss =
     (cs = session_credits (names_of ps m0) (outs @ [out]) \<and> ss = zip ps outs)"
| "accounted cfg ps pr m0 (JSave R outs) cs ss = (cs = session_credits (names_of ps m0) outs \<and> ss = zip ps outs)"
| "accounted cfg ps pr m0 (JRbets R mf outs rbs bs) cs ss =
     (\<exists>don. cs = session_credits (names_of ps m0) outs @ round_credits cfg (sim_WinnerMarbleIndex (rc_sim R)) don \<and>
        ss = zip ps outs \<and> rbs = map (round_outcome (sim_WinnerMarbleIndex (rc_sim R))) don \<and>
        prefix (pr_bets (mg_rounds m0 pr)) (don @ bs))"
| "accounted cfg ps pr m0 (JTrack R mf outs rbs) cs ss =
     (\<exists>don. cs = session_credits (names_of ps m0) outs @ round_credits cfg (sim_WinnerMarbleIndex (rc_sim R)) don \<and>
        ss = zip ps outs \<and> rbs = map (round_outcome (sim_WinnerMarbleIndex (rc_sim R))) don \<and>
        prefix (pr_bets (mg_rounds m0 pr)) don)"
| "accounted cfg ps pr m0 _ cs ss = (cs = [] \<and> ss = [])"

definition account :: "'w mgr_config \<Rightarrow> nat list \<Rightarrow> nat \<Rightarrow> 'w mgr \<Rightarrow> job \<Rightarrow> ('w mgr \<times> 'w mgr) list \<Rightarrow> bool" where
  "account cfg ps pr m0 j ms \<longleftrightarrow> (\<exists>cs ss. accounted cfg ps pr m0 j cs ss \<and> credits_made (cfg_Wallet cfg) cs ms \<and> settlements_made ss ms)"

lemma account_idle:
  assumes "account cfg ps pr m0 j ms" and "mg_wallet m' = mg_wallet m"
    and "\<And>p. ses_State (mg_heap m' p) = SessionSettled \<Longrightarrow> mg_heap m' p = mg_heap m p"
    and "\<And>cs ss. accounted cfg ps pr m0 j cs ss \<Longrightarrow> accounted cfg ps pr m0 j' cs ss"
  shows "account cfg ps pr m0 j' (ms @ [(m, m')])"
  using assms unfolding account_def by (meson credits_made.idle settlements_made.idle)

lemma account_credit:
  assumes "settle_credit cfg R outs p todo m = Some (Next j', m')" and "length outs < length ps"
    and "ses_PlayerID (mg_heap m p) = names_of ps m0 ! length outs"
    and acc: "account cfg ps pr m0 (JCredit R outs (p # todo)) ms"
  shows "account cfg ps pr m0 j' (ms @ [(m, m')])"
proof -
  have cs: "credits_made (cfg_Wallet cfg) (session_credits (names_of ps m0) outs) ms"
    and ss: "settlements_made (zip ps outs) ms" using acc by (simp_all add: account_def)
  obtain b where b: "ses_Bet (mg_heap m p) = Some b" using assms(1) by (auto simp: settle_credit_def split: option.splits)
  let ?out = "session_outcome (re_settle (rc_env R)) (sim_WinnerMarbleIndex (rc_sim R)) (rc_prize R) b"
  have j': "j' = JSettle R outs ?out p todo" and heap: "mg_heap m' = mg_heap m"
    and pay: "if so_Won ?out then w_Credit (cfg_Wallet cfg) (names_of ps m0 ! length outs) (so_PrizeAmount ?out) (so_CreditTxID ?out)
        (mg_wallet m) = (None, mg_wallet m') else mg_wallet m' = mg_wallet m"
    using assms(1,3) b by (auto simp: settle_credit_def Let_def split: prod.splits option.splits if_splits)
  have "credits_made (cfg_Wallet cfg) (session_credits (names_of ps m0) (outs @ [?out])) (ms @ [(m, m')])"
    using pay assms(2) cs by (auto simp: session_credits_snoc names_of_def intro: credits_made.intros)
  moreover have "settlements_made (zip ps outs) (ms @ [(m, m')])" using ss heap by (intro settlements_made.idle) simp_all
  ultimately show ?thesis by (simp add: account_def j')
qed

lemma account_settle:
  assumes "settle_session R outs out p todo m = (Next j', m')" and "length outs < length ps" and "p = ps ! length outs"
    and acc: "account cfg ps pr m0 (JSettle R outs out p todo) ms"
  shows "account cfg ps pr m0 j' (ms @ [(m, m')])"
proof -
  have cs: "credits_made (cfg_Wallet cfg) (session_credits (names_of ps m0) (outs @ [out])) ms"
    and ss: "settlements_made (zip ps outs) ms" using acc by (simp_all add: account_def)
  obtain s where s: "session_settle (re_settle (rc_env R)) out (mg_heap m p) = (None, s)"
    and m': "m' = m\<lparr>mg_heap := (mg_heap m)(p := s)\<rparr>" and j': "j' = JCredit R (outs @ [out]) todo"
    using assms(1) by (auto simp: settle_session_def split: prod.splits option.splits)
  have "settlements_made (zip ps outs @ [(p, out)]) (ms @ [(m, m')])"
    by (rule settlements_made.settled [OF ss, where s = s])
      (use s m' in \<open>auto simp: session_settle_def split: if_splits\<close>)
  moreover have "credits_made (cfg_Wallet cfg) (session_credits (names_of ps m0) (outs @ [out])) (ms @ [(m, m')])"
    using cs m' by (intro credits_made.idle) simp_all
  ultimately show ?thesis using assms(2,3) by (simp add: account_def j' zip_snoc)
qed

lemma account_payout:
  assumes "rb_settle cfg R mf outs rbs b bs m = (Next j', m')" and acc: "account cfg ps pr m0 (JRbets R mf outs rbs (b # bs)) ms"
  shows "account cfg ps pr m0 j' (ms @ [(m, m')])"
proof -
  let ?w = "sim_WinnerMarbleIndex (rc_sim R)"
  obtain don where cs: "credits_made (cfg_Wallet cfg) (session_credits (names_of ps m0) outs @ round_credits cfg ?w don) ms"
    and ss: "settlements_made (zip ps outs) ms" and don: "rbs = map (round_outcome ?w) don" "prefix (pr_bets (mg_rounds m0 pr)) (don @ b # bs)"
    using acc by (auto simp: account_def)
  have j': "j' = JRbets R mf outs (map (round_outcome ?w) (don @ [b])) bs" and heap: "mg_heap m' = mg_heap m"
    and pay: "if rb_MarbleIdx b = ?w then w_Credit (cfg_Wallet cfg) (rb_PlayerID b) (payout_units (cfg_oor cfg) (rb_Amount b))
        (rb_BetID b @ '':credit'') (mg_wallet m) = (None, mg_wallet m') else mg_wallet m' = mg_wallet m"
    using assms(1) don(1) by (auto simp: rb_settle_def round_outcome_def Let_def split: prod.splits option.splits if_splits)
  have "credits_made (cfg_Wallet cfg) (session_credits (names_of ps m0) outs @ round_credits cfg ?w (don @ [b])) (ms @ [(m, m')])"
    using pay cs by (auto simp flip: append_assoc intro: credits_made.intros)
  moreover have "settlements_made (zip ps outs) (ms @ [(m, m')])" using ss heap by (intro settlements_made.idle) simp_all
  moreover have "prefix (pr_bets (mg_rounds m0 pr)) ((don @ [b]) @ bs)" using don(2) by simp
  ultimately show ?thesis unfolding account_def j' accounted.simps by blast
qed

lemma account_next:
  assumes fl: "flight cfg env ps pr m0 seed m j" and gr: "grown pr m0 m" and st: "job_step cfg j m = Some (Next j', m')"
    and acc: "account cfg ps pr m0 j ms"
  shows "account cfg ps pr m0 j' (ms @ [(m, m')])"
proof (cases j)
  case (JField env' ps' pr')
  with st show ?thesis
    by (intro account_idle [OF acc]) (auto simp: run_field_def Let_def split: sum.splits)
next
  case (JAssign env' ps' pr' seed' r i todo)
  with st show ?thesis
    by (cases todo; intro account_idle [OF acc])
      (auto simp: session_assign_marble_def split: prod.splits option.splits if_splits)
next
  case (JRace env' ps' pr' seed' r)
  with st show ?thesis
    by (intro account_idle [OF acc]) (auto simp: run_racing_def session_credits_def split: sum.splits prod.splits)
next
  case (JCredit R outs todo)
  with fl obtain n where n: "n \<le> length ps" "todo = drop n ps" "outs = map (owed_by R ps m0) [0..<n]" "raced_from env ps m0 n m"
    by auto
  show ?thesis
  proof (cases todo)
    case Nil
    with JCredit st show ?thesis by (intro account_idle [OF acc]) auto
  next
    case (Cons p rest)
    then have lt: "n < length ps" using n(2) by (metis drop_all leI list.distinct(1))
    then have p: "p = ps ! n" using n(2) Cons by (simp add: Cons_nth_drop_Suc [symmetric])
    have "ses_PlayerID (mg_heap m p) = names_of ps m0 ! n" using n(4) lt p by (simp add: raced_from_def names_of_def)
    with lt n(3) st JCredit Cons acc show ?thesis by (intro account_credit [of cfg R outs p rest]) auto
  qed
next
  case (JSettle R outs out p todo)
  with fl obtain n where n: "n < length ps" "p # todo = drop n ps" "outs @ [out] = map (owed_by R ps m0) [0..<Suc n]" by auto
  have p: "p = ps ! n" using n(1,2) by (simp add: Cons_nth_drop_Suc [symmetric])
  have "length outs = n" using arg_cong [OF n(3), of length] by simp
  with p n(1) st JSettle acc show ?thesis by (intro account_settle [of R outs out p todo]) auto
next
  case (JSave R outs)
  have "rc_round R = pr" using fl JSave by (simp add: raced_ok_def)
  with JSave st gr show ?thesis
    by (intro account_idle [OF acc]) (auto simp: run_save_def grown_def split: prod.splits sum.splits)
next
  case (JRbets R mf outs rbs bs)
  show ?thesis
  proof (cases bs)
    case Nil
    with JRbets st show ?thesis by (intro account_idle [OF acc]) auto
  next
    case (Cons b rest)
    with JRbets st acc show ?thesis by (intro account_payout [of cfg R mf outs rbs b rest]) auto
  qed
qed (use fl st in auto)

lemma pool_run_snoc:
  assumes "pool_run f (evs @ [ev]) c = Some (as, c')"
  shows "\<exists>as1 c1 a. pool_run f evs c = Some (as1, c1) \<and> pool_apply f ev c1 = Some (a, c')"
  using assms
proof (induction evs arbitrary: c as)
  case Nil
  then show ?case by (auto split: option.splits)
next
  case (Cons e evs)
  then obtain a c1 as1 where c1: "pool_apply f e c = Some (a, c1)" "pool_run f (evs @ [ev]) c1 = Some (as1, c')"
    by (auto split: option.splits)
  from Cons.IH [OF c1(2)] c1(1) show ?case by auto
qed

text \<open>Along a schedule in which the others do what they like.\<close>

lemma account_run:
  assumes conc: "conc_reach cfg (m0, js0)" "cfg_ok cfg" "js0 t = Some (JField env ps pr)"
    and run: "pool_run (job_step cfg) evs (m0, js0) = Some (as, c)"
    and others: "\<And>u j. Begin u j \<in> set evs \<Longrightarrow> u \<noteq> t \<and> call_enabled j"
    and j: "snd c t = Some j"
  shows "account cfg ps pr m0 j (sections_of cfg t evs (m0, js0))"
  using run others j
proof (induction evs arbitrary: as c j rule: rev_induct)
  case Nil
  then have "j = JField env ps pr" using conc(3) by auto
  then show ?case by (auto simp: account_def intro: credits_made.intros settlements_made.intros)
next
  case (snoc ev evs)
  obtain as1 c1 a where c1: "pool_run (job_step cfg) evs (m0, js0) = Some (as1, c1)" "pool_apply (job_step cfg) ev c1 = Some (a, c)"
    using pool_run_snoc [OF snoc.prems(1)] by blast
  have old: "u \<noteq> t \<and> call_enabled i" if "Begin u i \<in> set evs" for u i using snoc.prems(2) [of u i] that by simp
  have trace: "sections_of cfg t (evs @ [ev]) (m0, js0) = sections_of cfg t evs (m0, js0) @
      (if ev = Sched t \<and> snd c1 t \<noteq> None then [(fst c1, fst c)] else [])"
    using sections_of_snoc [OF c1(1)] c1(2) by simp
  obtain m js where mj: "c1 = (m, js)" by (cases c1)
  have rest: "rest_of cfg t (m0, js0) c1"
    by (rule pool_run_reach [OF reach_init c1(1)]) (use old in auto)
  show ?case
  proof (cases "ev = Sched t")
    case True
    then obtain i where i: "js t = Some i" using c1(2) mj snoc.prems(3) by (cases "js t") auto
    then obtain m' where st: "job_step cfg i m = Some (Next j, m')" "fst c = m'"
      using c1(2) mj True snoc.prems(3) by (auto split: option.splits progress.splits)
    obtain seed where "course_inv cfg env ps pr m0 seed t c1" using course_reach [OF conc rest] by blast
    then have "flight cfg env ps pr m0 seed m i" "grown pr m0 m" using i by (auto simp: course_inv_def mj)
    then have "account cfg ps pr m0 j (sections_of cfg t evs (m0, js0) @ [(m, m')])"
      using account_next st(1) snoc.IH [OF c1(1) old] i mj by fastforce
    with trace True i mj st(2) show ?thesis by simp
  next
    case False
    have "ev \<noteq> Begin t i" for i using snoc.prems(2) [of t i] by auto
    then have "snd c1 t = Some j"
      using c1(2) mj False snoc.prems(3) by (cases ev) (auto split: if_splits option.splits progress.splits)
    with snoc.IH [OF c1(1) old] trace False show ?thesis by simp
  qed
qed

section \<open>Properties\<close>

text \<open>
  C5: a run is isolated from the calls beside it.  From the section that takes the queue on,
  let any other calls be interleaved in any order: when the run answers with a manifest, it
  has published the announced round under its seed, the simulator was asked for exactly the
  field of the bets it took, every one of those bets has the outcome it has in a run that
  nothing interrupts, and every bet that was on the round is among those settled.  Its sections
  have credited exactly the winners among these bets, each once and with what it is due, and have
  touched the wallet in no other way; and they have taken exactly the sessions of the queue from
  RACING to SETTLED, each with its outcome as the last result.
\<close>

theorem run_is_isolated:
  assumes "conc_reach cfg (m0, js0)" and "cfg_ok cfg" and "js0 t = Some (JField env ps pr)"
    and "pool_run (job_step cfg) evs (m0, js0) = Some (as, c)"
    and "\<And>u j. Begin u j \<in> set evs \<Longrightarrow> u \<noteq> t \<and> call_enabled j"
    and "pool_apply (job_step cfg) (Sched t) c = Some (Some (AnsRun (Inr (mf, outs, rbs))), c')"
    and "spec = pr_spec (mg_rounds m0 pr)" and "names = map (\<lambda>p. ses_PlayerID (mg_heap m0 p)) ps"
    and "ms = sections_of cfg t (evs @ [Sched t]) (m0, js0)"
  shows "\<exists>seed simRes prize cut bets fs fs'.
    sp_ServerSeedHex spec = hex_encode seed \<and> int (length ps) \<le> cfg_MaxMarbles cfg \<and>
    re_sim env (sim_request_of cfg spec seed (re_workDir env) (field_round cfg env spec seed names)) = Inr simRes \<and>
    settle \<lparr>RTPBasisPoints = cfg_RTPBps cfg\<rparr> (replicate (nat (cfg_MaxMarbles cfg)) (cfg_BuyIn cfg))
      (sim_WinnerMarbleIndex simRes) = Inr (prize, cut) \<and>
    outs = map (\<lambda>k. bet_result env (sim_WinnerMarbleIndex simRes) prize k (mg_heap m0 (ps ! k))) [0..<length ps] \<and>
    prefix (pr_bets (mg_rounds m0 pr)) bets \<and> rbs = map (round_outcome (sim_WinnerMarbleIndex simRes)) bets \<and>
    persist_round env (manifest_of spec (field_round cfg env spec seed names) seed simRes) (sim_ReplayPath simRes) fs = (Inr mf, fs') \<and>
    credits_made (cfg_Wallet cfg) (session_credits names outs @ round_credits cfg (sim_WinnerMarbleIndex simRes) bets) ms \<and>
    settlements_made (zip ps outs) ms"
proof -
  have rest: "rest_of cfg t (m0, js0) c"
    by (rule pool_run_reach [OF reach_init assms(4)]) (use assms(5) in auto)
  obtain seed where seed: "length seed = 32" "sp_ServerSeedHex spec = hex_encode seed"
    and inv: "course_inv cfg env ps pr m0 seed t c"
    using course_reach [OF assms(1-3) rest] assms(7) by blast
  obtain m js where c: "c = (m, js)" by (cases c)
  obtain j where j: "js t = Some j" "job_step cfg j m = Some (Ret (AnsRun (Inr (mf, outs, rbs))), fst c')"
    using assms(6) c by (auto split: option.splits progress.splits)
  have fl: "flight cfg env ps pr m0 seed m j" using inv j(1) by (simp add: course_inv_def c)
  obtain R where track: "j = JTrack R mf outs rbs" using answered_by_track [OF j(2) fl] by blast
  then have R: "raced_ok cfg env ps pr m0 seed R" "manifest_ok R m0 mf" "outs = map (owed_by R ps m0) [0..<length ps]"
    using fl by auto
  have "account cfg ps pr m0 (JTrack R mf outs rbs) (sections_of cfg t evs (m0, js0))"
    using account_run [OF assms(1-5)] j(1) c track by simp
  then obtain bets where bets: "prefix (pr_bets (mg_rounds m0 pr)) bets" "rbs = map (round_outcome (sim_WinnerMarbleIndex (rc_sim R))) bets"
    and made: "credits_made (cfg_Wallet cfg) (session_credits names outs @ round_credits cfg (sim_WinnerMarbleIndex (rc_sim R)) bets)
        (sections_of cfg t evs (m0, js0))" "settlements_made (zip ps outs) (sections_of cfg t evs (m0, js0))"
    by (auto simp: account_def names_of_def assms(8))
  have "ms = sections_of cfg t evs (m0, js0) @ [(m, fst c')]"
    using sections_of_snoc [OF assms(4)] assms(6,9) j(1) c by simp
  moreover have "fst c' = m\<lparr>mg_prevTrack := uint (sp_TrackID (pr_spec (mg_rounds m (rc_round R))))\<rparr>"
    using j(2) track by simp
  then have "mg_wallet (fst c') = mg_wallet m" "mg_heap (fst c') = mg_heap m" by (metis mgr.select_convs mgr.surjective mgr.update_convs)+
  ultimately have paid: "credits_made (cfg_Wallet cfg) (session_credits names outs @ round_credits cfg (sim_WinnerMarbleIndex (rc_sim R)) bets) ms"
      "settlements_made (zip ps outs) ms"
    using made by (auto intro: credits_made.idle settlements_made.idle)
  have race: "run_race cfg env spec seed (field_round cfg env spec seed names) = Inr (rc_sim R, rc_state R, rc_seed R)"
    and env: "rc_env R = env" "rc_round R = pr" "int (length ps) \<le> cfg_MaxMarbles cfg"
    using R(1) by (auto simp: raced_ok_def field_of_def assms(7,8))
  note asked = run_race_manifest [OF race]
  obtain fs fs' where "persist_round env (manifest_of spec (field_round cfg env spec seed names) seed (rc_sim R))
      (sim_ReplayPath (rc_sim R)) fs = (Inr mf, fs')"
    using R(2) by (auto simp: manifest_ok_def env asked(2) simp flip: assms(7))
  moreover have "outs = map (\<lambda>k. bet_result env (sim_WinnerMarbleIndex (rc_sim R)) (rc_prize R) k (mg_heap m0 (ps ! k))) [0..<length ps]"
    by (simp add: R(3) owed_by_def owed_def env)
  ultimately show ?thesis
    using seed(2) env(3) asked(1) R(1) bets paid unfolding raced_ok_def by blast
qed

section \<open>A run and a bet at once\<close>

lemma race_pool_state:
  "snd race_pool 3 = Some (JField demo_run_env [0] 0) \<and> (\<exists>b. snd race_pool 1 = Some (JEnqueue 1 b)) \<and>
   waiting (mg_heap (fst race_pool) 0) \<and> ses_PlayerID (mg_heap (fst race_pool) 0) = ''alice'' \<and>
   bet_Amount (the (ses_Bet (mg_heap (fst race_pool) 0))) = 100 \<and> mg_disk (fst race_pool) = [] \<and>
   sp_RoundID (pr_spec (mg_rounds (fst race_pool) 0)) = 11 \<and> pr_bets (mg_rounds (fst race_pool) 0) = [] \<and>
   balances (mg_wallet (fst race_pool)) ''alice'' = Some 900 \<and>
   applied (mg_wallet (fst race_pool)) (bet_BetID (the (ses_Bet (mg_heap (fst race_pool) 0))) @ '':credit'') = None"
  by (simp add: race_pool_def race_schedule_def race_mgr0_def demo_cfg_def blank_mgr_def OpenSession_def Let_def
      bet_lookup_def bet_debit_def bet_place_def mint_select_def mint_announce_def add_round_def run_take_def run_consume_def
      MockWallet_def mock_debit_def SetBalance_def NewMockWallet_def new_session_def session_place_bet_def
      mgr_select_track_def newID_def hex_digit_def waiting_def)

definition raced_mgr :: "mock_wallet mgr" where
  "raced_mgr = (fst race_pool)\<lparr>mg_pending := [1]\<rparr>"

lemma raced_mgr_ready: "run_ready demo_cfg demo_run_env 0 [0] raced_mgr"
proof -
  let ?b = "the (ses_Bet (mg_heap raced_mgr 0))"
  note state = race_pool_state
  have st: "settle \<lparr>RTPBasisPoints = 9500\<rparr> (replicate (nat 2) 100) 0 = Inr (190, 10)"
    by (simp add: settle_Inr_iff sum_list_replicate_nat)
  obtain w1 where "w_Credit MockWallet ''alice'' 190 (bet_BetID ?b @ '':credit'') (mg_wallet raced_mgr) = (None, w1)"
    using state by (auto simp: raced_mgr_def mock_credit_def)
  then show ?thesis
    unfolding run_ready_def Let_def
    by (intro exI [of _ demo_sim_result] exI [of _ 190] exI [of _ 10] exI [of _ w1] exI [of _ "[]"] exI [of _ "[1, 2, 3]"])
      (use st state in \<open>simp add: raced_mgr_def demo_run_env_def demo_sim_result_def demo_cfg_def demo_env_def\<close>)
qed

lemma race_pool_runs:
  "\<exists>n as c mf outs rbs c'. pool_run (job_step demo_cfg) (Sched 1 # replicate n (Sched 3)) race_pool = Some (as, c) \<and>
     pool_apply (job_step demo_cfg) (Sched 3) c = Some (Some (AnsRun (Inr (mf, outs, rbs))), c')"
proof -
  let ?js = "(snd race_pool)(1 := None)"
  have pool: "race_pool = (fst race_pool, snd race_pool)" by simp
  have bob: "pool_apply (job_step demo_cfg) (Sched 1) race_pool = Some (Some (AnsBet (Inr b)), raced_mgr, ?js)"
    if "snd race_pool 1 = Some (JEnqueue 1 b)" for b
    using that race_pool_run by (subst pool) (auto simp: raced_mgr_def simp del: prod.collapse)
  have start: "\<exists>a. pool_apply (job_step demo_cfg) (Sched 1) race_pool = Some (Some a, raced_mgr, ?js)"
    using race_pool_state bob by blast
  have field: "snd race_pool 3 = Some (JField demo_run_env [0] 0)" using race_pool_state by blast
  have conc: "conc_reach demo_cfg (fst race_pool, snd race_pool)" using race_pool_reach by simp
  have "round_entry_ok demo_cfg raced_mgr 0"
    using conc_inv_parts(2) [OF conc demo_cfg_ok field] by (simp add: raced_mgr_def round_taken_def round_entry_ok_def)
  then obtain mf outs rbs m' where "run_round demo_cfg demo_run_env [0] 0 raced_mgr = Some (Inr (mf, outs, rbs), m')"
    using run_round_ok [OF demo_cfg_ok _ demo_clock(1) _ _ _ _ raced_mgr_ready] race_pool_state
    by (auto simp: raced_mgr_def demo_cfg_def)
  then have "solo (job_step demo_cfg) (JField demo_run_env [0] 0) raced_mgr = Some (AnsRun (Inr (mf, outs, rbs)), m')"
    by (simp add: solo_field)
  then obtain n c where run: "pool_run (job_step demo_cfg) (replicate n (Sched 3))
        (raced_mgr, ?js(3 \<mapsto> JField demo_run_env [0] 0)) = Some ([], c)"
      "pool_apply (job_step demo_cfg) (Sched 3) c = Some (Some (AnsRun (Inr (mf, outs, rbs))), m', ?js(3 := None))"
    using solo_runs by (metis fst_conv snd_conv)
  have js: "?js(3 \<mapsto> JField demo_run_env [0] 0) = ?js" using field by (simp add: fun_eq_iff)
  have "\<exists>as. pool_run (job_step demo_cfg) (Sched 1 # replicate n (Sched 3)) race_pool = Some (as, c)"
    using start run(1) [unfolded js] by auto
  with run(2) show ?thesis by blast
qed

lemma race_pool_answers:
  "\<exists>c mf outs rbs c'. rest_of demo_cfg 3 race_pool c \<and>
     pool_apply (job_step demo_cfg) (Sched 3) c = Some (Some (AnsRun (Inr (mf, outs, rbs))), c')"
proof -
  obtain n as c mf outs rbs c' where run: "pool_run (job_step demo_cfg) (Sched 1 # replicate n (Sched 3)) race_pool = Some (as, c)"
      "pool_apply (job_step demo_cfg) (Sched 3) c = Some (Some (AnsRun (Inr (mf, outs, rbs))), c')"
    using race_pool_runs by blast
  have "rest_of demo_cfg 3 race_pool c" by (rule pool_run_reach [OF reach_init run(1)]) auto
  with run(2) show ?thesis by blast
qed

theorem run_is_isolated_witness:
  "\<exists>n as c mf outs rbs c'. pool_run (job_step demo_cfg) (Sched 1 # replicate n (Sched 3)) race_pool = Some (as, c) \<and>
     pool_apply (job_step demo_cfg) (Sched 3) c = Some (Some (AnsRun (Inr (mf, outs, rbs))), c') \<and>
     length outs = 1 \<and> so_Amount (outs ! 0) = 100 \<and>
     settlements_made [(0, outs ! 0)] (sections_of demo_cfg 3 (Sched 1 # replicate n (Sched 3) @ [Sched 3]) race_pool)"
proof -
  have field: "snd race_pool 3 = Some (JField demo_run_env [0] 0)" using race_pool_state by blast
  have conc: "conc_reach demo_cfg (fst race_pool, snd race_pool)" using race_pool_reach by simp
  obtain n as c mf outs rbs c' where c: "pool_run (job_step demo_cfg) (Sched 1 # replicate n (Sched 3)) race_pool = Some (as, c)"
      "pool_apply (job_step demo_cfg) (Sched 3) c = Some (Some (AnsRun (Inr (mf, outs, rbs))), c')"
    using race_pool_runs by blast
  then have run: "pool_run (job_step demo_cfg) (Sched 1 # replicate n (Sched 3)) (fst race_pool, snd race_pool) = Some (as, c)" by simp
  from run_is_isolated [OF conc demo_cfg_ok field run _ c(2) refl refl refl]
  have "length outs = 1 \<and> so_Amount (outs ! 0) = 100 \<and>
      settlements_made (zip [0] outs) (sections_of demo_cfg 3 (Sched 1 # replicate n (Sched 3) @ [Sched 3]) race_pool)"
    using race_pool_state by (auto simp: bet_result_def session_outcome_def Let_def)
  moreover from this have "zip [0] outs = [(0, outs ! 0)]" by (cases outs) auto
  ultimately show ?thesis using c by metis
qed

end
