(* ===== verification/Manager_Frozen.thy ===== *)
theory Manager_Frozen
  imports Manager_Flight
begin

text \<open>
  What concurrent calls of the manager may count on besides safety (server/rgs/manager.go):
  every call returns after finitely many of its own sections, and no bet reaches a round that a run
  has taken, unless another round that still waits has the same id.
\<close>

section \<open>Every call returns\<close>

text \<open>The program points in order, and how much of its loop a call has left.\<close>

fun job_rank :: "job \<Rightarrow> nat" where
  "job_rank (JRun env) = 20"
| "job_rank (JSelect env ps t) = 19"
| "job_rank (JRegister env ps spec) = 18"
| "job_rank (JField env ps pr) = 17"
| "job_rank (JAssign env ps pr seed r i todo) = 16"
| "job_rank (JRace env ps pr seed r) = 15"
| "job_rank (JCredit R outs todo) = 14"
| "job_rank (JSettle R outs out p todo) = 14"
| "job_rank (JSave R outs) = 13"
| "job_rank (JRbets R mf outs rbs bs) = 12"
| "job_rank (JTrack R mf outs rbs) = 11"
| "job_rank (JBet rnd t now sid a) = 5"
| "job_rank (JDebit betID t now p a) = 4"
| "job_rank (JPlace now p b) = 3"
| "job_rank (JClose now sid) = 5"
| "job_rank (JMint r rid) = 5"
| "job_rank (JRb rnd now rid pl i a) = 6"
| "job_rank (JRbDebit pr u b) = 5"
| "job_rank (JRbBalance pr u b) = 4"
| "job_rank (JRbRecord pr u b bal) = 3"
| "job_rank _ = 2"

fun job_left :: "job \<Rightarrow> nat" where
  "job_left (JAssign env ps pr seed r i todo) = length todo"
| "job_left (JCredit R outs todo) = 2 * length todo"
| "job_left (JSettle R outs out p todo) = 2 * length todo + 1"
| "job_left (JRbets R mf outs rbs bs) = length bs"
| "job_left _ = 0"

lemma own_step_decreases:
  assumes "job_step cfg j m = Some (Next j', m')"
  shows "(j', j) \<in> measures [job_rank, job_left]"
  using assms by (cases "(cfg, j, m)" rule: job_step.cases) (auto simp: section_defs split: section_splits)

text \<open>
  No call is starved by the others.  Whatever the other calls do to the manager between
  its sections, a call has only finitely many sections to run before it answers: there is no
  waiting loop and no retry.
\<close>

theorem calls_return: "wf (own_steps (job_step cfg))"
  by (rule wf_subset [OF wf_measures [of "[job_rank, job_left]"]]) (auto simp: own_steps_def dest: own_step_decreases)

section \<open>Round ids\<close>

text \<open>The id a call in progress is about to give to a new round.\<close>

fun minting :: "job \<Rightarrow> u64 option" where
  "minting (JMint r rid) = Some rid"
| "minting (JAnnounce spec) = Some (sp_RoundID spec)"
| "minting (JRun env) = Some (re_freshID env)"
| "minting (JSelect env ps t) = Some (re_freshID env)"
| "minting (JRegister env ps spec) = Some (sp_RoundID spec)"
| "minting _ = None"

definition id_unused :: "u64 \<Rightarrow> (job, 'w mgr) pool \<Rightarrow> bool" where
  "id_unused rid c \<longleftrightarrow> mg_roundBets (fst c) rid = None \<and> (\<forall>t j. snd c t = Some j \<longrightarrow> minting j \<noteq> Some rid)"

text \<open>
  The nanosecond clock the ids come from gives each call an id no round and no other call has.
\<close>

definition clocked_step :: "'w mgr_config \<Rightarrow> (job, 'w mgr) pool \<Rightarrow> job pool_event \<Rightarrow> (job, 'w mgr) pool \<Rightarrow> bool" where
  "clocked_step cfg c ev c' \<longleftrightarrow> pool_step (job_step cfg) (\<lambda>_. call_enabled) c ev c' \<and>
     (\<forall>t j rid. ev = Begin t j \<and> minting j = Some rid \<longrightarrow> id_unused rid c)"

abbreviation round_id :: "'w mgr \<Rightarrow> nat \<Rightarrow> u64" where
  "round_id m pr \<equiv> sp_RoundID (pr_spec (mg_rounds m pr))"

definition ids_ok :: "'w mgr \<Rightarrow> bool" where
  "ids_ok m \<longleftrightarrow> inj_on (round_id m) {..<mg_nextRound m} \<and> (\<forall>pr < mg_nextRound m. mg_roundBets m (round_id m pr) \<noteq> None)"

lemma ids_ok_same:
  assumes "ids_ok m" and "mg_nextRound m' = mg_nextRound m"
    and "\<And>pr. pr < mg_nextRound m \<Longrightarrow> round_id m' pr = round_id m pr" and "\<And>rid. mg_roundBets m rid \<noteq> None \<Longrightarrow> mg_roundBets m' rid \<noteq> None"
  shows "ids_ok m'"
proof -
  have "inj_on (round_id m') {..<mg_nextRound m}"
    using assms(1,3) by (simp add: ids_ok_def inj_on_def)
  with assms show ?thesis by (simp add: ids_ok_def del: not_None_eq)
qed

lemma add_round_ids:
  assumes "ids_ok m" and "mg_roundBets m (sp_RoundID spec) = None"
  shows "ids_ok (add_round spec m)"
proof -
  have "round_id m pr \<noteq> sp_RoundID spec" if "pr < mg_nextRound m" for pr
    using that assms by (auto simp: ids_ok_def)
  moreover have old: "round_id (add_round spec m) pr = round_id m pr" if "pr < mg_nextRound m" for pr
    using that by (simp add: add_round_def)
  moreover have new: "round_id (add_round spec m) (mg_nextRound m) = sp_RoundID spec" by (simp add: add_round_def)
  moreover have "inj_on (round_id (add_round spec m)) {..<mg_nextRound m}"
    using assms(1) old by (simp add: ids_ok_def inj_on_def)
  moreover have "round_id (add_round spec m) (mg_nextRound m) \<notin> round_id (add_round spec m) ` {..<mg_nextRound m}"
    unfolding new using old calculation(1) by fastforce
  ultimately have "inj_on (round_id (add_round spec m)) {..<Suc (mg_nextRound m)}"
    by (simp add: lessThan_Suc)
  moreover have "mg_roundBets (add_round spec m) (round_id (add_round spec m) pr) \<noteq> None" if "pr < Suc (mg_nextRound m)" for pr
    using that assms(1) old new by (auto simp: ids_ok_def less_Suc_eq) (auto simp: add_round_def)
  ultimately show ?thesis by (simp add: ids_ok_def)
qed

text \<open>A section gives away at most the id its call minted.\<close>

lemma job_step_ids:
  assumes st: "job_step cfg j m = Some (r, m')" and ids: "ids_ok m" and loc: "local_ok cfg m j"
    and fresh: "\<And>rid. minting j = Some rid \<Longrightarrow> mg_roundBets m rid = None"
  shows "ids_ok m' \<and> dom (mg_roundBets m') \<subseteq> dom (mg_roundBets m) \<union> set_option (minting j) \<and>
    (\<forall>j' rid. r = Next j' \<and> minting j' = Some rid \<longrightarrow> minting j = Some rid \<and> mg_roundBets m' rid = None)"
proof -
  consider (announce) spec where "j = JAnnounce spec" | (register) env ps spec where "j = JRegister env ps spec"
    | (noted) pr u b bal where "j = JRbRecord pr u b bal"
    | (other) "\<And>spec. j \<noteq> JAnnounce spec" "\<And>env ps spec. j \<noteq> JRegister env ps spec" "\<And>pr u b bal. j \<noteq> JRbRecord pr u b bal"
    by blast
  then show ?thesis
  proof cases
    case announce
    have "ids_ok (x\<lparr>mg_pendingRounds := q\<rparr>) = ids_ok x" for x :: "'a mgr" and q by (simp add: ids_ok_def)
    with announce st fresh add_round_ids [OF ids, of spec] show ?thesis
      by (auto simp: mint_announce_def) (auto simp: add_round_def split: if_splits)
  next
    case register
    with st fresh add_round_ids [OF ids, of spec] show ?thesis by (auto simp: add_round_def split: if_splits)
  next
    case noted
    have "mg_roundBets m (rb_RoundID b) \<noteq> None"
      using loc ids noted by (auto simp: bet_fits_def ids_ok_def)
    with noted st ids show ?thesis
      by (auto simp: rb_record_def split: if_splits intro!: ids_ok_same [OF ids])
  next
    case other
    with st ids fresh show ?thesis
      by (cases "(cfg, j, m)" rule: job_step.cases) (auto simp: ids_ok_def section_defs split: section_splits)
  qed
qed

section \<open>Under a clock that never repeats\<close>

definition ids_apart :: "'w mgr \<Rightarrow> (nat \<Rightarrow> job option) \<Rightarrow> bool" where
  "ids_apart m js \<longleftrightarrow> (\<forall>t j rid. js t = Some j \<longrightarrow> minting j = Some rid \<longrightarrow> mg_roundBets m rid = None \<and>
     (\<forall>u i. u \<noteq> t \<longrightarrow> js u = Some i \<longrightarrow> minting i \<noteq> Some rid))"

definition clock_inv :: "'w mgr_config \<Rightarrow> (job, 'w mgr) pool \<Rightarrow> bool" where
  "clock_inv cfg c \<longleftrightarrow> mgr_threads.pool_inv cfg c \<and> ids_ok (fst c) \<and> ids_apart (fst c) (snd c)"

lemma ids_apartD:
  "ids_apart m js \<Longrightarrow> js t = Some j \<Longrightarrow> minting j = Some rid \<Longrightarrow> mg_roundBets m rid = None"
  "ids_apart m js \<Longrightarrow> js t = Some j \<Longrightarrow> minting j = Some rid \<Longrightarrow> u \<noteq> t \<Longrightarrow> js u = Some i \<Longrightarrow> minting i \<noteq> Some rid"
  unfolding ids_apart_def by blast+

lemma ids_apart_begin:
  assumes "ids_apart m js" and "\<And>rid. minting j = Some rid \<Longrightarrow> id_unused rid (m, js)"
  shows "ids_apart m (js(t \<mapsto> j))"
  unfolding ids_apart_def
proof (intro allI impI conjI)
  fix u i rid assume u: "(js(t \<mapsto> j)) u = Some i" "minting i = Some rid"
  show "mg_roundBets m rid = None"
    using u assms(2) [of rid] ids_apartD(1) [OF assms(1), of u i rid] by (cases "u = t") (auto simp: id_unused_def)
  fix v k assume v: "v \<noteq> u" "(js(t \<mapsto> j)) v = Some k"
  show "minting k \<noteq> Some rid"
  proof (cases "u = t")
    case True
    with u v have "js v = Some k" "id_unused rid (m, js)" using assms(2) by auto
    then show ?thesis by (simp add: id_unused_def)
  next
    case False
    then have old: "js u = Some i" using u by simp
    show ?thesis
    proof (cases "v = t")
      case True
      with v u old assms(2) show ?thesis by (auto simp: id_unused_def)
    next
      case False
      with v ids_apartD(2) [OF assms(1) old u(2) v(1)] show ?thesis by simp
    qed
  qed
qed

lemma clock_inv_section:
  assumes inv: "clock_inv cfg (m, js)" and j: "js t = Some j" and st: "job_step cfg j m = Some (r, m')"
    and pool: "mgr_threads.pool_inv cfg (m', js')"
    and js': "js' = js(t := (case r of Next i \<Rightarrow> Some i | Ret a \<Rightarrow> None))"
  shows "clock_inv cfg (m', js')"
proof -
  have apart: "ids_apart m js" using inv by (simp add: clock_inv_def)
  note fresh = ids_apartD(1) [OF apart j]
  have g: "ids_ok m" "local_ok cfg m j" using inv j by (auto simp: clock_inv_def mgr_threads.pool_inv_def)
  note step = job_step_ids [OF st g fresh]
  have src: "\<exists>k. js u = Some k \<and> minting k = Some rid \<and> (u = t \<longrightarrow> mg_roundBets m' rid = None)"
    if "js' u = Some i" "minting i = Some rid" for u i rid
  proof (cases "u = t")
    case True
    with that js' have "r = Next i" by (auto split: progress.splits)
    with step that(2) j True show ?thesis by blast
  next
    case False
    with that js' show ?thesis by simp
  qed
  have unused: "mg_roundBets m' rid = None" if "js u = Some i" "u \<noteq> t" "minting i = Some rid" for u i rid
  proof -
    have "mg_roundBets m rid = None" "minting j \<noteq> Some rid"
      using ids_apartD(1) [OF apart that(1,3)] ids_apartD(2) [OF apart that(1,3) _ j] that(2) by auto
    then have "rid \<notin> dom (mg_roundBets m')" using step by auto
    then show ?thesis by auto
  qed
  have "ids_apart m' js'"
    unfolding ids_apart_def
  proof (intro allI impI conjI)
    fix u i rid assume u: "js' u = Some i" "minting i = Some rid"
    obtain k where k: "js u = Some k" "minting k = Some rid" "u = t \<longrightarrow> mg_roundBets m' rid = None" using src [OF u] by blast
    with unused show "mg_roundBets m' rid = None" by blast
    fix v l assume "v \<noteq> u" "js' v = Some l"
    with src [of v l rid] ids_apartD(2) [OF apart k(1,2), of v] show "minting l \<noteq> Some rid" by blast
  qed
  then show ?thesis using step pool by (simp add: clock_inv_def)
qed

lemma clock_inv_step:
  assumes inv: "clock_inv cfg c" and st: "clocked_step cfg c ev c'"
  shows "clock_inv cfg c'"
proof -
  obtain m js where c: "c = (m, js)" by (cases c)
  obtain a where ap: "pool_apply (job_step cfg) ev (m, js) = Some (a, c')"
    using st by (auto simp: clocked_step_def pool_step_def c)
  have pool: "mgr_threads.pool_inv cfg c'"
    using inv st mgr_threads.pool_inv_step [of cfg c "\<lambda>_. call_enabled" ev c'] by (auto simp: clock_inv_def clocked_step_def)
  show ?thesis
  proof (cases ev)
    case (Begin t j)
    then have "call_enabled j" "\<And>rid. minting j = Some rid \<Longrightarrow> id_unused rid (m, js)"
      using st by (auto simp: clocked_step_def pool_step_def c)
    with ids_apart_begin [of m js j t] inv pool ap Begin show ?thesis
      by (auto simp: c clock_inv_def split: if_splits)
  next
    case (Sched t)
    show ?thesis
    proof (cases "js t")
      case None
      with Sched ap inv show ?thesis by (simp add: c)
    next
      case (Some j)
      obtain r m' where js: "job_step cfg j m = Some (r, m')" using Sched ap Some by (auto split: option.splits)
      have c': "c' = (m', js(t := (case r of Next i \<Rightarrow> Some i | Ret b \<Rightarrow> None)))"
        using ap Sched Some js by (auto split: progress.splits)
      show ?thesis using clock_inv_section [OF inv [unfolded c] Some js pool [unfolded c'] refl] by (simp add: c')
    qed
  qed
qed

lemma clock_reach_inv:
  assumes "reach idle_start (clocked_step cfg) c" and "cfg_ok cfg"
  shows "clock_inv cfg c"
  using assms(1)
proof (induction rule: reach.induct)
  case (reach_init c)
  then have "mgr_threads.pool_inv cfg c" by (intro conc_inv [OF reach.reach_init assms(2)])
  moreover have "mg_nextRound (fst c) = 0" "snd c = (\<lambda>_. None)"
    using reach_init by (auto simp: idle_start_def fresh_mgr_def blank_mgr_def)
  ultimately show ?case by (simp add: clock_inv_def ids_ok_def ids_apart_def)
next
  case (reach_step c ev c')
  then show ?case by (blast intro: clock_inv_step)
qed

text \<open>A round that a call runs: no other round has its id, so nobody finds it.\<close>

lemma owned_round:
  "local_ok cfg m j \<Longrightarrow> Inr pr \<in> owns j \<Longrightarrow> round_taken cfg m pr"
  by (cases j) auto

text \<open>Another round with the id of \<open>pr\<close> still waits.\<close>

definition twin_waits :: "'w mgr \<Rightarrow> nat \<Rightarrow> bool" where
  "twin_waits m pr \<longleftrightarrow> (\<exists>q \<in> set (mg_pendingRounds m). round_id m q = round_id m pr)"

lemma find_twin: "findPendingRound (round_id m pr) m = None \<longleftrightarrow> \<not> twin_waits m pr"
  by (auto simp: findPendingRound_def find_None_iff twin_waits_def)

lemma job_step_round:
  assumes st: "job_step cfg j m = Some (r, m')" and loc: "local_ok cfg m j" and taken: "round_taken cfg m pr"
  shows "mg_rounds m' pr = mg_rounds m pr \<or> (\<exists>u b bal. j = JRbRecord pr u b bal) \<and> twin_waits m pr"
proof (cases "\<exists>u b bal. j = JRbRecord pr u b bal")
  case True
  then obtain u b bal where j: "j = JRbRecord pr u b bal" by blast
  then have "rb_RoundID b = round_id m pr" using loc by (simp add: bet_fits_def)
  with j st find_twin [of m pr] show ?thesis by (auto simp: rb_record_def)
next
  case False
  with st taken show ?thesis
    by (cases "(cfg, j, m)" rule: job_step.cases)
      (auto simp: section_defs round_taken_def round_entry_ok_def split: section_splits)
qed

text \<open>Under a clock that never gives an id twice there is no such other round.\<close>

theorem clocked_rounds_have_no_twin:
  assumes "reach idle_start (clocked_step cfg) (m, js)" and "cfg_ok cfg" and "js t = Some j" and "Inr pr \<in> owns j"
  shows "\<not> twin_waits m pr"
proof
  have inv: "clock_inv cfg (m, js)" using clock_reach_inv [OF assms(1,2)] .
  then have g: "mgr_inv cfg m" "ids_ok m" and loc: "local_ok cfg m j"
    using assms(3) by (auto simp: clock_inv_def mgr_threads.pool_inv_def)
  note taken = owned_round [OF loc assms(4)]
  assume "twin_waits m pr"
  then obtain q where q: "q \<in> set (mg_pendingRounds m)" "round_id m q = round_id m pr"
    by (auto simp: twin_waits_def)
  then have "q < mg_nextRound m" "pr < mg_nextRound m"
    using g(1) taken by (auto simp: mgr_inv_def rounds_ok_def round_taken_def round_entry_ok_def)
  then have "q = pr" using g(2) q(2) by (auto simp: ids_ok_def dest: inj_onD)
  with q(1) taken show False by (simp add: round_taken_def)
qed

section \<open>Properties\<close>

text \<open>
  C8: when bets can reach a round that a run has taken.  While a call runs an announced round, no
  section of any call changes the round or the bets on it, except that of a bet debited before and
  only if another round with the same id still waits: \<open>PlaceBetOnRound\<close> looks for the id again, not
  for the round.  The next section of a bet that was debited before the run took the round makes it
  a refund exactly when there is no such other round; otherwise it records it on the running round.
\<close>

theorem no_bets_on_a_running_round:
  assumes "conc_reach cfg (m, js)" and "cfg_ok cfg" and "js t = Some j" and "Inr pr \<in> owns j"
  shows "(\<forall>ev a m' js'. pool_apply (job_step cfg) ev (m, js) = Some (a, m', js') \<longrightarrow> mg_rounds m' pr = mg_rounds m pr \<or>
      (\<exists>v u b bal. ev = Sched v \<and> js v = Some (JRbRecord pr u b bal)) \<and> twin_waits m pr) \<and>
    (\<forall>v u b bal. js v = Some (JRbRecord pr u b bal) \<longrightarrow>
       (\<exists>m'. pool_apply (job_step cfg) (Sched v) (m, js) =
          (if twin_waits m pr then Some (Some (AnsRoundBet (Inr (b, bal))), m', js(v := None))
           else Some (None, m, js(v \<mapsto> JRbRefund u b))) \<and>
        (twin_waits m pr \<longrightarrow> pr_bets (mg_rounds m' pr) = pr_bets (mg_rounds m pr) @ [b])))"
proof (intro conjI allI impI)
  note loc = conc_inv_parts(2) [OF assms(1,2)]
  note taken = owned_round [OF loc [OF assms(3)] assms(4)]
  show "mg_rounds m' pr = mg_rounds m pr \<or> (\<exists>v u b bal. ev = Sched v \<and> js v = Some (JRbRecord pr u b bal)) \<and> twin_waits m pr"
    if "pool_apply (job_step cfg) ev (m, js) = Some (a, m', js')" for ev a m' js'
  proof (cases ev)
    case (Sched u)
    show ?thesis
    proof (cases "js u")
      case (Some i)
      with that Sched obtain r where "job_step cfg i m = Some (r, m')" by (auto split: option.splits progress.splits)
      from job_step_round [OF this loc [OF Some] taken] Sched Some show ?thesis by auto
    qed (use that Sched in simp)
  qed (use that in simp)
  show "\<exists>m'. pool_apply (job_step cfg) (Sched v) (m, js) =
      (if twin_waits m pr then Some (Some (AnsRoundBet (Inr (b, bal))), m', js(v := None))
       else Some (None, m, js(v \<mapsto> JRbRefund u b))) \<and>
      (twin_waits m pr \<longrightarrow> pr_bets (mg_rounds m' pr) = pr_bets (mg_rounds m pr) @ [b])"
    if v: "js v = Some (JRbRecord pr u b bal)" for v u b bal
  proof -
    have "rb_RoundID b = round_id m pr" using loc [OF v] by (simp add: bet_fits_def)
    with v find_twin [of m pr] show ?thesis by (auto simp: rb_record_def)
  qed
qed

section \<open>A bet that comes too late\<close>

text \<open>Alice has been debited for a bet on round 11; before it is recorded, a run takes the round.\<close>

lemma clocked_conc: "reach idle_start (clocked_step cfg) c \<Longrightarrow> conc_reach cfg c"
  by (induction rule: reach.induct) (auto intro: reach.intros simp: clocked_step_def)

lemma clocked_sections:
  assumes "reach idle_start (clocked_step cfg) c" and "pool_run (job_step cfg) evs c = Some (as, c')"
    and "\<And>t j. Begin t j \<notin> set evs"
  shows "reach idle_start (clocked_step cfg) c'"
  using assms
proof (induction evs arbitrary: c as)
  case Nil
  then show ?case by simp
next
  case (Cons ev evs)
  then obtain a c1 as1 where c1: "pool_apply (job_step cfg) ev c = Some (a, c1)" "pool_run (job_step cfg) evs c1 = Some (as1, c')"
    by (auto split: option.splits)
  moreover have "ev \<noteq> Begin t j" for t j using Cons.prems(3) [of t j] by auto
  ultimately have "reach idle_start (clocked_step cfg) c1"
    using Cons.prems by (intro reach.reach_step [OF Cons.prems(1), where e = ev]) (auto simp: clocked_step_def pool_step_def)
  then show ?case by (rule Cons.IH [OF _ c1(2)]) (metis Cons.prems(3) list.set_intros(2))
qed

lemma clocked_begin:
  assumes "reach idle_start (clocked_step cfg) (m, js)" and "call_enabled j" and "js t = None"
    and "\<And>rid. minting j = Some rid \<Longrightarrow> id_unused rid (m, js)"
  shows "reach idle_start (clocked_step cfg) (m, js(t \<mapsto> j))"
  by (rule reach.reach_step [OF assms(1), where e = "Begin t j"]) (use assms in \<open>auto simp: clocked_step_def pool_step_def\<close>)

definition late_minted :: "mock_wallet mgr" where
  "late_minted = fst (snd (the (pool_run (job_step demo_cfg) [Sched 2, Sched 2]
     (demo_mgr0, (\<lambda>_. None)(2 \<mapsto> JMint (Inr (replicate 32 7)) 11)))))"

definition late_bet :: round_bet where
  "late_bet = \<lparr>rb_BetID = newID ''rbet_'' [4], rb_PlayerID = ''alice'', rb_RoundID = 11, rb_MarbleIdx = 0,
     rb_Amount = f64_int 1, rb_PlacedAt = 7\<rparr>"

lemma late_minted_run:
  "pool_run (job_step demo_cfg) [Sched 2, Sched 2] (demo_mgr0, (\<lambda>_. None)(2 \<mapsto> JMint (Inr (replicate 32 7)) 11)) =
    Some ([AnsMint (Inr (pr_spec (mg_rounds late_minted 0)))], late_minted, \<lambda>_. None) \<and>
   mg_pendingRounds late_minted = [0] \<and> sp_RoundID (pr_spec (mg_rounds late_minted 0)) = 11 \<and>
   balances (mg_wallet late_minted) ''alice'' = Some 1000 \<and> applied (mg_wallet late_minted) (newID ''rbet_'' [4]) = None \<and>
   mg_roundBets late_minted 12 = None \<and> mg_nextRound late_minted = 1 \<and> pr_bets (mg_rounds late_minted 0) = []"
  by (simp add: late_minted_def demo_mgr0_def demo_cfg_def blank_mgr_def mint_select_def mint_announce_def add_round_def
      mgr_select_track_def SetBalance_def NewMockWallet_def fun_eq_iff)

lemma late_bet_debited:
  "\<exists>w bal. pool_run (job_step demo_cfg) [Sched 1, Sched 1, Sched 1]
     (late_minted, (\<lambda>_. None)(1 \<mapsto> JRb [4] 7 11 ''alice'' 0 (f64_int 1))) =
    Some ([], late_minted\<lparr>mg_wallet := w\<rparr>, (\<lambda>_. None)(1 \<mapsto> JRbRecord 0 100 late_bet bal))"
proof -
  have u: "f64_to_u64 (cfg_oor demo_cfg) (f64_mult (f64_int 1) (f64_int 100)) = 100"
    using f64_to_u64_int(1) [of 100 "cfg_oor demo_cfg"] by (simp add: f64_mult_def f64_int_def)
  have "findPendingRound 11 late_minted = Some 0" using late_minted_run by (simp add: findPendingRound_def)
  then have find: "rb_find demo_cfg [4] 7 11 ''alice'' 0 (f64_int 1) late_minted = Next (JRbDebit 0 100 late_bet)"
    using u by (simp add: rb_find_def late_bet_def Let_def demo_cfg_def f64_le0_def f64_int_def)
  obtain w where "w_Debit (cfg_Wallet demo_cfg) ''alice'' 100 (newID ''rbet_'' [4]) (mg_wallet late_minted) = (None, w)"
    using late_minted_run by (auto simp: demo_cfg_def MockWallet_def mock_debit_def)
  then have "rb_debit demo_cfg 0 100 late_bet late_minted = (Next (JRbBalance 0 100 late_bet), late_minted\<lparr>mg_wallet := w\<rparr>)"
    by (simp add: rb_debit_def late_bet_def)
  with find show ?thesis by (auto simp: rb_balance_def)
qed


lemma late_debited_reach:
  "\<exists>w bal. reach idle_start (clocked_step demo_cfg)
     (late_minted\<lparr>mg_wallet := w\<rparr>, (\<lambda>_. None)(1 \<mapsto> JRbRecord 0 100 late_bet bal))"
proof -
  let ?mint = "JMint (Inr (replicate 32 7)) 11" and ?rb = "JRb [4] 7 11 ''alice'' 0 (f64_int 1)"
  have "idle_start (demo_mgr0, \<lambda>_. None)" by (auto simp: idle_start_def fresh_mgr_def demo_mgr0_def)
  moreover have "call_enabled ?mint" by (auto simp: call_enabled_def seed_ok_def intro: exI [of _ "EvMint (Inr (replicate 32 7)) 11"])
  ultimately have "reach idle_start (clocked_step demo_cfg) (demo_mgr0, (\<lambda>_. None)(2 \<mapsto> ?mint))"
    by (intro clocked_begin reach.reach_init) (auto simp: id_unused_def demo_mgr0_def blank_mgr_def)
  then have "reach idle_start (clocked_step demo_cfg) (late_minted, \<lambda>_. None)"
    by (rule clocked_sections [OF _ conjunct1 [OF late_minted_run]]) simp
  moreover have "call_enabled ?rb" by (auto simp: call_enabled_def intro: exI [of _ "EvRoundBet [4] 7 11 ''alice'' 0 (f64_int 1)"])
  ultimately have "reach idle_start (clocked_step demo_cfg) (late_minted, (\<lambda>_. None)(1 \<mapsto> ?rb))"
    by (intro clocked_begin) auto
  moreover obtain w bal where "pool_run (job_step demo_cfg) [Sched 1, Sched 1, Sched 1] (late_minted, (\<lambda>_. None)(1 \<mapsto> ?rb)) =
      Some ([], late_minted\<lparr>mg_wallet := w\<rparr>, (\<lambda>_. None)(1 \<mapsto> JRbRecord 0 100 late_bet bal))"
    using late_bet_debited by blast
  ultimately have "reach idle_start (clocked_step demo_cfg)
      (late_minted\<lparr>mg_wallet := w\<rparr>, (\<lambda>_. None)(1 \<mapsto> JRbRecord 0 100 late_bet bal))"
    by (rule clocked_sections) simp
  then show ?thesis by blast
qed

lemma demo_run_enabled: "call_enabled (JRun demo_run_env)"
  by (auto simp: call_enabled_def seed_ok_def demo_run_env_def intro: exI [of _ "EvRun demo_run_env"])

theorem no_bets_on_a_running_round_witness:
  "\<exists>m js b bal. conc_reach demo_cfg (m, js) \<and> js 1 = Some (JRbRecord 0 100 b bal) \<and>
     pool_apply (job_step demo_cfg) (Sched 1) (m, js) = Some (None, m, js(1 \<mapsto> JRbRefund 100 b))"
proof -
  obtain w bal where debited: "reach idle_start (clocked_step demo_cfg)
      (late_minted\<lparr>mg_wallet := w\<rparr>, (\<lambda>_. None)(1 \<mapsto> JRbRecord 0 100 late_bet bal))"
    using late_debited_reach by blast
  have begun: "reach idle_start (clocked_step demo_cfg) (late_minted\<lparr>mg_wallet := w\<rparr>,
      ((\<lambda>_. None)(1 \<mapsto> JRbRecord 0 100 late_bet bal))(3 \<mapsto> JRun demo_run_env))"
    using late_minted_run demo_run_enabled by (intro clocked_begin [OF debited]) (auto simp: id_unused_def demo_run_env_def split: if_splits)
  define m and js :: "nat \<Rightarrow> job option" where "m = consumed (late_minted\<lparr>mg_wallet := w\<rparr>)"
    and "js = ((\<lambda>_. None)(1 \<mapsto> JRbRecord 0 100 late_bet bal))(3 \<mapsto> JField demo_run_env (mg_pending late_minted) 0)"
  have r: "reach idle_start (clocked_step demo_cfg) (m, js)"
    by (rule clocked_sections [OF begun, of "[Sched 3]" "[]"])
      (use late_minted_run in \<open>simp_all add: run_take_def run_consume_def consumed_def m_def js_def fun_eq_iff\<close>)
  have own: "js 3 = Some (JField demo_run_env (mg_pending late_minted) 0)" and late: "js 1 = Some (JRbRecord 0 100 late_bet bal)"
    by (simp_all add: js_def)
  have "\<not> twin_waits m 0" by (rule clocked_rounds_have_no_twin [OF r demo_cfg_ok own]) simp
  moreover have conc: "conc_reach demo_cfg (m, js)" by (rule clocked_conc [OF r])
  ultimately show ?thesis
    using no_bets_on_a_running_round [OF conc demo_cfg_ok own, of 0] late by fastforce
qed

text \<open>
  The other case is real as soon as two rounds are minted at one reading of the clock: alice's late
  bet on the first is accepted while a run has it, because the second still waits.
\<close>

theorem late_bet_on_running_round:
  "\<exists>m js. conc_reach demo_cfg (m, js) \<and> (\<exists>ps. js 3 = Some (JField demo_run_env ps 0)) \<and>
     (\<exists>b bal m' js'. pool_apply (job_step demo_cfg) (Sched 1) (m, js) = Some (Some (AnsRoundBet (Inr (b, bal))), m', js') \<and>
        pr_bets (mg_rounds m' 0) = [b])"
proof -
  let ?mint = "JMint (Inr (replicate 32 8)) 11"
  obtain w bal where debited: "reach idle_start (clocked_step demo_cfg)
      (late_minted\<lparr>mg_wallet := w\<rparr>, (\<lambda>_. None)(1 \<mapsto> JRbRecord 0 100 late_bet bal))"
    using late_debited_reach by blast
  define m0 where "m0 = late_minted\<lparr>mg_wallet := w\<rparr>"
  define js :: "nat \<Rightarrow> job option" where "js = (\<lambda>_. None)(1 \<mapsto> JRbRecord 0 100 late_bet bal)"
  have m0: "mg_pendingRounds m0 = [0]" "round_id m0 0 = 11" "mg_nextRound m0 = 1" "pr_bets (mg_rounds m0 0) = []"
    using late_minted_run by (simp_all add: m0_def)
  have sel: "mgr_select_track (cfg_TrackPool demo_cfg) 11 t = Some 3" for t
    by (simp add: demo_cfg_def mgr_select_track_def)
  obtain as m1 where run: "pool_run (job_step demo_cfg) [Begin 2 ?mint, Sched 2, Sched 2, Begin 3 (JRun demo_run_env), Sched 3] (m0, js) =
      Some (as, m1, js(3 \<mapsto> JField demo_run_env (mg_pending m0) 0))" and m1: "mg_pendingRounds m1 = [1]"
      "round_id m1 1 = 11" "pr_bets (mg_rounds m1 0) = []"
    using m0 sel by (auto simp: mint_select_def mint_announce_def add_round_def run_take_def run_consume_def js_def fun_upd_twist)
  have "call_enabled ?mint" by (auto simp: call_enabled_def seed_ok_def intro: exI [of _ "EvMint (Inr (replicate 32 8)) 11"])
  then have "conc_reach demo_cfg (m1, js(3 \<mapsto> JField demo_run_env (mg_pending m0) 0))"
    using demo_run_enabled clocked_conc [OF debited] by (intro pool_run_reach [OF _ run]) (auto simp: m0_def js_def)
  moreover have "findPendingRound 11 m1 = Some 1" using m1 by (simp add: findPendingRound_def)
  ultimately show ?thesis
    using m1 by (intro exI [of _ m1] exI [of _ "js(3 \<mapsto> JField demo_run_env (mg_pending m0) 0)"])
      (auto simp: js_def rb_record_def late_bet_def)
qed

end
