(* ===== verification/Manager_Audit.thy ===== *)
theory Manager_Audit
  imports Manager_Frozen Archive_Api
begin

text \<open>
  The audit trail from end to end: the manager writes a round into the store
  (server/rgs/manager.go, server/replay/store.go) and the archive serves it
  (server/api/http.go), with any number of manager calls running at the same time.
\<close>

section \<open>The disk of a pool\<close>

abbreviation store_reach :: "disk \<Rightarrow> bool" where
  "store_reach \<equiv> reach (\<lambda>fs. fs = []) store_step"

lemma persist_round_store:
  assumes "persist_round env mf path fs = (res, fs')"
  shows "keeps_rounds fs fs' \<and> (store_reach fs \<longrightarrow> store_reach fs') \<and>
    (\<forall>mf'. res = Inr mf' \<longrightarrow> (\<exists>bytes. map_of fs' (roundDir (mf_RoundID mf')) = Some (stored mf' bytes)))"
proof (cases "re_open env path")
  case (Inl e)
  with assms show ?thesis by (auto simp: persist_round_def)
next
  case (Inr bytes)
  obtain e m' tr where sv: "Save (re_save env) (Some mf) bytes fs = (e, m', tr)"
    by (cases "Save (re_save env) (Some mf) bytes fs")
  have "fs' = last tr" using assms Inr sv by (auto simp: persist_round_def split: option.splits)
  moreover have "\<exists>bytes. map_of fs' (roundDir (mf_RoundID mf')) = Some (stored mf' bytes)" if "res = Inr mf'" for mf'
    using persist_round_Inr [OF assms [unfolded that]] by (auto simp: published_def)
  ultimately show ?thesis using Save_keeps [OF sv] Save_reach [OF _ sv] by blast
qed

text \<open>The disk after a section: a save, or as it was.\<close>

definition disk_ok :: "disk \<Rightarrow> disk \<Rightarrow> bool" where
  "disk_ok fs fs' \<longleftrightarrow> keeps_rounds fs fs' \<and> (store_reach fs \<longrightarrow> store_reach fs')"

lemma disk_ok_refl [simp]: "disk_ok fs fs"
  by (simp add: disk_ok_def)

lemma disk_ok_trans: "disk_ok fs gs \<Longrightarrow> disk_ok gs hs \<Longrightarrow> disk_ok fs hs"
  by (auto simp: disk_ok_def intro: keeps_rounds_trans)

lemma job_step_disk:
  assumes "job_step cfg j m = Some (r, m')"
  shows "disk_ok (mg_disk m) (mg_disk m')"
  using assms
  by (cases "(cfg, j, m)" rule: job_step.cases)
    (auto simp: section_defs disk_ok_def dest: persist_round_store split: section_splits)

lemma pool_step_disk:
  assumes "pool_step (job_step cfg) may c ev c'"
  shows "disk_ok (mg_disk (fst c)) (mg_disk (fst c'))"
proof -
  obtain m js where c: "c = (m, js)" by (cases c)
  obtain a where ap: "pool_apply (job_step cfg) ev (m, js) = Some (a, c')" using assms c by (auto simp: pool_step_def)
  show ?thesis
  proof (cases ev)
    case (Sched t)
    show ?thesis
    proof (cases "js t")
      case (Some j)
      obtain r m' where st: "job_step cfg j m = Some (r, m')" using Sched ap Some by (auto split: option.splits)
      with Sched ap Some have "fst c' = m'" by (auto split: progress.splits)
      with job_step_disk [OF st] show ?thesis by (simp add: c)
    qed (use ap Sched in \<open>simp add: c\<close>)
  qed (use ap in \<open>auto simp: c\<close>)
qed

lemma pool_reach_disk:
  "reach (\<lambda>x. x = c) (pool_step (job_step cfg) may) c' \<Longrightarrow> disk_ok (mg_disk (fst c)) (mg_disk (fst c'))"
proof (induction rule: reach.induct)
  case (reach_init x)
  then show ?case by simp
next
  case (reach_step x ev y)
  then show ?case using pool_step_disk disk_ok_trans by blast
qed

section \<open>A run that has saved\<close>

definition saved_by :: "job \<Rightarrow> manifest option" where
  "saved_by j = (case j of JRbets R mf outs rbs bs \<Rightarrow> Some mf | JTrack R mf outs rbs \<Rightarrow> Some mf | _ \<Rightarrow> None)"

definition on_disk :: "manifest \<Rightarrow> disk \<Rightarrow> bool" where
  "on_disk mf fs \<longleftrightarrow> (\<exists>bytes. map_of fs (roundDir (mf_RoundID mf)) = Some (stored mf bytes))"

lemma on_disk_keeps: "on_disk mf fs \<Longrightarrow> disk_ok fs fs' \<Longrightarrow> on_disk mf fs'"
  by (auto simp: on_disk_def disk_ok_def keeps_rounds_def)

lemma job_step_saved:
  assumes st: "job_step cfg j m = Some (Next j', m')" and "saved_by j' = Some mf"
  shows "on_disk mf (mg_disk m') \<or> saved_by j = Some mf"
  using assms
  by (cases "(cfg, j, m)" rule: job_step.cases)
    (auto simp: section_defs saved_by_def on_disk_def dest!: persist_round_store split: section_splits)

definition saves_shown :: "(job, 'w mgr) pool \<Rightarrow> bool" where
  "saves_shown c \<longleftrightarrow> (\<forall>t j mf. snd c t = Some j \<longrightarrow> saved_by j = Some mf \<longrightarrow> on_disk mf (mg_disk (fst c)))"

lemma saves_shown_step:
  assumes inv: "saves_shown c" and st: "pool_step (job_step cfg) (\<lambda>_. call_enabled) c ev c'"
  shows "saves_shown c'"
proof -
  obtain m js where c: "c = (m, js)" by (cases c)
  obtain a where ap: "pool_apply (job_step cfg) ev (m, js) = Some (a, c')" using st c by (auto simp: pool_step_def)
  note disk = pool_step_disk [OF st]
  show ?thesis
  proof (cases ev)
    case (Begin t j)
    then have "call_enabled j" using st by (auto simp: pool_step_def)
    then obtain e where "j = call_job e" by (auto simp: call_enabled_def)
    then have "saved_by j = None" by (cases e) (simp_all add: saved_by_def)
    with Begin ap inv show ?thesis by (auto simp: c saves_shown_def split: if_splits)
  next
    case (Sched t)
    show ?thesis
    proof (cases "js t")
      case None
      with Sched ap inv show ?thesis by (simp add: c)
    next
      case (Some j)
      obtain r m' where js: "job_step cfg j m = Some (r, m')" using Sched ap Some by (auto split: option.splits)
      have c': "c' = (m', js(t := (case r of Next i \<Rightarrow> Some i | Ret b \<Rightarrow> None)))"
        using ap Sched Some js by (auto split: progress.splits)
      have old: "on_disk mf (mg_disk m')" if "js u = Some i" "saved_by i = Some mf" for u i mf
        using inv that on_disk_keeps [of mf "mg_disk m" "mg_disk m'"] disk by (auto simp: saves_shown_def c c')
      show ?thesis
        unfolding saves_shown_def
      proof (intro allI impI)
        fix u i mf assume u: "snd c' u = Some i" "saved_by i = Some mf"
        show "on_disk mf (mg_disk (fst c'))"
        proof (cases "u = t")
          case True
          with u have "r = Next i" by (auto simp: c' split: progress.splits)
          with job_step_saved [of cfg j m i m' mf] js u(2) old [OF Some] show ?thesis by (auto simp: c')
        next
          case False
          with u old [of u i mf] show ?thesis by (simp add: c')
        qed
      qed
    qed
  qed
qed

lemma answered_run_saved:
  assumes "saves_shown (m, js)" and "js t = Some j" and "job_step cfg j m = Some (Ret (AnsRun (Inr (mf, outs, rbs))), m')"
  shows "on_disk mf (mg_disk m')"
proof -
  have "saved_by j = Some mf"
    using assms(3)
    by (cases "(cfg, j, m)" rule: job_step.cases) (auto simp: section_defs saved_by_def split: section_splits)
  then have "on_disk mf (mg_disk m)" using assms(1,2) by (simp add: saves_shown_def)
  with job_step_disk [OF assms(3)] on_disk_keeps show ?thesis by blast
qed

section \<open>What the archive answers\<close>

lemma manifest_route: "archive_route_of ''GET'' (''/rounds/'' @ format_uint rid) = Some (ManifestRoute (format_uint rid))"
proof -
  have dig: "is_digit c" if "c \<in> set (format_uint rid)" for c
    using that format_nat_digits by (simp add: format_uint_def)
  have tw: "takeWhile (\<lambda>c. c \<noteq> CHR ''/'') (format_uint rid) = format_uint rid"
    using dig [of "CHR ''/''"] by (auto simp: takeWhile_eq_all_conv is_digit_def)
  have "format_uint rid \<noteq> ''.''" "format_uint rid \<noteq> ''..''"
    using dig [of "CHR ''.''"] by (auto simp: is_digit_def)
  moreover have "format_uint rid \<noteq> []" by (simp add: format_uint_def)
  ultimately show ?thesis by (simp add: archive_route_of_def has_prefix_def Let_def tw del: takeWhile_eq_all_conv)
qed

lemma archive_gets_manifest:
  assumes "on_disk mf fs" and "plain_read env"
    and "rq_method r = ''GET''" and "rq_path r = ''/rounds/'' @ format_uint (mf_RoundID mf)"
  shows "\<exists>pre. archive_handler env r fs = (pre @ writeJSON 200 (ManifestDoc mf), None, fs) \<and>
    client_status (pre @ writeJSON 200 (ManifestDoc mf)) = 200"
proof -
  obtain bytes where "map_of fs (roundDir (mf_RoundID mf)) = Some (stored mf bytes)" using assms(1) by (auto simp: on_disk_def)
  then have "getManifest env (format_uint (mf_RoundID mf)) fs = writeJSON 200 (ManifestDoc mf)"
    using assms(2) by (simp add: getManifest_def Load_stored plain_read_def)
  then show ?thesis
    using assms(3,4) manifest_route [of "mf_RoundID mf"]
    by (simp add: archive_handler_def corsMiddleware_def archive_mux_def Let_def)
qed

definition audit_start :: "(job, 'w mgr) pool \<Rightarrow> bool" where
  "audit_start c \<longleftrightarrow> idle_start c \<and> store_reach (mg_disk (fst c))"

lemma audit_inv:
  "reach audit_start (pool_step (job_step cfg) (\<lambda>_. call_enabled)) c \<Longrightarrow> saves_shown c \<and> store_reach (mg_disk (fst c))"
proof (induction rule: reach.induct)
  case (reach_init c)
  then show ?case by (simp add: audit_start_def idle_start_def saves_shown_def)
next
  case (reach_step c ev c')
  then show ?case using saves_shown_step pool_step_disk by (metis disk_ok_def)
qed

section \<open>Properties\<close>

text \<open>
  C9: a round that the manager reports as run can be audited from then on.  The manager
  starts on any store that saves, faults and crashes can have left; whatever calls run beside
  the run and after it, once it has answered with a manifest the archive serves exactly that
  manifest under the round's id, with status 200, the stored replay passes its checksum, and
  the store is still one that saves alone can have made.
\<close>

theorem finished_round_is_served:
  assumes "reach audit_start (pool_step (job_step cfg) (\<lambda>_. call_enabled)) c"
    and "pool_apply (job_step cfg) (Sched t) c = Some (Some (AnsRun (Inr (mf, outs, rbs))), c1)"
    and "reach (\<lambda>x. x = c1) (pool_step (job_step cfg) (\<lambda>_. call_enabled)) c2" and "fs = mg_disk (fst c2)"
    and "plain_read env" and "rq_method r = ''GET''" and "rq_path r = ''/rounds/'' @ format_uint (mf_RoundID mf)"
  shows "(\<exists>pre. archive_handler env r fs = (pre @ writeJSON 200 (ManifestDoc mf), None, fs) \<and>
      client_status (pre @ writeJSON 200 (ManifestDoc mf)) = 200) \<and>
    Verify parse no_read_fault (mf_RoundID mf) fs = None \<and> store_reach fs"
proof -
  obtain m js where c: "c = (m, js)" by (cases c)
  note inv = audit_inv [OF assms(1)]
  obtain j where j: "js t = Some j" "job_step cfg j m = Some (Ret (AnsRun (Inr (mf, outs, rbs))), fst c1)"
    using assms(2) c by (auto split: option.splits progress.splits)
  have "on_disk mf (mg_disk (fst c1))" using inv j by (auto simp: c intro: answered_run_saved [of m js t j cfg])
  moreover have later: "disk_ok (mg_disk (fst c1)) fs" using pool_reach_disk [OF assms(3)] by (simp add: assms(4))
  ultimately have mf: "on_disk mf fs" by (rule on_disk_keeps)
  have "store_reach (mg_disk (fst c1))" using job_step_disk [OF j(2)] inv by (simp add: disk_ok_def c)
  with later have reach: "store_reach fs" by (simp add: disk_ok_def)
  obtain bytes where d: "map_of fs (roundDir (mf_RoundID mf)) = Some (stored mf bytes)" using mf by (auto simp: on_disk_def)
  have "complete (mf_RoundID mf) (stored mf bytes)" using store_inv_round [OF store.reach_inv [OF reach] d] .
  then have "Verify parse no_read_fault (mf_RoundID mf) fs = None"
    using Verify_replay d by (fastforce simp: complete_def stored_def)
  with archive_gets_manifest [OF mf assms(5-7)] reach show ?thesis by blast
qed


theorem finished_round_is_served_witness:
  "\<exists>mf outs rbs c c1. pool_apply (job_step demo_cfg) (Sched 3) c = Some (Some (AnsRun (Inr (mf, outs, rbs))), c1) \<and>
     (\<exists>ops. archive_handler demo_archive (demo_get\<lparr>rq_path := ''/rounds/'' @ format_uint (mf_RoundID mf)\<rparr>) (mg_disk (fst c1)) =
        (ops, None, mg_disk (fst c1)) \<and> client_status ops = 200)"
proof -
  obtain c mf outs rbs c1 where c: "rest_of demo_cfg 3 race_pool c"
      "pool_apply (job_step demo_cfg) (Sched 3) c = Some (Some (AnsRun (Inr (mf, outs, rbs))), c1)"
    using race_pool_answers by blast
  have "audit_start (race_mgr0, \<lambda>_. None)"
    by (auto simp: audit_start_def idle_start_def fresh_mgr_def race_mgr0_def blank_mgr_def intro: reach_init)
  then have "reach audit_start (pool_step (job_step demo_cfg) (\<lambda>_. call_enabled)) race_pool" by (rule race_pool_from)
  from reach_on [OF c(1) this] have r: "reach audit_start (pool_step (job_step demo_cfg) (\<lambda>_. call_enabled)) c"
    by (auto simp: pool_step_def)
  have plain: "plain_read demo_archive" by (simp add: plain_read_def demo_archive_def)
  let ?r = "demo_get\<lparr>rq_path := ''/rounds/'' @ format_uint (mf_RoundID mf)\<rparr>"
  have "\<exists>pre. archive_handler demo_archive ?r (mg_disk (fst c1)) = (pre @ writeJSON 200 (ManifestDoc mf), None, mg_disk (fst c1)) \<and>
      client_status (pre @ writeJSON 200 (ManifestDoc mf)) = 200"
    using finished_round_is_served [OF r c(2) reach_init [where ini = "\<lambda>x. x = c1", OF refl] refl plain, of ?r]
    by (simp add: demo_get_def)
  with c(2) show ?thesis by blast
qed

end
