(* ===== verification/Manager_Ledger.thy ===== *)
theory Manager_Ledger
  imports Manager_Threads
begin

text \<open>
  The money of the manager under concurrent calls (server/rgs/manager.go): what the wallet has
  taken from a player is, at any moment, what stands in the player's open bets, what calls in
  progress hold, what the operator has earned from settled bets, and what was forfeited without a
  settlement.  The wallet is any wallet; a wrapper keeps books of the debits and credits it has
  acknowledged.
\<close>

section \<open>Books\<close>

definition booked :: "'w wallet \<Rightarrow> ('w \<times> (string \<Rightarrow> int)) wallet" where
  "booked W =
     \<lparr>w_Debit = (\<lambda>pl a tx (w, bk). case w_Debit W pl a tx w of
          (Some e, w') \<Rightarrow> (Some e, (w', bk))
        | (None, w') \<Rightarrow> (None, (w', bk(pl := bk pl + uint a)))),
      w_Credit = (\<lambda>pl a tx (w, bk). case w_Credit W pl a tx w of
          (Some e, w') \<Rightarrow> (Some e, (w', bk))
        | (None, w') \<Rightarrow> (None, (w', bk(pl := bk pl - uint a)))),
      w_Balance = (\<lambda>pl (w, bk). w_Balance W pl w)\<rparr>"

lemma booked_debit:
  "w_Debit (booked W) pl a tx x = (e, y) \<Longrightarrow> snd y = (if e = None then (snd x)(pl := snd x pl + uint a) else snd x)"
  by (cases x) (auto simp: booked_def split: prod.splits option.splits)

lemma booked_credit:
  "w_Credit (booked W) pl a tx x = (e, y) \<Longrightarrow> snd y = (if e = None then (snd x)(pl := snd x pl - uint a) else snd x)"
  by (cases x) (auto simp: booked_def split: prod.splits option.splits)

section \<open>What stands in bets\<close>

definition stake_units :: "'v mgr_config \<Rightarrow> round_bet \<Rightarrow> u64" where
  "stake_units cfg b = f64_to_u64 (cfg_oor cfg) (f64_mult (rb_Amount b) (f64_int 100))"

definition session_stake :: "string \<Rightarrow> session \<Rightarrow> int" where
  "session_stake pl s = (case ses_Bet s of None \<Rightarrow> 0 | Some b \<Rightarrow> if bet_PlayerID b = pl then uint (bet_Amount b) else 0)"

definition round_stake :: "'v mgr_config \<Rightarrow> string \<Rightarrow> round_bet \<Rightarrow> int" where
  "round_stake cfg pl b = (if rb_PlayerID b = pl then uint (stake_units cfg b) else 0)"

definition bets_stake :: "'v mgr_config \<Rightarrow> string \<Rightarrow> round_bet list \<Rightarrow> int" where
  "bets_stake cfg pl bs = (\<Sum>b\<leftarrow>bs. round_stake cfg pl b)"

text \<open>
  The open bets: those in a session's slot, which are in BET or RACING, and those on announced rounds
  that no run has taken yet.
\<close>

definition standing :: "'v mgr_config \<Rightarrow> string \<Rightarrow> 'w mgr \<Rightarrow> int" where
  "standing cfg pl m = (\<Sum>p<mg_next m. session_stake pl (mg_heap m p)) +
     (\<Sum>pr\<leftarrow>mg_pendingRounds m. bets_stake cfg pl (pr_bets (mg_rounds m pr)))"

text \<open>The announced round a run has taken and whose bets it has not read yet.\<close>

fun holds :: "job \<Rightarrow> nat option" where
  "holds (JField env ps pr) = Some pr"
| "holds (JAssign env ps pr seed r i todo) = Some pr"
| "holds (JRace env ps pr seed r) = Some pr"
| "holds (JCredit R outs todo) = Some (rc_round R)"
| "holds (JSettle R outs out p todo) = Some (rc_round R)"
| "holds (JSave R outs) = Some (rc_round R)"
| "holds _ = None"

text \<open>
  What a call in progress holds: a stake it has debited and neither placed nor paid back, the bets on
  the round it has taken, the bets on the round it has still to settle.
\<close>

fun own_stake :: "'v mgr_config \<Rightarrow> string \<Rightarrow> job \<Rightarrow> int" where
  "own_stake cfg pl (JPlace now p b) = (if bet_PlayerID b = pl then uint (bet_Amount b) else 0)"
| "own_stake cfg pl (JRefund p b e) = (if bet_PlayerID b = pl then uint (bet_Amount b) else 0)"
| "own_stake cfg pl (JRbBalance pr u b) = round_stake cfg pl b"
| "own_stake cfg pl (JRbRecord pr u b bal) = round_stake cfg pl b"
| "own_stake cfg pl (JRbRefund u b) = round_stake cfg pl b"
| "own_stake cfg pl (JRbets R mf outs rbs bs) = bets_stake cfg pl bs"
| "own_stake cfg pl _ = 0"

definition job_stake :: "'v mgr_config \<Rightarrow> string \<Rightarrow> 'w mgr \<Rightarrow> job \<Rightarrow> int" where
  "job_stake cfg pl m j = own_stake cfg pl j +
     (case holds j of None \<Rightarrow> 0 | Some pr \<Rightarrow> bets_stake cfg pl (pr_bets (mg_rounds m pr)))"

definition in_flight :: "'v mgr_config \<Rightarrow> string \<Rightarrow> 'w mgr \<Rightarrow> (nat \<Rightarrow> job option) \<Rightarrow> int" where
  "in_flight cfg pl m js = (\<Sum>t \<in> dom js. job_stake cfg pl m (the (js t)))"

text \<open>What the operator earns from a player by one section: the stake of a bet that it settles, less what it pays.\<close>

definition credited :: "'w mgr_config \<Rightarrow> string \<Rightarrow> u64 \<Rightarrow> string \<Rightarrow> 'w mgr \<Rightarrow> bool" where
  "credited cfg owner a tx m \<longleftrightarrow> fst (w_Credit (cfg_Wallet cfg) owner a tx (mg_wallet m)) = None"

fun earned_by :: "'w mgr_config \<Rightarrow> string \<Rightarrow> job \<Rightarrow> 'w mgr \<Rightarrow> int" where
  "earned_by cfg pl (JCredit R outs (p # todo)) m =
     (case ses_Bet (mg_heap m p) of
        None \<Rightarrow> 0
      | Some b \<Rightarrow>
          (let out = session_outcome (re_settle (rc_env R)) (sim_WinnerMarbleIndex (rc_sim R)) (rc_prize R) b in
           if so_Won out \<and> ses_PlayerID (mg_heap m p) = pl \<and> credited cfg pl (so_PrizeAmount out) (so_CreditTxID out) m
           then - uint (so_PrizeAmount out) else 0))"
| "earned_by cfg pl (JSettle R outs out p todo) m =
     (if fst (session_settle (re_settle (rc_env R)) out (mg_heap m p)) = None
      then session_stake pl (mg_heap m p) else 0)"
| "earned_by cfg pl (JRbets R mf outs rbs (b # bs)) m =
     (let won = ro_Won (round_outcome (sim_WinnerMarbleIndex (rc_sim R)) b);
          payout = payout_units (cfg_oor cfg) (rb_Amount b) in
      if won \<and> \<not> credited cfg (rb_PlayerID b) payout (rb_BetID b @ '':credit'') m then 0
      else round_stake cfg pl b - (if won \<and> rb_PlayerID b = pl then uint payout else 0))"
| "earned_by cfg pl _ m = 0"

text \<open>
  What is forfeited by one section, without a settlement: a refund that the wallet refuses, the bets on
  the round of a run that fails, and a bet recorded on a round that waits no more.
\<close>

fun forfeited_by :: "'w mgr_config \<Rightarrow> string \<Rightarrow> job \<Rightarrow> 'w mgr \<Rightarrow> int" where
  "forfeited_by cfg pl (JRefund p b e) m =
     (if bet_PlayerID b = pl \<and> \<not> credited cfg pl (bet_Amount b) (bet_BetID b @ '':refund'') m
      then uint (bet_Amount b) else 0)"
| "forfeited_by cfg pl (JRbRefund u b) m =
     (if rb_PlayerID b = pl \<and> \<not> credited cfg pl u (rb_BetID b @ '':refund'') m then uint u else 0)"
| "forfeited_by cfg pl (JRbRecord pr u b bal) m =
     (if findPendingRound (rb_RoundID b) m \<noteq> None \<and> pr \<notin> set (mg_pendingRounds m) then round_stake cfg pl b else 0)"
| "forfeited_by cfg pl j m =
     (case job_step cfg j m of Some (Ret (AnsRun (Inl e)), m') \<Rightarrow> job_stake cfg pl m j | _ \<Rightarrow> 0)"

text \<open>A bet recorded late on a round that a run holds is among the bets the run will settle: not forfeited yet.\<close>

definition forfeited_at :: "'w mgr_config \<Rightarrow> string \<Rightarrow> job \<Rightarrow> (job, 'w mgr) pool \<Rightarrow> int" where
  "forfeited_at cfg pl j c =
     (case j of
        JRbRecord pr u b bal \<Rightarrow> if \<exists>v i. snd c v = Some i \<and> holds i = Some pr then 0 else forfeited_by cfg pl j (fst c)
      | _ \<Rightarrow> forfeited_by cfg pl j (fst c))"

text \<open>Over a schedule.\<close>

fun over_schedule :: "'w mgr_config \<Rightarrow> (job \<Rightarrow> (job, 'w mgr) pool \<Rightarrow> int) \<Rightarrow> job pool_event list \<Rightarrow> (job, 'w mgr) pool \<Rightarrow> int" where
  "over_schedule cfg f [] c = 0"
| "over_schedule cfg f (ev # evs) c =
     (case ev of
        Sched t \<Rightarrow> (case snd c t of None \<Rightarrow> 0 | Some j \<Rightarrow> f j c)
      | Begin t j \<Rightarrow> 0) +
     (case pool_apply (job_step cfg) ev c of None \<Rightarrow> 0 | Some (a, c') \<Rightarrow> over_schedule cfg f evs c')"

definition earned :: "'w mgr_config \<Rightarrow> string \<Rightarrow> job pool_event list \<Rightarrow> (job, 'w mgr) pool \<Rightarrow> int" where
  "earned cfg pl = over_schedule cfg (\<lambda>j c. earned_by cfg pl j (fst c))"

definition forfeited :: "'w mgr_config \<Rightarrow> string \<Rightarrow> job pool_event list \<Rightarrow> (job, 'w mgr) pool \<Rightarrow> int" where
  "forfeited cfg pl = over_schedule cfg (forfeited_at cfg pl)"

section \<open>One section\<close>

text \<open>The player of a bet in flight is that of its session, and the units are those of the bet.\<close>

fun stake_ok :: "'v mgr_config \<Rightarrow> 'w mgr \<Rightarrow> job \<Rightarrow> bool" where
  "stake_ok cfg m (JPlace now p b) = (bet_PlayerID b = ses_PlayerID (mg_heap m p))"
| "stake_ok cfg m (JRefund p b e) = (bet_PlayerID b = ses_PlayerID (mg_heap m p))"
| "stake_ok cfg m (JRbDebit pr u b) = (u = stake_units cfg b)"
| "stake_ok cfg m (JRbBalance pr u b) = (u = stake_units cfg b)"
| "stake_ok cfg m (JRbRecord pr u b bal) = (u = stake_units cfg b)"
| "stake_ok cfg m (JRbRefund u b) = (u = stake_units cfg b)"
| "stake_ok cfg m _ = True"

lemma session_op_player:
  "session_place_bet now b s = (e, s') \<Longrightarrow> ses_PlayerID s' = ses_PlayerID s"
  "session_assign_marble now i s = (e, s') \<Longrightarrow> ses_PlayerID s' = ses_PlayerID s"
  "session_settle now out s = (e, s') \<Longrightarrow> ses_PlayerID s' = ses_PlayerID s"
  "session_close now s = (e, s') \<Longrightarrow> ses_PlayerID s' = ses_PlayerID s"
  by (auto simp: session_ops split: if_splits option.splits)

lemma job_step_players:
  assumes "job_step cfg j m = Some (r, m')"
  shows "mg_next m \<le> mg_next m' \<and> (\<forall>p < mg_next m. ses_PlayerID (mg_heap m' p) = ses_PlayerID (mg_heap m p))"
  using assms
  by (cases "(cfg, j, m)" rule: job_step.cases)
    (auto simp: section_defs session_op_player split: section_splits)

lemma stake_ok_step:
  assumes "job_step cfg j m = Some (Next j', m')" and "stake_ok cfg m j"
  shows "stake_ok cfg m' j'"
  using assms
  by (cases "(cfg, j, m)" rule: job_step.cases)
    (auto simp: section_defs stake_units_def split: section_splits)

text \<open>How the sum of the standing bets changes.\<close>

lemma sum_upd:
  fixes f :: "'a \<Rightarrow> int"
  assumes "q < (n :: nat)"
  shows "(\<Sum>p<n. f ((h(q := s)) p)) = (\<Sum>p<n. f (h p)) - f (h q) + f s"
proof -
  have "(\<Sum>p<n. f ((h(q := s)) p)) = f s + (\<Sum>p\<in>{..<n} - {q}. f (h p))"
    using assms by (subst sum.remove [where x = q]) auto
  moreover have "(\<Sum>p<n. f (h p)) = f (h q) + (\<Sum>p\<in>{..<n} - {q}. f (h p))"
    using assms by (subst sum.remove [where x = q]) auto
  ultimately show ?thesis by simp
qed

lemma sum_list_upd:
  fixes f :: "'a \<Rightarrow> int"
  assumes "distinct xs"
  shows "(\<Sum>q\<leftarrow>xs. f ((h(p := r)) q)) = (\<Sum>q\<leftarrow>xs. f (h q)) + (if p \<in> set xs then f r - f (h p) else 0)"
  using assms by (induction xs) auto

lemma standing_frame [simp]:
  "standing cfg pl (m\<lparr>mg_wallet := w\<rparr>) = standing cfg pl m"
  "standing cfg pl (m\<lparr>mg_disk := fs\<rparr>) = standing cfg pl m"
  "standing cfg pl (m\<lparr>mg_prevTrack := t\<rparr>) = standing cfg pl m"
  "standing cfg pl (m\<lparr>mg_pending := ps\<rparr>) = standing cfg pl m"
  "standing cfg pl (m\<lparr>mg_roundBets := rbs\<rparr>) = standing cfg pl m"
  "standing cfg pl (m\<lparr>mg_sessions := ss\<rparr>) = standing cfg pl m"
  by (simp_all add: standing_def)

lemma standing_session:
  "p < mg_next m \<Longrightarrow> standing cfg pl (m\<lparr>mg_heap := (mg_heap m)(p := s)\<rparr>) =
    standing cfg pl m - session_stake pl (mg_heap m p) + session_stake pl s"
  unfolding standing_def by (simp add: sum_upd [of p, where f = "session_stake pl"] del: fun_upd_apply)

lemma standing_open:
  "session_stake pl s = 0 \<Longrightarrow> standing cfg pl (m\<lparr>mg_heap := (mg_heap m)(mg_next m := s), mg_next := Suc (mg_next m)\<rparr>) =
    standing cfg pl m"
  by (simp add: standing_def)

lemma no_bets [simp]: "bets_stake cfg pl [] = 0" "bets_stake cfg pl (b # bs) = round_stake cfg pl b + bets_stake cfg pl bs"
  by (simp_all add: bets_stake_def)

lemma bets_stake_snoc [simp]: "bets_stake cfg pl (bs @ [b]) = bets_stake cfg pl bs + round_stake cfg pl b"
  by (simp add: bets_stake_def)

lemma pending_old: "mgr_inv cfg m \<Longrightarrow> q \<in> set (mg_pendingRounds m) \<Longrightarrow> q < mg_nextRound m"
  by (auto simp: mgr_inv_def rounds_ok_def round_entry_ok_def)

lemma standing_add_round:
  assumes "mgr_inv cfg m"
  shows "standing cfg' pl (add_round spec m) = standing cfg' pl m"
    and "standing cfg' pl ((add_round spec m)\<lparr>mg_pendingRounds := mg_pendingRounds m @ [mg_nextRound m]\<rparr>) = standing cfg' pl m"
proof -
  let ?r = "\<lparr>pr_spec = spec, pr_bets = []\<rparr>"
  have d: "distinct (mg_pendingRounds m)" "mg_nextRound m \<notin> set (mg_pendingRounds m)"
    using assms pending_old [OF assms, of "mg_nextRound m"] by (auto simp: mgr_inv_def rounds_ok_def)
  note same = sum_list_upd [OF d(1), of "\<lambda>r. bets_stake cfg' pl (pr_bets r)" "mg_rounds m" "mg_nextRound m" ?r]
  show "standing cfg' pl (add_round spec m) = standing cfg' pl m"
    "standing cfg' pl ((add_round spec m)\<lparr>mg_pendingRounds := mg_pendingRounds m @ [mg_nextRound m]\<rparr>) = standing cfg' pl m"
    using same d(2) by (simp_all add: standing_def add_round_def del: fun_upd_apply) (simp_all)
qed

lemma standing_round_bet:
  assumes "mgr_inv cfg m"
  shows "standing cfg' pl (m\<lparr>mg_rounds := (mg_rounds m)(pr := (mg_rounds m pr)\<lparr>pr_bets := pr_bets (mg_rounds m pr) @ [b]\<rparr>)\<rparr>) =
    standing cfg' pl m + (if pr \<in> set (mg_pendingRounds m) then round_stake cfg' pl b else 0)"
proof -
  let ?r = "(mg_rounds m pr)\<lparr>pr_bets := pr_bets (mg_rounds m pr) @ [b]\<rparr>"
  have "distinct (mg_pendingRounds m)" using assms by (simp add: mgr_inv_def rounds_ok_def)
  from sum_list_upd [OF this, of "\<lambda>r. bets_stake cfg' pl (pr_bets r)" "mg_rounds m" pr ?r] show ?thesis
    unfolding standing_def by (simp del: fun_upd_apply)
qed

lemma session_stake_place:
  assumes "session_place_bet now b s = (None, s')"
  shows "session_stake pl s = 0 \<and> session_stake pl s' = (if bet_PlayerID b = pl then uint (bet_Amount b) else 0)"
proof -
  have "ses_Bet s = None" "ses_Bet s' = Some (b\<lparr>bet_MarbleIndex := - 1\<rparr>)"
    using assms by (auto simp: session_place_bet_def split: if_splits)
  then show ?thesis by (simp add: session_stake_def)
qed

lemma session_stake_assign:
  assumes "session_assign_marble now i s = (None, s')"
  shows "session_stake pl s' = session_stake pl s"
proof -
  obtain b where "ses_Bet s = Some b" "ses_Bet s' = Some (b\<lparr>bet_MarbleIndex := i\<rparr>)"
    using assms by (auto simp: session_assign_marble_def split: if_splits option.splits)
  then show ?thesis by (simp add: session_stake_def)
qed

lemma session_stake_settle: "session_settle now out s = (None, s') \<Longrightarrow> session_stake pl s' = 0"
  by (auto simp: session_settle_def session_stake_def split: if_splits)

lemma session_stake_close:
  assumes "session_close now s = (e, s')"
  shows "session_stake pl s' = session_stake pl s"
proof -
  have "ses_Bet s' = ses_Bet s" using assms by (auto simp: session_close_def split: if_splits)
  then show ?thesis by (simp add: session_stake_def)
qed

abbreviation books :: "string \<Rightarrow> ('w \<times> (string \<Rightarrow> int)) mgr \<Rightarrow> int" where
  "books pl m \<equiv> snd (mg_wallet m) pl"

definition next_stake :: "'v mgr_config \<Rightarrow> string \<Rightarrow> 'w mgr \<Rightarrow> (job, answer) progress \<Rightarrow> int" where
  "next_stake cfg pl m r = (case r of Next j \<Rightarrow> job_stake cfg pl m j | Ret a \<Rightarrow> 0)"

text \<open>What a section takes from the player goes to the bets, to its own hands, to the operator, or is forfeited.\<close>

definition balanced :: "('w \<times> (string \<Rightarrow> int)) mgr_config \<Rightarrow> string \<Rightarrow> job \<Rightarrow> ('w \<times> (string \<Rightarrow> int)) mgr \<Rightarrow>
    (job, answer) progress \<Rightarrow> ('w \<times> (string \<Rightarrow> int)) mgr \<Rightarrow> bool" where
  "balanced cfg pl j m r m' \<longleftrightarrow>
     books pl m' - books pl m = standing cfg pl m' - standing cfg pl m +
       next_stake cfg pl m' r - job_stake cfg pl m j + earned_by cfg pl j m + forfeited_by cfg pl j m"

lemmas balance_defs = balanced_def next_stake_def job_stake_def credited_def

lemma money_sections:
  assumes "cfg_Wallet cfg = booked W"
  shows "bet_debit cfg betID t now p a m = (r, m') \<Longrightarrow> balanced cfg pl (JDebit betID t now p a) m r m'"
    and "rb_debit cfg pr u b m = (r, m') \<Longrightarrow> u = stake_units cfg b \<Longrightarrow> balanced cfg pl (JRbDebit pr u b) m r m'"
    and "bet_refund cfg p c e m = (r, m') \<Longrightarrow> bet_PlayerID c = ses_PlayerID (mg_heap m p) \<Longrightarrow>
      balanced cfg pl (JRefund p c e) m r m'"
    and "rb_refund cfg u b m = (r, m') \<Longrightarrow> u = stake_units cfg b \<Longrightarrow> balanced cfg pl (JRbRefund u b) m r m'"
proof -
  note upd = booked_debit [of W] booked_credit [of W]
  show "balanced cfg pl (JDebit betID t now p a) m r m'" if "bet_debit cfg betID t now p a m = (r, m')"
    using that upd(1) [of "ses_PlayerID (mg_heap m p)" a betID "mg_wallet m"]
    by (auto simp: bet_debit_def balance_defs assms split: prod.splits option.splits)
  show "balanced cfg pl (JRbDebit pr u b) m r m'" if "rb_debit cfg pr u b m = (r, m')" "u = stake_units cfg b"
    using that upd(1) [of "rb_PlayerID b" u "rb_BetID b" "mg_wallet m"]
    by (auto simp: rb_debit_def balance_defs round_stake_def assms split: prod.splits option.splits)
  show "balanced cfg pl (JRefund p c e) m r m'"
    if "bet_refund cfg p c e m = (r, m')" "bet_PlayerID c = ses_PlayerID (mg_heap m p)"
    using that upd(2) [of "bet_PlayerID c" "bet_Amount c" "bet_BetID c @ '':refund''" "mg_wallet m", OF prod.collapse [symmetric]]
    by (auto simp: bet_refund_def balance_defs assms)
  show "balanced cfg pl (JRbRefund u b) m r m'" if "rb_refund cfg u b m = (r, m')" "u = stake_units cfg b"
    using that upd(2) [of "rb_PlayerID b" u "rb_BetID b @ '':refund''" "mg_wallet m", OF prod.collapse [symmetric]]
    by (auto simp: rb_refund_def balance_defs round_stake_def assms)
qed

lemma payment_sections:
  assumes "cfg_Wallet cfg = booked W"
  shows "settle_credit cfg R outs p todo m = Some (r, m') \<Longrightarrow> balanced cfg pl (JCredit R outs (p # todo)) m r m'"
    and "rb_settle cfg R mf outs rbs b bs m = (r, m') \<Longrightarrow> balanced cfg pl (JRbets R mf outs rbs (b # bs)) m r m'"
proof -
  note upd = booked_credit [of W]
  show "balanced cfg pl (JCredit R outs (p # todo)) m r m'" if st: "settle_credit cfg R outs p todo m = Some (r, m')"
  proof (cases "ses_Bet (mg_heap m p)")
    case None
    with st show ?thesis by (simp add: settle_credit_def)
  next
    case (Some b)
    let ?out = "session_outcome (re_settle (rc_env R)) (sim_WinnerMarbleIndex (rc_sim R)) (rc_prize R) b"
    show ?thesis
      using st Some upd [of "ses_PlayerID (mg_heap m p)" "so_PrizeAmount ?out" "so_CreditTxID ?out" "mg_wallet m"]
      by (auto simp: settle_credit_def balance_defs assms Let_def split: prod.splits option.splits if_splits)
  qed
  show "balanced cfg pl (JRbets R mf outs rbs (b # bs)) m r m'" if "rb_settle cfg R mf outs rbs b bs m = (r, m')"
    using that upd [of "rb_PlayerID b" "payout_units (cfg_oor cfg) (rb_Amount b)" "rb_BetID b @ '':credit''" "mg_wallet m"]
    by (auto simp: rb_settle_def balance_defs assms Let_def split: prod.splits option.splits if_splits)
qed

text \<open>The sections that do not call the wallet.\<close>

lemma bet_sections:
  shows "p < mg_next m \<Longrightarrow> bet_place now p c m = (r, m') \<Longrightarrow> balanced cfg pl (JPlace now p c) m r m'"
    and "mgr_inv cfg m \<Longrightarrow> rb_record pr u b bal m = (r, m') \<Longrightarrow> balanced cfg pl (JRbRecord pr u b bal) m r m'"
    and "p < mg_next m \<Longrightarrow> settle_session R outs out p todo m = (r, m') \<Longrightarrow> balanced cfg pl (JSettle R outs out p todo) m r m'"
proof -
  show "balanced cfg pl (JPlace now p c) m r m'" if "p < mg_next m" "bet_place now p c m = (r, m')"
    using that session_stake_place [of now c "mg_heap m p"]
    by (auto simp: bet_place_def balance_defs standing_session split: prod.splits option.splits)
  show "balanced cfg pl (JRbRecord pr u b bal) m r m'" if "mgr_inv cfg m" "rb_record pr u b bal m = (r, m')"
    using that standing_round_bet [OF that(1), of cfg pl pr b]
    by (auto simp: rb_record_def balance_defs split: if_splits)
  show "balanced cfg pl (JSettle R outs out p todo) m r m'" if "p < mg_next m" "settle_session R outs out p todo m = (r, m')"
    using that session_stake_settle [of "re_settle (rc_env R)" out "mg_heap m p"]
    by (auto simp: settle_session_def balance_defs standing_session split: prod.splits option.splits)
qed

lemma balanced_idle:
  assumes "books pl m' = books pl m" and "standing cfg pl m' = standing cfg pl m"
    and "next_stake cfg pl m' r = job_stake cfg pl m j" and "earned_by cfg pl j m = 0" and "forfeited_by cfg pl j m = 0"
  shows "balanced cfg pl j m r m'"
  using assms by (simp add: balanced_def)

lemma run_take_balanced:
  assumes "run_take env m = (r, m')"
  shows "balanced cfg pl (JRun env) m r m'"
  using assms by (cases "mg_pendingRounds m") (auto simp: run_take_def run_consume_def balance_defs standing_def)

lemma section_balanced:
  assumes W: "cfg_Wallet cfg = booked W" and inv: "mgr_inv cfg m" and loc: "local_ok cfg m j" and ok: "stake_ok cfg m j"
    and st: "job_step cfg j m = Some (r, m')"
  shows "balanced cfg pl j m r m'"
proof (cases "(cfg, j, m)" rule: job_step.cases)
  case (1 c rnd now pl' m0)
  have "session_stake pl (new_session sid pl' now) = 0" for sid by (simp add: session_stake_def new_session_def)
  with 1 st show ?thesis
    by (cases "pl' = []") (auto simp: OpenSession_def Let_def balance_defs standing_open)
next
  case (3 c betID t now p a m0)
  with st money_sections(1) [OF W] show ?thesis by auto
next
  case (4 c now p b m0)
  with st loc bet_sections(1) show ?thesis by auto
next
  case (5 c p b e m0)
  with st ok money_sections(3) [OF W] show ?thesis by auto
next
  case (8 c now p m0)
  then obtain e s where "session_close now (mg_heap m p) = (e, s)" by fastforce
  with 8 st loc session_stake_close [OF this] show ?thesis
    by (auto simp: balance_defs standing_session)
next
  case (10 c spec m0)
  with st standing_add_round(2) [OF inv] show ?thesis by (auto simp: mint_announce_def balance_defs add_round_def)
next
  case (13 c pr u b m0)
  with st ok money_sections(2) [OF W] show ?thesis by auto
next
  case (15 c pr u b bal m0)
  with st inv bet_sections(2) show ?thesis by auto
next
  case (16 c u b m0)
  with st ok money_sections(4) [OF W] show ?thesis by auto
next
  case (17 c env m0)
  with st run_take_balanced show ?thesis by auto
next
  case (19 c env ps spec m0)
  with st standing_add_round(1) [OF inv] show ?thesis by (auto simp: balance_defs) (simp_all add: add_round_def)
next
  case (22 c env ps pr seed r i p todo m0)
  then obtain e s where as: "session_assign_marble (re_assign env) i (mg_heap m p) = (e, s)" by fastforce
  have "p < mg_next m" using 22 loc by (auto simp: all_in_def stranded_def)
  with 22 st as session_stake_assign [of "re_assign env" i "mg_heap m p" s pl] show ?thesis
    by (auto simp: balance_defs standing_session split: option.splits)
next
  case (25 c R outs p todo m0)
  with st payment_sections(1) [OF W] show ?thesis by auto
next
  case (26 c R outs out p todo m0)
  have "p < mg_next m" using 26 loc by (auto simp: all_in_def stranded_def)
  with 26 st bet_sections(3) show ?thesis by auto
next
  case (29 c R mf outs rbs b bs m0)
  with st payment_sections(2) [OF W] show ?thesis by auto
qed (use st in \<open>auto simp: balance_defs bet_lookup_def mint_select_def rb_find_def rb_known_def rb_balance_def
      run_select_def run_field_def run_racing_def run_save_def Let_def split: section_splits\<close>)

section \<open>What the other calls hold\<close>

lemma holds_owns: "holds j = Some pr \<Longrightarrow> Inr pr \<in> owns j"
  by (cases j) auto

lemma holds_taken:
  assumes "local_ok cfg m j" and "holds j = Some pr"
  shows "pr < mg_nextRound m" and "pr \<notin> set (mg_pendingRounds m)"
  using assms by (cases j; auto simp: round_taken_def round_entry_ok_def)+

text \<open>The bets on a round change only where one is recorded.\<close>

definition recorded :: "nat \<Rightarrow> job \<Rightarrow> 'w mgr \<Rightarrow> round_bet list" where
  "recorded pr j m = (case j of
     JRbRecord q u b bal \<Rightarrow> if findPendingRound (rb_RoundID b) m \<noteq> None \<and> q = pr then [b] else [] | _ \<Rightarrow> [])"

lemma job_step_bets:
  assumes "job_step cfg j m = Some (r, m')" and "pr < mg_nextRound m"
  shows "pr_bets (mg_rounds m' pr) = pr_bets (mg_rounds m pr) @ recorded pr j m"
proof (cases "\<exists>q u b bal. j = JRbRecord q u b bal")
  case True
  with assms show ?thesis by (auto simp: rb_record_def recorded_def split: if_splits)
next
  case False
  then have "recorded pr j m = []" by (cases j) (auto simp: recorded_def)
  with False assms show ?thesis
    by (cases "(cfg, j, m)" rule: job_step.cases) (auto simp: section_defs split: section_splits)
qed

lemma bets_stake_append: "bets_stake cfg pl (bs @ cs) = bets_stake cfg pl bs + bets_stake cfg pl cs"
  by (simp add: bets_stake_def)

lemma job_stake_other:
  assumes "job_step cfg j m = Some (r, m')" and "local_ok cfg m i"
  shows "job_stake cfg pl m' i = job_stake cfg pl m i +
    (case holds i of None \<Rightarrow> 0 | Some pr \<Rightarrow> bets_stake cfg pl (recorded pr j m))"
  using job_step_bets [OF assms(1)] holds_taken(1) [OF assms(2)]
  by (auto simp: job_stake_def bets_stake_append split: option.split)

section \<open>All interleavings\<close>

definition ledger_inv :: "'w mgr_config \<Rightarrow> (job, 'w mgr) pool \<Rightarrow> bool" where
  "ledger_inv cfg c \<longleftrightarrow> mgr_threads.pool_inv cfg c \<and> finite (dom (snd c)) \<and>
     (\<forall>t j. snd c t = Some j \<longrightarrow> stake_ok cfg (fst c) j)"

text \<open>A recorded bet goes to the open bets, to the one run that holds the round, or is forfeited.\<close>

lemma others_gain:
  assumes inv: "ledger_inv cfg (m, js)" and j: "js t = Some j" and st: "job_step cfg j m = Some (r, m')"
  shows "(\<Sum>u \<in> dom js - {t}. job_stake cfg pl m' (the (js u))) =
    (\<Sum>u \<in> dom js - {t}. job_stake cfg pl m (the (js u))) + forfeited_by cfg pl j m - forfeited_at cfg pl j (m, js)"
proof -
  let ?gain = "\<lambda>u. case holds (the (js u)) of None \<Rightarrow> 0 | Some pr \<Rightarrow> bets_stake cfg pl (recorded pr j m)"
  have fin: "finite (dom js)" using inv by (simp add: ledger_inv_def)
  have loc: "local_ok cfg m i" if "js u = Some i" for u i
    using inv that by (auto simp: ledger_inv_def mgr_threads.pool_inv_def)
  have disj: "u = v" if "js u = Some i" "js v = Some k" "holds i = Some pr" "holds k = Some pr" for u v i k pr
  proof (rule ccontr)
    assume "u \<noteq> v"
    then have "owns i \<inter> owns k = {}" using inv that(1,2) by (auto simp: ledger_inv_def mgr_threads.pool_inv_def)
    with holds_owns [OF that(3)] holds_owns [OF that(4)] show False by blast
  qed
  have "(\<Sum>u \<in> dom js - {t}. job_stake cfg pl m' (the (js u))) =
      (\<Sum>u \<in> dom js - {t}. job_stake cfg pl m (the (js u))) + (\<Sum>u \<in> dom js - {t}. ?gain u)"
    unfolding sum.distrib [symmetric] by (intro sum.cong) (auto simp: job_stake_other [OF st loc])
  moreover have "(\<Sum>u \<in> dom js - {t}. ?gain u) = forfeited_by cfg pl j m - forfeited_at cfg pl j (m, js)"
  proof (cases "\<exists>pr u b bal. j = JRbRecord pr u b bal")
    case False
    then have "?gain v = 0" for v by (cases j) (auto simp: recorded_def split: option.split)
    moreover have "forfeited_at cfg pl j (m, js) = forfeited_by cfg pl j m" using False by (cases j) (auto simp: forfeited_at_def)
    ultimately show ?thesis by simp
  next
    case True
    then obtain pr u b bal where rec: "j = JRbRecord pr u b bal" by blast
    let ?late = "findPendingRound (rb_RoundID b) m \<noteq> None"
    show ?thesis
    proof (cases "\<exists>v i. js v = Some i \<and> holds i = Some pr")
      case False
      then have "?gain v = 0" if "v \<in> dom js - {t}" for v
        using that by (auto simp: recorded_def rec split: option.split)
      then show ?thesis using False by (auto simp: forfeited_at_def rec)
    next
      case True
      then obtain v i where v: "js v = Some i" "holds i = Some pr" by blast
      then have vt: "v \<in> dom js - {t}" using j rec by auto
      have "?gain w = 0" if "w \<in> dom js - {t} - {v}" for w
        using that disj [OF _ v(1) _ v(2)] by (auto simp: recorded_def rec split: option.split)
      then have "(\<Sum>u \<in> dom js - {t}. ?gain u) = ?gain v"
        using fin vt by (subst sum.remove [of _ v]) auto
      then show ?thesis
        using v True holds_taken(2) [OF loc [OF v(1)] v(2)] by (auto simp: forfeited_at_def rec recorded_def)
    qed
  qed
  ultimately show ?thesis by simp
qed

lemma in_flight_at:
  assumes "finite (dom js)" and "js t = Some j"
  shows "in_flight cfg pl m js = (\<Sum>u \<in> dom js - {t}. job_stake cfg pl m (the (js u))) + job_stake cfg pl m j"
proof -
  have "t \<in> dom js" using assms(2) by auto
  with assms show ?thesis by (simp add: in_flight_def sum.remove [of "dom js" t])
qed

lemma in_flight_next:
  assumes "finite (dom js)" and "js t = Some j"
  shows "in_flight cfg pl m (js(t := (case r of Next i \<Rightarrow> Some i | Ret a \<Rightarrow> None))) =
    (\<Sum>u \<in> dom js - {t}. job_stake cfg pl m (the (js u))) + next_stake cfg pl m r"
proof -
  have rest: "(\<Sum>u \<in> dom js - {t}. job_stake cfg pl m (the ((js(t := x)) u))) = (\<Sum>u \<in> dom js - {t}. job_stake cfg pl m (the (js u)))" for x
    by (rule sum.cong) auto
  have "t \<in> dom js" using assms(2) by auto
  then have "dom (js(t \<mapsto> i)) = dom js" for i by auto
  with rest assms \<open>t \<in> dom js\<close> show ?thesis
    by (cases r) (simp_all add: in_flight_def next_stake_def sum.remove [of "dom js" t] dom_fun_upd del: fun_upd_apply, simp_all)
qed

text \<open>A bet's player stays the player of its session.\<close>

lemma stake_ok_kept:
  assumes "job_step cfg j m = Some (r, m')" and "local_ok cfg m i" and "stake_ok cfg m i"
  shows "stake_ok cfg m' i"
  using assms(2,3) job_step_players [OF assms(1)] by (cases i) auto

lemma call_job_stake: "job_stake cfg pl m (call_job ev) = 0 \<and> stake_ok cfg m (call_job ev)"
  by (cases ev) (auto simp: job_stake_def)

lemma in_flight_begin:
  assumes "finite (dom js)" and "js t = None"
  shows "in_flight cfg pl m (js(t \<mapsto> j)) = in_flight cfg pl m js + job_stake cfg pl m j"
proof -
  have "(\<Sum>u \<in> dom js. job_stake cfg pl m (the ((js(t \<mapsto> j)) u))) = (\<Sum>u \<in> dom js. job_stake cfg pl m (the (js u)))"
    using assms(2) by (intro sum.cong) auto
  with assms show ?thesis by (simp add: in_flight_def domIff del: fun_upd_apply) simp
qed

definition gained_at :: "'w mgr_config \<Rightarrow> string \<Rightarrow> job \<Rightarrow> (job, 'w mgr) pool \<Rightarrow> int" where
  "gained_at cfg pl j c = earned_by cfg pl j (fst c) + forfeited_at cfg pl j c"

lemma ledger_step:
  assumes W: "cfg_Wallet cfg = booked W" and inv: "ledger_inv cfg (m, js)"
    and ap: "pool_apply (job_step cfg) ev (m, js) = Some (a, m', js')"
    and en: "\<And>t j. ev = Begin t j \<Longrightarrow> call_enabled j"
  shows "ledger_inv cfg (m', js') \<and>
    books pl m' - books pl m = standing cfg pl m' + in_flight cfg pl m' js' - (standing cfg pl m + in_flight cfg pl m js) +
      (case ev of Sched t \<Rightarrow> (case js t of None \<Rightarrow> 0 | Some j \<Rightarrow> gained_at cfg pl j (m, js)) | Begin t j \<Rightarrow> 0)"
proof -
  have pool: "mgr_threads.pool_inv cfg (m', js')"
    using mgr_threads.pool_inv_apply [of cfg m js ev a "(m', js')"] inv en ap by (auto simp: ledger_inv_def)
  have fin: "finite (dom js)" using inv by (simp add: ledger_inv_def)
  show ?thesis
  proof (cases ev)
    case (Begin t j)
    then obtain e where "j = call_job e" using en by (auto simp: call_enabled_def)
    with Begin ap inv pool call_job_stake [of cfg pl m e] in_flight_begin [OF fin, of t cfg pl m j] show ?thesis
      by (auto simp: ledger_inv_def split: if_splits)
  next
    case (Sched t)
    show ?thesis
    proof (cases "js t")
      case None
      with Sched ap inv show ?thesis by simp
    next
      case (Some j)
      obtain r where st: "job_step cfg j m = Some (r, m')"
          and js': "js' = js(t := (case r of Next i \<Rightarrow> Some i | Ret b \<Rightarrow> None))"
        using ap Sched Some by (auto split: option.splits progress.splits)
      have loc: "local_ok cfg m i" "stake_ok cfg m i" if "js u = Some i" for u i
        using inv that by (auto simp: ledger_inv_def mgr_threads.pool_inv_def)
      have g: "mgr_inv cfg m" using inv by (simp add: ledger_inv_def mgr_threads.pool_inv_def)
      have "stake_ok cfg m' i" if "js' u = Some i" for u i
        using that loc stake_ok_kept [OF st] stake_ok_step [of cfg j m i m'] st Some
        by (auto simp: js' split: if_splits progress.splits)
      moreover have "finite (dom js')" using fin by (simp add: js')
      moreover have "balanced cfg pl j m r m'" by (rule section_balanced [OF W g loc [OF Some] st])
      ultimately show ?thesis
        using pool Sched Some in_flight_at [OF fin Some, of cfg pl m] in_flight_next [OF fin Some, of cfg pl m' r]
          others_gain [OF inv Some st, of pl]
        by (simp add: ledger_inv_def balanced_def js' gained_at_def)
    qed
  qed
qed

lemma ledger_run:
  assumes W: "cfg_Wallet cfg = booked W" and "ledger_inv cfg (m, js)"
    and "pool_run (job_step cfg) evs (m, js) = Some (as, m', js')"
    and "\<And>t j. Begin t j \<in> set evs \<Longrightarrow> call_enabled j"
  shows "books pl m' - books pl m =
    standing cfg pl m' + in_flight cfg pl m' js' - (standing cfg pl m + in_flight cfg pl m js) +
    earned cfg pl evs (m, js) + forfeited cfg pl evs (m, js)"
  using assms(2-4)
proof (induction evs arbitrary: m js as)
  case (Cons ev evs)
  obtain a m1 js1 as1 where ap: "pool_apply (job_step cfg) ev (m, js) = Some (a, m1, js1)"
      and rest: "pool_run (job_step cfg) evs (m1, js1) = Some (as1, m', js')"
    using Cons.prems(2) by (auto split: option.splits)
  have one: "ledger_inv cfg (m1, js1) \<and>
    books pl m1 - books pl m = standing cfg pl m1 + in_flight cfg pl m1 js1 - (standing cfg pl m + in_flight cfg pl m js) +
      (case ev of Sched t \<Rightarrow> (case js t of None \<Rightarrow> 0 | Some j \<Rightarrow> gained_at cfg pl j (m, js)) | Begin t j \<Rightarrow> 0)"
    by (rule ledger_step [OF W Cons.prems(1) ap]) (use Cons.prems(3) in auto)
  have "books pl m' - books pl m1 =
      standing cfg pl m' + in_flight cfg pl m' js' - (standing cfg pl m1 + in_flight cfg pl m1 js1) +
      earned cfg pl evs (m1, js1) + forfeited cfg pl evs (m1, js1)"
    using one Cons.prems(3) by (intro Cons.IH [OF _ rest]) auto
  with one ap show ?case
    by (cases ev) (auto simp: earned_def forfeited_def gained_at_def split: option.splits)
qed (simp add: earned_def forfeited_def)

lemma stake_nonneg [simp]:
  "0 \<le> session_stake pl s" "0 \<le> round_stake cfg pl b" "0 \<le> bets_stake cfg pl bs" "0 \<le> job_stake cfg pl m j"
proof -
  show "0 \<le> session_stake pl s" by (simp add: session_stake_def split: option.split)
  show b: "0 \<le> round_stake cfg pl b" for b by (simp add: round_stake_def)
  show bs: "0 \<le> bets_stake cfg pl bs" for bs by (auto simp: bets_stake_def b intro!: sum_list_nonneg)
  have "0 \<le> own_stake cfg pl j" using b bs by (cases j) auto
  then show "0 \<le> job_stake cfg pl m j" using bs by (simp add: job_stake_def split: option.split)
qed

lemma forfeited_nonneg: "0 \<le> forfeited cfg pl evs c"
proof -
  have by_sec: "0 \<le> forfeited_by cfg pl j m" for j m
    by (cases "(cfg, pl, j, m)" rule: forfeited_by.cases) (auto split: option.split progress.split answer.split sum.split prod.split)
  have "forfeited_at cfg pl j c \<in> {0, forfeited_by cfg pl j (fst c)}" for j c
    by (cases j) (simp_all add: forfeited_at_def del: forfeited_by.simps)
  with by_sec have "0 \<le> forfeited_at cfg pl j c" for j c by (metis empty_iff insert_iff order_refl)
  then have "0 \<le> over_schedule cfg (forfeited_at cfg pl) evs c"
    by (induction evs arbitrary: c) (auto split: option.split pool_event.split intro!: add_nonneg_nonneg)
  then show ?thesis by (simp add: forfeited_def)
qed

section \<open>Properties\<close>

text \<open>
  C3: no money is made or lost.  From a fresh manager on, whatever calls run beside each other and
  wherever they are, what the wallet has acknowledged taking from a player, less what it has
  acknowledged paying, is the sum of four parts: the player's open bets, which are those in a session
  in BET or RACING (also those that a failed run has left there) and those on announced rounds that
  no run has taken; what calls in progress hold, be it a stake on its way or the bets of the round
  they run; what the operator has earned, which is the stakes of the bets that were settled less the
  prizes and payouts; and what was forfeited without a settlement, by a refund that the wallet
  refused, on a round whose run failed, or by a bet recorded on a round after its run.
\<close>

theorem money_is_accounted_for:
  assumes "cfg_Wallet cfg = booked W" and "cfg_ok cfg" and "idle_start (m0, js0)"
    and "pool_run (job_step cfg) evs (m0, js0) = Some (as, m, js)"
    and "\<And>t j. Begin t j \<in> set evs \<Longrightarrow> call_enabled j"
  shows "books pl m - books pl m0 =
      standing cfg pl m + in_flight cfg pl m js + earned cfg pl evs (m0, js0) + forfeited cfg pl evs (m0, js0) \<and>
    0 \<le> standing cfg pl m \<and> 0 \<le> in_flight cfg pl m js \<and> 0 \<le> forfeited cfg pl evs (m0, js0)"
proof -
  have idle: "js0 = (\<lambda>_. None)" "fresh_mgr m0" using assms(3) by (simp_all add: idle_start_def)
  have "mgr_threads.pool_inv cfg (m0, js0)" using conc_inv [OF reach_init assms(2)] assms(3) by blast
  then have "ledger_inv cfg (m0, js0)" by (simp add: ledger_inv_def idle)
  from ledger_run [OF assms(1) this assms(4,5), where pl = pl]
  have "books pl m - books pl m0 =
      standing cfg pl m + in_flight cfg pl m js + earned cfg pl evs (m0, js0) + forfeited cfg pl evs (m0, js0)"
    using idle(2) by (auto simp: idle(1) in_flight_def standing_def fresh_mgr_def blank_mgr_def)
  then show ?thesis
    using forfeited_nonneg [of cfg pl evs] by (auto simp: standing_def in_flight_def intro!: add_nonneg_nonneg sum_nonneg sum_list_nonneg)
qed

section \<open>A bet on its way\<close>

definition ledger_cfg :: "(mock_wallet \<times> (string \<Rightarrow> int)) mgr_config" where
  "ledger_cfg = \<lparr>cfg_Wallet = booked MockWallet, cfg_GodotBin = ''godot'', cfg_ProjectPath = ''game'', cfg_WorkRoot = ''w'',
     cfg_BuyIn = 100, cfg_RTPBps = 9500, cfg_MaxMarbles = 2, cfg_SimTimeout = 60000000000, cfg_TrackPool = [3],
     cfg_oor = (\<lambda>_. 0)\<rparr>"

definition ledger_mgr :: "(mock_wallet \<times> (string \<Rightarrow> int)) mgr" where
  "ledger_mgr = blank_mgr (SetBalance ''alice'' 1000 NewMockWallet, \<lambda>_. 0) []"

definition ledger_schedule :: "job pool_event list" where
  "ledger_schedule = [Begin 0 (JOpen [1] 5 ''alice''), Sched 0,
     Begin 1 (JBet [2] 6 6 (newID ''sess_'' [1]) 100), Sched 1, Sched 1]"

text \<open>Alice's stake is debited and not yet in her session.\<close>

definition ledger_bet :: bet where
  "ledger_bet = \<lparr>bet_BetID = newID ''bet_'' [2], bet_Amount = 100, bet_PlayerID = ''alice'', bet_PlacedAt = 6,
     bet_MarbleIndex = 0\<rparr>"

lemma ledger_schedule_run:
  "\<exists>as m js. pool_run (job_step ledger_cfg) ledger_schedule (ledger_mgr, \<lambda>_. None) = Some (as, m, js) \<and>
     books ''alice'' m = 100 \<and> js = [1 \<mapsto> JPlace 6 0 ledger_bet]"
  by (simp add: ledger_bet_def ledger_schedule_def ledger_mgr_def ledger_cfg_def blank_mgr_def OpenSession_def Let_def
      bet_lookup_def bet_debit_def booked_def MockWallet_def mock_debit_def SetBalance_def NewMockWallet_def new_session_def)

theorem money_is_accounted_for_witness:
  "\<exists>as m js. pool_run (job_step ledger_cfg) ledger_schedule (ledger_mgr, \<lambda>_. None) = Some (as, m, js) \<and>
     in_flight ledger_cfg ''alice'' m js = 100 \<and>
     standing ledger_cfg ''alice'' m + earned ledger_cfg ''alice'' ledger_schedule (ledger_mgr, \<lambda>_. None) +
       forfeited ledger_cfg ''alice'' ledger_schedule (ledger_mgr, \<lambda>_. None) = 0"
proof -
  obtain as m js where run: "pool_run (job_step ledger_cfg) ledger_schedule (ledger_mgr, \<lambda>_. None) = Some (as, m, js)"
      and m: "books ''alice'' m = 100" and js: "js = [1 \<mapsto> JPlace 6 0 ledger_bet]"
    using ledger_schedule_run by blast
  have W: "cfg_Wallet ledger_cfg = booked MockWallet" and ok: "cfg_ok ledger_cfg"
    by (simp_all add: ledger_cfg_def cfg_ok_def)
  have idle: "idle_start (ledger_mgr, \<lambda>_. None)" by (auto simp: idle_start_def fresh_mgr_def ledger_mgr_def)
  have en: "call_enabled j" if "Begin t j \<in> set ledger_schedule" for t j
    using that unfolding call_enabled_def ledger_schedule_def
    by (auto intro: exI [of _ "EvOpen [1] 5 ''alice''"] exI [of _ "EvBet [2] 6 6 (newID ''sess_'' [1]) 100"])
  have eq: "books ''alice'' m - books ''alice'' ledger_mgr = standing ledger_cfg ''alice'' m + in_flight ledger_cfg ''alice'' m js +
      earned ledger_cfg ''alice'' ledger_schedule (ledger_mgr, \<lambda>_. None) +
      forfeited ledger_cfg ''alice'' ledger_schedule (ledger_mgr, \<lambda>_. None)"
    using money_is_accounted_for [OF W ok idle run, where pl = "''alice''"] en by blast
  have fly: "in_flight ledger_cfg ''alice'' m js = 100" using js by (simp add: in_flight_def job_stake_def ledger_bet_def)
  moreover have "books ''alice'' ledger_mgr = 0" by (simp add: ledger_mgr_def blank_mgr_def)
  ultimately show ?thesis using run m eq by auto
qed

end
