(* ===== verification/Store_Conc.thy ===== *)
theory Store_Conc
  imports Archive_Api Threads
begin

text \<open>
  The audit store used by several goroutines and processes at once (server/replay/store.go and
  server/api/http.go): any number of saves, archive requests and verifications on one disk, each
  taken apart into its system calls, and processes that die between any two of them.
\<close>

section \<open>Calls and their system calls\<close>

text \<open>The four moments of a file that is written: created, half written, written, synced.\<close>

datatype file_stage = CreateFile | WriteSome | WriteAll | SyncFile

datatype store_job =
    SaveCall save_env "manifest option" "byte list"
  | MkTemp save_env manifest "byte list"
  | PutReplay file_stage save_env manifest "byte list"
  | PutManifest file_stage save_env manifest "byte list"
  | Publish save_env manifest "byte list"
  | Discard save_env manifest "byte list" gerr "manifest option"
  | Get archive_env http_request
  | Send archive_env http_request u64 manifest
  | Audit "byte list \<Rightarrow> gerr + manifest" "read_call \<Rightarrow> gerr option" u64
  | Hash "read_call \<Rightarrow> gerr option" u64 manifest

datatype store_answer =
    Saved "gerr option" "manifest option"
  | Served "archive_doc wop list"
  | Verified "gerr option"

type_synonym store_progress = "(store_job, store_answer) progress \<times> disk"

abbreviation tmp_of :: "save_env \<Rightarrow> manifest \<Rightarrow> string" where
  "tmp_of env mf \<equiv> tmp_name env (mf_RoundID mf)"

definition save_look :: "save_env \<Rightarrow> manifest option \<Rightarrow> byte list \<Rightarrow> disk \<Rightarrow> store_progress" where
  "save_look env m b fs =
     (case validateManifestForSave m of
        Some e \<Rightarrow> (Ret (Saved (Some e) m), fs)
      | None \<Rightarrow>
          (case os_stat env (roundDir (mf_RoundID (the m))) fs of
             None \<Rightarrow> (Ret (Saved (Some (Wrapf ''round_id'' (Sentinel (ReplayErr ErrReplayRoundExists)))) m), fs)
           | Some se \<Rightarrow>
               if \<not> errors_is se (StdErr ErrNotExist)
               then (Ret (Saved (Some (Wrapf ''replay: stat round dir'' se)) m), fs)
               else (Next (MkTemp env (the m) b), fs)))"

definition save_mkdir :: "save_env \<Rightarrow> manifest \<Rightarrow> byte list \<Rightarrow> disk \<Rightarrow> store_progress" where
  "save_mkdir env mf b fs =
     (case os_mkdir env (tmp_of env mf) fs of
        Inl e \<Rightarrow> (Ret (Saved (Some (Wrapf ''replay: mkdir temp'' e)) (Some mf)), fs)
      | Inr fs' \<Rightarrow> (Next (PutReplay CreateFile env mf b), fs'))"

text \<open>The calls of \<open>copyWithSHA256\<close>; a failing one leads to the deferred clean-up.\<close>

fun save_replay :: "file_stage \<Rightarrow> save_env \<Rightarrow> manifest \<Rightarrow> byte list \<Rightarrow> disk \<Rightarrow> store_progress" where
  "save_replay CreateFile env mf b fs =
     (case se_fault env CreateReplay of
        Some e \<Rightarrow> (Next (Discard env mf b (Wrapf ''replay: write replay.bin'' e) (Some mf)), fs)
      | None \<Rightarrow> (Next (PutReplay WriteSome env mf b), in_dir (\<lambda>d. d\<lparr>rd_replay := Some []\<rparr>) (tmp_of env mf) fs))"
| "save_replay WriteSome env mf b fs =
     (Next (PutReplay WriteAll env mf b), in_dir (\<lambda>d. d\<lparr>rd_replay := Some (se_partial env)\<rparr>) (tmp_of env mf) fs)"
| "save_replay WriteAll env mf b fs =
     (case se_fault env CopyReplay of
        Some e \<Rightarrow> (Next (Discard env mf b (Wrapf ''replay: write replay.bin'' e) (Some mf)), fs)
      | None \<Rightarrow> (Next (PutReplay SyncFile env mf b), in_dir (\<lambda>d. d\<lparr>rd_replay := Some b\<rparr>) (tmp_of env mf) fs))"
| "save_replay SyncFile env mf b fs =
     (case se_fault env SyncReplay of
        Some e \<Rightarrow> (Next (Discard env mf b (Wrapf ''replay: write replay.bin'' e) (Some mf)), fs)
      | None \<Rightarrow> (Next (PutManifest CreateFile env mf b), fs))"

text \<open>
  The calls of \<open>writeJSONFile\<close>.  The job keeps the manifest of the caller; from here on the
  caller's manifest has the checksum and the creation time, \<^term>\<open>stamped env b mf\<close>.
\<close>

fun save_json :: "file_stage \<Rightarrow> save_env \<Rightarrow> manifest \<Rightarrow> byte list \<Rightarrow> disk \<Rightarrow> store_progress" where
  "save_json CreateFile env mf b fs =
     (case se_fault env CreateManifest of
        Some e \<Rightarrow> (Next (Discard env mf b (Wrapf ''replay: write manifest'' e) (Some (stamped env b mf))), fs)
      | None \<Rightarrow> (Next (PutManifest WriteSome env mf b), in_dir (\<lambda>d. d\<lparr>rd_manifest := Some (RawDoc [])\<rparr>) (tmp_of env mf) fs))"
| "save_json WriteSome env mf b fs =
     (Next (PutManifest WriteAll env mf b),
      in_dir (\<lambda>d. d\<lparr>rd_manifest := Some (RawDoc (se_partial_doc env))\<rparr>) (tmp_of env mf) fs)"
| "save_json WriteAll env mf b fs =
     (case se_fault env EncodeManifest of
        Some e \<Rightarrow> (Next (Discard env mf b (Wrapf ''replay: write manifest'' e) (Some (stamped env b mf))), fs)
      | None \<Rightarrow> (Next (PutManifest SyncFile env mf b),
          in_dir (\<lambda>d. d\<lparr>rd_manifest := Some (JsonOf (stamped env b mf))\<rparr>) (tmp_of env mf) fs))"
| "save_json SyncFile env mf b fs =
     (case se_fault env SyncManifest of
        Some e \<Rightarrow> (Next (Discard env mf b (Wrapf ''replay: write manifest'' e) (Some (stamped env b mf))), fs)
      | None \<Rightarrow> (Next (Publish env mf b), fs))"

definition save_publish :: "save_env \<Rightarrow> manifest \<Rightarrow> byte list \<Rightarrow> disk \<Rightarrow> store_progress" where
  "save_publish env mf b fs =
     (case os_rename env (tmp_of env mf) (roundDir (mf_RoundID mf)) fs of
        Inl e \<Rightarrow> (Next (Discard env mf b (Wrapf ''replay: finalize round dir'' e) (Some (stamped env b mf))), fs)
      | Inr fs' \<Rightarrow> (Ret (Saved None (Some (stamped env b mf))), fs'))"

definition save_discard :: "save_env \<Rightarrow> manifest \<Rightarrow> gerr \<Rightarrow> manifest option \<Rightarrow> disk \<Rightarrow> store_progress" where
  "save_discard env mf e m fs = (Ret (Saved (Some e) m), os_remove_all env (tmp_of env mf) fs)"

text \<open>A replay is sent in two steps, its manifest is read and then its file; other requests read once.\<close>

definition get_look :: "archive_env \<Rightarrow> http_request \<Rightarrow> disk \<Rightarrow> store_progress" where
  "get_look env r fs =
     (case archive_route_of (rq_method r) (rq_path r) of
        Some (ReplayRoute ids) \<Rightarrow>
          (case archive_parseRoundID ids of
             Inl e \<Rightarrow> (Ret (Served (fst (archive_handler env r fs))), fs)
           | Inr rid \<Rightarrow>
               (case Load (ar_parse env) (ar_read env) rid fs of
                  Inl e \<Rightarrow> (Ret (Served (fst (archive_handler env r fs))), fs)
                | Inr (m, path) \<Rightarrow> (Next (Send env r rid m), fs)))
      | _ \<Rightarrow> (Ret (Served (fst (archive_handler env r fs))), fs))"

definition get_send :: "archive_env \<Rightarrow> http_request \<Rightarrow> u64 \<Rightarrow> manifest \<Rightarrow> disk \<Rightarrow> store_progress" where
  "get_send env r rid m fs = (Ret (Served (fst (corsMiddleware (\<lambda>r' fs'. (send_replay env r' rid m fs', None, fs')) r fs))), fs)"

definition verify_look :: "(byte list \<Rightarrow> gerr + manifest) \<Rightarrow> (read_call \<Rightarrow> gerr option) \<Rightarrow> u64 \<Rightarrow> disk \<Rightarrow> store_progress" where
  "verify_look parse rd rid fs =
     (case Load parse rd rid fs of
        Inl e \<Rightarrow> (Ret (Verified (Some e)), fs)
      | Inr (m, path) \<Rightarrow> (Next (Hash rd rid m), fs))"

fun store_section :: "store_job \<Rightarrow> disk \<Rightarrow> store_progress option" where
  "store_section (SaveCall env m b) fs = Some (save_look env m b fs)"
| "store_section (MkTemp env mf b) fs = Some (save_mkdir env mf b fs)"
| "store_section (PutReplay st env mf b) fs = Some (save_replay st env mf b fs)"
| "store_section (PutManifest st env mf b) fs = Some (save_json st env mf b fs)"
| "store_section (Publish env mf b) fs = Some (save_publish env mf b fs)"
| "store_section (Discard env mf b e m) fs = Some (save_discard env mf e m fs)"
| "store_section (Get env r) fs = Some (get_look env r fs)"
| "store_section (Send env r rid m) fs = Some (get_send env r rid m fs)"
| "store_section (Audit parse rd rid) fs = Some (verify_look parse rd rid fs)"
| "store_section (Hash rd rid m) fs = Some (Ret (Verified (hash_replay rd rid m fs)), fs)"

fun store_entry :: "store_job \<Rightarrow> bool" where
  "store_entry (SaveCall env m b) = True"
| "store_entry (Get env r) = True"
| "store_entry (Audit parse rd rid) = True"
| "store_entry _ = False"

text \<open>
  A process that dies takes its calls with it, wherever they are, and leaves the disk.  Other
  programs may keep things of their own beside the rounds, as the daemons do in \<open>.work\<close>, under names
  that are neither numbers nor begin like a temporary directory; they come and go.
\<close>

datatype archive_event = Run "store_job pool_event" | Crash "nat set" | Other string "dirent option"

definition other_name :: "string \<Rightarrow> bool" where
  "other_name n \<longleftrightarrow> (\<exists>e. parse_uint n = Inl e) \<and> take 8 n \<noteq> ''pending-''"

definition archive_start :: "(store_job, disk) pool \<Rightarrow> bool" where
  "archive_start c \<longleftrightarrow> distinct (map fst (fst c)) \<and> (\<forall>x \<in> set (fst c). other_name (fst x)) \<and> snd c = (\<lambda>_. None)"

fun archive_step :: "(store_job, disk) pool \<Rightarrow> archive_event \<Rightarrow> (store_job, disk) pool \<Rightarrow> bool" where
  "archive_step c (Run ev) c' = pool_step store_section (\<lambda>_. store_entry) c ev c'"
| "archive_step c (Crash T) c' = (c' = (fst c, \<lambda>t. if t \<in> T then None else snd c t))"
| "archive_step c (Other n x) c' = (other_name n \<and>
     c' = (case x of None \<Rightarrow> AList.delete n (fst c) | Some d \<Rightarrow> AList.update n d (fst c), snd c))"

lemmas store_section_defs = save_look_def save_mkdir_def save_publish_def save_discard_def get_look_def get_send_def
  verify_look_def

lemmas store_section_splits = option.split_asm sum.split_asm prod.split_asm archive_route.split_asm if_splits

section \<open>Alone, the sections are the operations\<close>

lemma solo_section: "solo store_section j fs =
   (case store_section j fs of
      None \<Rightarrow> None
    | Some (Next j', fs') \<Rightarrow> solo store_section j' fs'
    | Some (Ret a, fs') \<Rightarrow> Some (a, fs'))"
  by (subst solo.simps) simp

lemma solo_discard: "solo store_section (Discard env mf b e m) fs = Some (Saved (Some e) m, os_remove_all env (tmp_of env mf) fs)"
  by (simp add: save_discard_def)

lemma in_dir_twice: "in_dir f n (in_dir g n fs) = in_dir (f \<circ> g) n fs"
  by (auto simp: in_dir_def update_conv' split: option.split dirent.split)

lemma file_over [simp]:
  "in_dir (rd_replay_update (\<lambda>_. x)) n (in_dir (rd_replay_update (\<lambda>_. y)) n fs) = in_dir (rd_replay_update (\<lambda>_. x)) n fs"
  "in_dir (rd_manifest_update (\<lambda>_. v)) n (in_dir (rd_manifest_update (\<lambda>_. w)) n fs) = in_dir (rd_manifest_update (\<lambda>_. v)) n fs"
  by (simp_all add: in_dir_twice comp_def)

text \<open>The two files, over the disk on which they are begun.\<close>

lemma solo_json:
  assumes "writeJSONFile env (stamped env b mf) (tmp_of env mf) fs = (res, tr)"
  shows "solo store_section (PutManifest CreateFile env mf b) fs =
    (case res of
       Some e \<Rightarrow> Some (Saved (Some (Wrapf ''replay: write manifest'' e)) (Some (stamped env b mf)), os_remove_all env (tmp_of env mf) (last tr))
     | None \<Rightarrow> solo store_section (Publish env mf b) (last tr))"
  using assms
  by (auto simp: writeJSONFile_def Let_def solo_section [of "PutManifest _ _ _ _"] solo_discard split: option.splits)

lemma solo_copy:
  assumes "copyWithSHA256 env b (tmp_of env mf) fs = (res, tr)"
  shows "solo store_section (PutReplay CreateFile env mf b) fs =
    (case res of
       Inl e \<Rightarrow> Some (Saved (Some (Wrapf ''replay: write replay.bin'' e)) (Some mf), os_remove_all env (tmp_of env mf) (last tr))
     | Inr digest \<Rightarrow> solo store_section (PutManifest CreateFile env mf b) (last tr))"
  using assms
  by (auto simp: copyWithSHA256_def Let_def solo_section [of "PutReplay _ _ _ _"] solo_discard split: option.splits)

lemma copy_digest: "copyWithSHA256 env b n fs = (Inr digest, tr) \<Longrightarrow> digest = sha256 b \<and> tr \<noteq> []"
  by (auto simp: copyWithSHA256_def Let_def split: option.splits)

lemma json_trace: "writeJSONFile env v n fs = (res, tr) \<Longrightarrow> tr \<noteq> []"
  by (auto simp: writeJSONFile_def Let_def split: option.splits)

lemma copy_trace: "copyWithSHA256 env b n fs = (res, tr) \<Longrightarrow> tr \<noteq> []"
  by (auto simp: copyWithSHA256_def Let_def split: option.splits)

text \<open>A save that nothing interrupts is \<^const>\<open>Save\<close>.\<close>

lemma solo_save_call: "solo store_section (SaveCall env m b) fs =
    (case Save env m b fs of (res, m', tr) \<Rightarrow> Some (Saved res m', last tr))"
proof (cases "validateManifestForSave m")
  case (Some e)
  then show ?thesis by (simp add: Save_def solo_section [of "SaveCall _ _ _"] save_look_def)
next
  case valid: None
  then obtain mf where m: "m = Some mf" by (auto simp: validateManifestForSave_def split: option.splits)
  show ?thesis
  proof (cases "os_stat env (roundDir (mf_RoundID mf)) fs")
    case None
    with valid m show ?thesis by (simp add: Save_def Let_def solo_section [of "SaveCall _ _ _"] save_look_def)
  next
    case (Some se)
    show ?thesis
    proof (cases "errors_is se (StdErr ErrNotExist)")
      case False
      with Some valid m show ?thesis
        by (simp add: Save_def Let_def solo_section [of "SaveCall _ _ _"] save_look_def)
    next
      case free: True
      have look: "solo store_section (SaveCall env m b) fs = solo store_section (MkTemp env mf b) fs"
        using Some free valid m by (simp add: save_look_def)
      show ?thesis
      proof (cases "os_mkdir env (tmp_of env mf) fs")
        case (Inl e)
        with Some free valid m look show ?thesis
          by (simp add: Save_def Let_def solo_section [of "MkTemp _ _ _"] save_mkdir_def)
      next
        case (Inr fs1)
        obtain r1 tr1 where cp: "copyWithSHA256 env b (tmp_of env mf) fs1 = (r1, tr1)" by fastforce
        obtain r2 tr2 where js: "writeJSONFile env (stamped env b mf) (tmp_of env mf) (last tr1) = (r2, tr2)" by fastforce
        note run = Save_after_mkdir [OF valid [unfolded m] Some free Inr cp js]
        show ?thesis
          using run copy_digest cp js copy_trace [OF cp] json_trace [OF js] look Inr
            solo_copy [OF cp] solo_json [OF js]
          by (simp add: m solo_section [of "MkTemp _ _ _"] save_mkdir_def solo_section [of "Publish _ _ _"] save_publish_def
              solo_discard cleanup_tmp_def split: sum.split option.split)
      qed
    qed
  qed
qed

text \<open>So is a request the handler, and a verification \<^const>\<open>Verify\<close>.\<close>

lemma solo_get: "solo store_section (Get env r) fs = Some (Served (fst (archive_handler env r fs)), fs)"
proof -
  have "rq_method r \<noteq> ''OPTIONS''" if "archive_route_of (rq_method r) (rq_path r) = Some (ReplayRoute ids)" for ids
    using that by (auto simp: archive_route_of_def)
  then show ?thesis
    by (auto simp: solo_section [of "Get _ _"] solo_section [of "Send _ _ _ _"] get_look_def get_send_def archive_handler_def
        archive_mux_def corsMiddleware_def getReplay_def split: option.split archive_route.split sum.split)
qed

lemma solo_verify: "solo store_section (Audit parse rd rid) fs = Some (Verified (Verify parse rd rid fs), fs)"
  by (simp add: solo_section [of "Audit _ _ _"] verify_look_def Verify_def split: sum.split)

section \<open>What calls rely on\<close>

text \<open>What a call may take for granted: what it has put into its temporary directory, and rounds it has seen.\<close>

fun written :: "file_stage \<Rightarrow> 'a \<Rightarrow> 'a \<Rightarrow> 'a \<Rightarrow> 'a option" where
  "written CreateFile blank part whole = None"
| "written WriteSome blank part whole = Some blank"
| "written WriteAll blank part whole = Some part"
| "written SyncFile blank part whole = Some whole"

abbreviation pending :: "disk \<Rightarrow> save_env \<Rightarrow> manifest \<Rightarrow> byte list option \<Rightarrow> doc option \<Rightarrow> bool" where
  "pending fs env mf r d \<equiv> map_of fs (tmp_of env mf) = Some (Directory \<lparr>rd_replay = r, rd_manifest = d\<rparr>)"

fun store_local :: "disk \<Rightarrow> store_job \<Rightarrow> bool" where
  "store_local fs (MkTemp env mf b) = (validateManifestForSave (Some mf) = None)"
| "store_local fs (PutReplay st env mf b) = (validateManifestForSave (Some mf) = None \<and>
     pending fs env mf (written st [] (se_partial env) b) None)"
| "store_local fs (PutManifest st env mf b) = (validateManifestForSave (Some mf) = None \<and>
     pending fs env mf (Some b) (written st (RawDoc []) (RawDoc (se_partial_doc env)) (JsonOf (stamped env b mf))))"
| "store_local fs (Publish env mf b) = (validateManifestForSave (Some mf) = None \<and>
     pending fs env mf (Some b) (Some (JsonOf (stamped env b mf))))"
| "store_local fs (Discard env mf b e m) = (map_of fs (tmp_of env mf) \<noteq> None)"
| "store_local fs (Send env r rid m) = (\<exists>b. map_of fs (roundDir rid) = Some (stored m b))"
| "store_local fs (Hash rd rid m) = (\<exists>b. map_of fs (roundDir rid) = Some (stored m b))"
| "store_local fs _ = True"

fun tmp_owned :: "store_job \<Rightarrow> string set" where
  "tmp_owned (PutReplay st env mf b) = {tmp_of env mf}"
| "tmp_owned (PutManifest st env mf b) = {tmp_of env mf}"
| "tmp_owned (Publish env mf b) = {tmp_of env mf}"
| "tmp_owned (Discard env mf b e m) = {tmp_of env mf}"
| "tmp_owned _ = {}"

definition unused :: "disk \<Rightarrow> string set" where
  "unused fs = {n. map_of fs n = None}"

definition keeps_entries :: "string set \<Rightarrow> disk \<Rightarrow> disk \<Rightarrow> bool" where
  "keeps_entries S fs fs' \<longleftrightarrow>
     (\<forall>n d. map_of fs n = Some d \<longrightarrow> n \<notin> S \<or> (\<exists>k. n = roundDir k) \<longrightarrow> map_of fs' n = Some d)"

lemma keeps_entries_refl [simp]: "keeps_entries S fs fs"
  by (simp add: keeps_entries_def)

lemma keeps_entries_same: "same_but (tmp_of env mf) fs fs' \<Longrightarrow> keeps_entries {tmp_of env mf} fs fs'"
  by (auto simp: keeps_entries_def same_but_def)

lemma Load_whole:
  assumes "store_inv fs" and "Load parse rd rid fs = Inr (m, path)"
  shows "\<exists>b. map_of fs (roundDir rid) = Some (stored m b)"
proof -
  obtain d where d: "map_of fs (roundDir rid) = Some d"
    using assms(2) by (auto simp: Load_def split: option.splits if_splits)
  then obtain m0 b where "d = stored m0 b" using store_inv_round [OF assms(1) d] by (auto simp: complete_def)
  with d assms(2) show ?thesis by (auto simp: Load_def stored_def split: option.splits if_splits)
qed

text \<open>What a section does to the disk: nothing, something in the call's own directory, or a new round.\<close>

lemma Publish_published:
  assumes "os_rename env (tmp_of env mf) (roundDir (mf_RoundID mf)) fs = Inr fs'"
    and "pending fs env mf (Some b) (Some (JsonOf (stamped env b mf)))"
  shows "published env mf b fs fs'"
  using rename_entry [OF assms] by (auto simp: published_def stored_def)

lemma section_effect:
  assumes inv: "store_inv fs" and loc: "store_local fs j" and st: "store_section j fs = Some (p, fs')"
  shows "fs' = fs \<or>
    (\<exists>env mf. same_but (tmp_of env mf) fs fs' \<and> (tmp_owned j = {tmp_of env mf} \<or> map_of fs (tmp_of env mf) = None)) \<or>
    (\<exists>env mf b. j = Publish env mf b \<and> p = Ret (Saved None (Some (stamped env b mf))) \<and> published env mf b fs fs')"
proof (cases j)
  case (MkTemp env mf b)
  have "map_of fs (tmp_of env mf) = None" if "os_mkdir env (tmp_of env mf) fs = Inr fs'"
    using that by (auto simp: os_mkdir_def split: option.splits if_splits)
  with MkTemp st show ?thesis
    by (auto simp: save_mkdir_def dest!: os_mkdir_same split: sum.splits)
next
  case (PutReplay x env mf b)
  with st show ?thesis by (cases x) (auto simp: intro!: exI [of _ env] exI [of _ mf] split: option.splits)
next
  case (PutManifest x env mf b)
  with st show ?thesis by (cases x) (auto simp: intro!: exI [of _ env] exI [of _ mf] split: option.splits)
next
  case (Publish env mf b)
  with st loc Publish_published [of env mf fs fs' b] show ?thesis
    by (auto simp: save_publish_def split: sum.splits)
next
  case (Discard env mf b e m)
  with st show ?thesis by (auto simp: save_discard_def intro!: exI [of _ env] exI [of _ mf])
qed (use st in \<open>auto simp: store_section_defs split: store_section_splits\<close>)

lemma store_section_inv:
  assumes "store_inv fs" and "store_local fs j" and "store_section j fs = Some (p, fs')"
  shows "store_inv fs'"
  using section_effect [OF assms] assms(1,2) same_but_inv [OF assms(1)] published_inv [OF assms(1)] by fastforce

lemma store_section_keeps:
  assumes "store_inv fs" and "store_local fs j" and "store_section j fs = Some (p, fs')"
  shows "keeps_entries (tmp_owned j) fs fs'"
  unfolding keeps_entries_def
proof (intro allI impI)
  fix n d
  assume d: "map_of fs n = Some d" "n \<notin> tmp_owned j \<or> (\<exists>k. n = roundDir k)"
  from section_effect [OF assms] show "map_of fs' n = Some d"
  proof (elim disjE exE conjE)
    fix env mf
    assume "same_but (tmp_of env mf) fs fs'" "tmp_owned j = {tmp_of env mf}"
    with d show ?thesis by (auto simp: same_but_def)
  next
    fix env mf
    assume "same_but (tmp_of env mf) fs fs'" "map_of fs (tmp_of env mf) = None"
    with d show ?thesis by (cases "n = tmp_of env mf") (simp_all add: same_but_def)
  next
    fix env mf b
    assume "j = Publish env mf b" "published env mf b fs fs'"
    with d show ?thesis by (auto simp: published_def)
  qed (use d in simp)
qed

lemma tmp_dir_named [simp]: "pending fs env mf r d \<Longrightarrow> map_of (in_dir f (tmp_of env mf) fs) (tmp_of env mf) =
    Some (Directory (f \<lparr>rd_replay = r, rd_manifest = d\<rparr>))"
  by (simp add: map_of_in_dir)

lemma store_section_local:
  assumes "store_inv fs" and loc: "store_local fs j" and st: "store_section j fs = Some (Next j', fs')"
  shows "store_local fs' j' \<and> tmp_owned j' \<subseteq> tmp_owned j \<union> unused fs"
proof (cases j)
  case (MkTemp env mf b)
  with st loc show ?thesis
    by (auto simp: save_mkdir_def unused_def os_mkdir_def split: sum.splits option.splits if_splits)
next
  case (SaveCall env m b)
  with st show ?thesis
    by (cases m) (auto simp: save_look_def validateManifestForSave_def split: option.splits if_splits)
next
  case (PutReplay x env mf b)
  with st loc show ?thesis by (cases x) (auto split: option.splits)
next
  case (PutManifest x env mf b)
  with st loc show ?thesis by (cases x) (auto split: option.splits)
next
  case (Publish env mf b)
  with st loc show ?thesis by (auto simp: save_publish_def split: sum.splits)
next
  case (Get env r)
  with st assms(1) show ?thesis by (auto simp: get_look_def dest: Load_whole split: store_section_splits)
next
  case (Audit parse rd rid)
  with st assms(1) show ?thesis by (auto simp: verify_look_def dest: Load_whole split: store_section_splits)
qed (use st in \<open>auto simp: store_section_defs\<close>)

interpretation store_threads: thread_contract store_section store_inv store_local tmp_owned unused keeps_entries store_entry
proof (unfold_locales, goal_cases)
  case (1 j s)
  then show ?case by (cases j) auto
next
  case (2 s j)
  then show ?case by (cases j) auto
next
  case (3 s j r s')
  then show ?case by (rule store_section_inv)
next
  case (4 s j j' s')
  then show ?case using store_section_local by blast
next
  case (5 s j j' s')
  then show ?case using store_section_local by blast
next
  case (6 s j r s')
  then show ?case by (rule store_section_keeps)
next
  case (7 s i S s')
  then show ?case by (cases i) (fastforce simp: keeps_entries_def)+
next
  case (8 s i)
  then show ?case by (cases i) (auto simp: unused_def)
qed

text \<open>What other programs do touches neither rounds nor temporary directories.\<close>

definition beside :: "disk \<Rightarrow> disk \<Rightarrow> bool" where
  "beside fs fs' \<longleftrightarrow> (\<forall>n. \<not> other_name n \<longrightarrow> map_of fs' n = map_of fs n) \<and> (store_inv fs \<longrightarrow> store_inv fs')"

lemma other_names [simp]: "\<not> other_name (roundDir k)" "\<not> other_name (tmp_name env rid)"
  by (simp_all add: other_name_def roundDir_def tmp_name_def)

lemma other_beside:
  assumes "other_name n"
  shows "beside fs (case x of None \<Rightarrow> AList.delete n fs | Some d \<Rightarrow> AList.update n d fs)"
proof -
  have "store_inv (AList.delete n fs) \<and> store_inv (AList.update n d fs)" if inv: "store_inv fs" for d
  proof -
    have d: "distinct (map fst fs)" using inv by (simp add: store_inv_def)
    with inv assms show ?thesis
      unfolding store_inv_map [OF d]
      by (subst (1 2) store_inv_map) (auto simp: distinct_delete distinct_update delete_conv' update_conv' other_name_def)
  qed
  then show ?thesis using assms by (auto simp: beside_def delete_conv' update_conv' split: option.split)
qed

lemma beside_local: "beside fs fs' \<Longrightarrow> store_local fs j \<Longrightarrow> store_local fs' j"
  by (cases j) (auto simp: beside_def)

text \<open>Crashes and other programs included, the invariant is never lost.\<close>

interpretation archive: invariant_system archive_start archive_step store_threads.pool_inv
proof (unfold_locales, goal_cases)
  case (1 c)
  then have "store_inv (fst c)" by (fastforce simp: archive_start_def store_inv_def other_name_def)
  with 1 store_threads.pool_inv_idle show ?case by (cases c) (simp add: archive_start_def)
next
  case (2 c ev c')
  show ?case
  proof (cases ev)
    case (Run e)
    with 2 store_threads.pool_inv_step show ?thesis by (metis archive_step.simps(1))
  next
    case (Crash T)
    with 2 show ?thesis by (auto simp: store_threads.pool_inv_def split: if_splits)
  next
    case (Other n x)
    then have b: "beside (fst c) (fst c')" "snd c' = snd c" using 2(2) other_beside by auto
    then have "store_inv (fst c')" using 2(1) by (simp add: beside_def store_threads.pool_inv_def)
    with 2(1) b(2) beside_local [OF b(1)] show ?thesis by (simp add: store_threads.pool_inv_def)
  qed
qed

lemma archive_reach_inv:
  assumes "reach archive_start archive_step (fs, js)"
  shows "store_inv fs" and "js t = Some j \<Longrightarrow> store_local fs j"
  using archive.reach_inv [OF assms] by (auto simp: store_threads.pool_inv_def)

section \<open>The vault\<close>

text \<open>What the store is for: rounds under their ids, each filed once and never changed.\<close>

type_synonym vault = "u64 \<Rightarrow> (manifest \<times> byte list) option"

definition vault :: "disk \<Rightarrow> vault" where
  "vault fs rid =
     (case map_of fs (roundDir rid) of
        Some (Directory d) \<Rightarrow>
          (case (rd_manifest d, rd_replay d) of (Some (JsonOf m), Some b) \<Rightarrow> Some (m, b) | _ \<Rightarrow> None)
      | _ \<Rightarrow> None)"

datatype vault_event = File manifest "byte list" | Quiet

fun vault_step :: "vault \<Rightarrow> vault_event \<Rightarrow> vault \<Rightarrow> bool" where
  "vault_step v (File m b) v' = (v (mf_RoundID m) = None \<and> mf_RoundID m \<noteq> 0 \<and>
     mf_ReplaySHA256Hex m = hex_encode (sha256 b) \<and> v' = v(mf_RoundID m \<mapsto> (m, b)))"
| "vault_step v Quiet v' = (v' = v)"

text \<open>The round a call is to file, which is the same at all its sections.\<close>

fun to_file :: "store_job \<Rightarrow> (manifest \<times> byte list) option" where
  "to_file (SaveCall env m b) = map_option (\<lambda>mf. (stamped env b mf, b)) m"
| "to_file (MkTemp env mf b) = Some (stamped env b mf, b)"
| "to_file (PutReplay st env mf b) = Some (stamped env b mf, b)"
| "to_file (PutManifest st env mf b) = Some (stamped env b mf, b)"
| "to_file (Publish env mf b) = Some (stamped env b mf, b)"
| "to_file (Discard env mf b e m) = Some (stamped env b mf, b)"
| "to_file _ = None"

text \<open>What an observer of the calls sees of a step: that a save has answered without an error.\<close>

definition filed :: "archive_event \<Rightarrow> (store_job, disk) pool \<Rightarrow> vault_event" where
  "filed ev c =
     (case ev of
        Run (Sched t) \<Rightarrow>
          (case snd c t of
             None \<Rightarrow> Quiet
           | Some j \<Rightarrow>
               (case (store_section j (fst c), to_file j) of
                  (Some (Ret (Saved None m), _), Some (mf, b)) \<Rightarrow> File mf b
                | _ \<Rightarrow> Quiet))
      | _ \<Rightarrow> Quiet)"

lemma vault_iff: "store_inv fs \<Longrightarrow> vault fs rid = Some (m, b) \<longleftrightarrow> map_of fs (roundDir rid) = Some (stored m b)"
  using store_inv_round [of fs rid]
  by (auto simp: vault_def stored_def complete_def split: option.splits dirent.splits doc.splits)

lemma vault_None: "store_inv fs \<Longrightarrow> vault fs rid = None \<longleftrightarrow> map_of fs (roundDir rid) = None"
  using store_inv_round [of fs rid]
  by (auto simp: vault_def stored_def complete_def split: option.splits dirent.splits doc.splits)

lemma vault_cong: "(\<And>k. map_of fs (roundDir k) = map_of fs' (roundDir k)) \<Longrightarrow> vault fs = vault fs'"
  by (rule ext) (simp add: vault_def)

lemma vault_same: "same_but (tmp_of env mf) fs fs' \<Longrightarrow> vault fs' = vault fs"
  by (rule vault_cong) (simp add: same_but_def)

lemma vault_published:
  assumes "published env mf b fs fs'"
  shows "vault fs' = (vault fs)(mf_RoundID mf \<mapsto> (stamped env b mf, b))"
proof
  fix k
  show "vault fs' k = ((vault fs)(mf_RoundID mf \<mapsto> (stamped env b mf, b))) k"
    using assms by (simp add: published_def vault_def stored_def)
qed

text \<open>The section that answers a save is the one that files its round, and no other files anything.\<close>

lemma section_files:
  assumes inv: "store_inv fs" and loc: "store_local fs j" and st: "store_section j fs = Some (p, fs')"
  shows "(\<exists>env mf b. j = Publish env mf b \<and> p = Ret (Saved None (Some (stamped env b mf))) \<and>
      vault_step (vault fs) (File (stamped env b mf) b) (vault fs')) \<or>
    (vault fs' = vault fs \<and> (\<forall>m. p \<noteq> Ret (Saved None m)))"
proof (cases "\<exists>env mf b. j = Publish env mf b \<and> published env mf b fs fs'")
  case True
  then obtain env mf b where j: "j = Publish env mf b" and pub: "published env mf b fs fs'" by blast
  then have "p = Ret (Saved None (Some (stamped env b mf))) \<or> fs' = fs"
    using st by (auto simp: save_publish_def split: sum.splits)
  moreover have "map_of fs' (roundDir (mf_RoundID mf)) \<noteq> map_of fs (roundDir (mf_RoundID mf))"
    using pub by (simp add: published_def)
  moreover have "mf_RoundID mf \<noteq> 0" using loc j by (auto simp: validateManifestForSave_def split: if_splits)
  moreover have "vault fs (mf_RoundID mf) = None" using pub by (simp add: published_def vault_def)
  ultimately show ?thesis using j vault_published [OF pub] by auto
next
  case False
  with section_effect [OF assms] have "fs' = fs \<or> (\<exists>env mf. same_but (tmp_of env mf) fs fs')" by blast
  then have "vault fs' = vault fs" using vault_same by blast
  moreover have "p \<noteq> Ret (Saved None m)" for m
  proof
    assume "p = Ret (Saved None m)"
    with st obtain env mf b where "j = Publish env mf b" "os_rename env (tmp_of env mf) (roundDir (mf_RoundID mf)) fs = Inr fs'"
      by (cases "(j, fs)" rule: store_section.cases; cases "(case j of PutReplay x _ _ _ \<Rightarrow> x | PutManifest x _ _ _ \<Rightarrow> x | _ \<Rightarrow> SyncFile)")
        (auto simp: store_section_defs split: store_section_splits)
    with loc Publish_published False show False by auto
  qed
  ultimately show ?thesis by blast
qed

lemma to_file_next: "store_section j fs = Some (Next j', fs') \<Longrightarrow> to_file j' = to_file j"
proof (cases j)
  case (SaveCall env m b)
  then show "store_section j fs = Some (Next j', fs') \<Longrightarrow> to_file j' = to_file j"
    by (cases m) (auto simp: save_look_def validateManifestForSave_def split: option.splits if_splits)
next
  case (PutReplay x env mf b)
  then show "store_section j fs = Some (Next j', fs') \<Longrightarrow> to_file j' = to_file j"
    by (cases x) (auto split: option.splits)
next
  case (PutManifest x env mf b)
  then show "store_section j fs = Some (Next j', fs') \<Longrightarrow> to_file j' = to_file j"
    by (cases x) (auto split: option.splits)
qed (auto simp: store_section_defs split: store_section_splits)

text \<open>A step of the pool, read as a section of one call or as nothing at all.\<close>

lemma archive_step_cases:
  assumes "archive_step (fs, js) ev (fs', js')"
  obtains (call) t j p where "ev = Run (Sched t)" and "js t = Some j" and "store_section j fs = Some (p, fs')"
      and "js' = js(t := (case p of Next i \<Rightarrow> Some i | Ret a \<Rightarrow> None))"
    | (none) "vault fs' = vault fs" and "filed ev (fs, js) = Quiet" and "\<And>t. ev = Run (Sched t) \<Longrightarrow> js t = None"
proof (cases ev)
  case (Crash T)
  with assms none show thesis by (simp add: filed_def)
next
  case (Other n x)
  then have "beside fs fs'" using assms other_beside [of n fs x] by (cases x) simp_all
  then have "vault fs' = vault fs" by (intro vault_cong) (simp add: beside_def)
  with Other none show thesis by (simp add: filed_def)
next
  case (Run e)
  obtain a where ap: "pool_apply store_section e (fs, js) = Some (a, fs', js')" using assms Run by (auto simp: pool_step_def)
  show thesis
  proof (cases e)
    case (Begin t j)
    with ap Run none show thesis by (simp add: filed_def)
  next
    case (Sched t)
    show thesis
    proof (cases "js t")
      case None
      with ap Run Sched none show thesis by (simp add: filed_def)
    next
      case (Some j)
      obtain p s where st: "store_section j fs = Some (p, s)" using ap Sched Some by (auto split: option.splits)
      with ap Sched Some call [OF Run [unfolded Sched] Some] show thesis by (cases p) auto
    qed
  qed
qed

text \<open>Rounds that are filed stay.\<close>

lemma archive_step_vault:
  assumes "store_threads.pool_inv (fs, js)" and "archive_step (fs, js) ev (fs', js')"
  shows "(filed ev (fs, js) = Quiet \<and> vault fs' = vault fs) \<or>
    (\<exists>m b. filed ev (fs, js) = File m b \<and> vault fs (mf_RoundID m) = None \<and> vault fs' = (vault fs)(mf_RoundID m \<mapsto> (m, b)))"
  using assms(2)
proof (cases rule: archive_step_cases)
  case (call t j p)
  have inv: "store_inv fs" "store_local fs j" using assms(1) call(2) by (auto simp: store_threads.pool_inv_def)
  have filed: "filed ev (fs, js) = (case (p, to_file j) of (Ret (Saved None m), Some (mf, b)) \<Rightarrow> File mf b | _ \<Rightarrow> Quiet)"
    using call by (simp add: filed_def)
  from section_files [OF inv call(3)] show ?thesis
    by (auto simp: filed split: progress.split store_answer.split option.split)
qed simp

lemma answered_files:
  assumes inv: "store_threads.pool_inv (fs, js)"
    and ap: "pool_apply store_section (Sched t) (fs, js) = Some (Some (Saved None (Some mf)), c)"
  shows "\<exists>b. vault fs (mf_RoundID mf) = None \<and> vault (fst c) (mf_RoundID mf) = Some (mf, b) \<and> store_threads.pool_inv c"
proof -
  obtain j where j: "js t = Some j" "store_section j fs = Some (Ret (Saved None (Some mf)), fst c)"
    using ap by (auto split: option.splits progress.splits)
  have "store_inv fs" "store_local fs j" using inv j(1) by (auto simp: store_threads.pool_inv_def)
  from section_files [OF this j(2)] have "\<exists>b. vault fs (mf_RoundID mf) = None \<and> vault (fst c) (mf_RoundID mf) = Some (mf, b)"
    by auto
  moreover have "store_threads.pool_inv c" using store_threads.pool_inv_apply [OF inv _ ap] by simp
  ultimately show ?thesis by blast
qed

lemma vault_grows:
  assumes "reach (\<lambda>x. x = c) archive_step c'" and "store_threads.pool_inv c" and "vault (fst c) rid = Some x"
  shows "store_threads.pool_inv c' \<and> vault (fst c') rid = Some x"
  using assms(1)
proof (induction rule: reach.induct)
  case (reach_init c')
  with assms show ?case by simp
next
  case (reach_step c1 ev c2)
  then have "store_threads.pool_inv c2" using archive.inv_step by blast
  with reach_step archive_step_vault [of "fst c1" "snd c1" ev "fst c2" "snd c2"] show ?case by auto
qed

text \<open>What the readers see.\<close>

lemma Load_vault:
  assumes "store_inv fs"
  shows "Load parse no_read_fault rid fs =
    (case vault fs rid of
       Some (m, b) \<Rightarrow> Inr (m, roundDir rid @ ''/replay.bin'')
     | None \<Rightarrow> Inl (Wrapf ''round_id'' (Sentinel (ReplayErr ErrRoundMissing))))"
proof (cases "vault fs rid")
  case None
  then have "map_of fs (roundDir rid) = None" using vault_None [OF assms] by blast
  with None show ?thesis by (simp add: Load_def)
next
  case (Some x)
  with vault_iff [OF assms, of rid "fst x" "snd x"] Load_stored show ?thesis by (simp split: prod.split)
qed

lemma list_vault:
  assumes "store_inv fs"
  shows "\<exists>ids. ListRounds no_read_fault fs = Inr ids \<and> sorted ids \<and> distinct ids \<and> set ids = dom (vault fs)"
proof -
  have "set (list_entries fs) = dom (vault fs)"
    using list_entries_inv [OF assms] vault_None [OF assms] by (simp add: dom_def)
  with list_entries_inv [OF assms] show ?thesis by (simp add: ListRounds_def)
qed

lemma hash_whole:
  assumes "store_inv fs" and "map_of fs (roundDir rid) = Some (stored m b)"
  shows "hash_replay no_read_fault rid m fs = None"
  using store_inv_round [OF assms] assms(2) by (auto simp: hash_replay_def replay_bin_def stored_def complete_def)

lemma Verify_vault: "store_inv fs \<Longrightarrow> vault fs rid = Some (m, b) \<Longrightarrow> Verify parse no_read_fault rid fs = None"
  using hash_whole [of fs rid m b] by (simp add: Verify_def Load_vault vault_iff [symmetric])

text \<open>Every call ends after at most twelve sections of its own.\<close>

fun stages_left :: "file_stage \<Rightarrow> nat" where
  "stages_left CreateFile = 4" | "stages_left WriteSome = 3" | "stages_left WriteAll = 2" | "stages_left SyncFile = 1"

fun sections_left :: "store_job \<Rightarrow> nat" where
  "sections_left (SaveCall env m b) = 12"
| "sections_left (MkTemp env mf b) = 11"
| "sections_left (PutReplay st env mf b) = 6 + stages_left st"
| "sections_left (PutManifest st env mf b) = 2 + stages_left st"
| "sections_left (Publish env mf b) = 2"
| "sections_left (Discard env mf b e m) = 1"
| "sections_left (Get env r) = 2"
| "sections_left (Send env r rid m) = 1"
| "sections_left (Audit parse rd rid) = 2"
| "sections_left (Hash rd rid m) = 1"

lemma section_progress: "store_section j fs = Some (Next j', fs') \<Longrightarrow> sections_left j' < sections_left j"
proof (cases j)
  case (PutReplay x env mf b)
  then show "store_section j fs = Some (Next j', fs') \<Longrightarrow> sections_left j' < sections_left j"
    by (cases x) (auto split: option.splits)
next
  case (PutManifest x env mf b)
  then show "store_section j fs = Some (Next j', fs') \<Longrightarrow> sections_left j' < sections_left j"
    by (cases x) (auto split: option.splits)
qed (auto simp: store_section_defs split: store_section_splits)

lemma store_calls_return: "wf (own_steps store_section)"
  by (rule wf_subset [OF wf_measure [of sections_left]]) (auto simp: own_steps_def dest: section_progress)

section \<open>Properties\<close>

text \<open>
  C11: saves are atomic.  Whatever saves, requests, verifications and crashes run together, and
  whatever other programs keep in the same directory, the disk is at all times a vault of rounds
  in which nothing changes but at the one section of a save that answers without an error; that
  section files the round of its caller, with the checksum of its bytes, under an id that was free,
  and the caller gets the manifest that was filed.  A save that answers an error has filed nothing,
  and what a call is to file never changes.
\<close>

theorem saves_are_atomic:
  assumes "reach archive_start archive_step (fs, js)" and "archive_step (fs, js) ev (fs', js')"
  shows "vault_step (vault fs) (filed ev (fs, js)) (vault fs') \<and>
    (\<forall>t j. ev = Run (Sched t) \<and> js t = Some j \<longrightarrow>
       (\<forall>m. store_section j fs = Some (Ret (Saved None m), fs') \<longrightarrow>
          (\<exists>mf b. m = Some mf \<and> to_file j = Some (mf, b) \<and> vault fs' (mf_RoundID mf) = Some (mf, b))) \<and>
       (\<forall>j'. js' t = Some j' \<longrightarrow> to_file j' = to_file j))"
  using assms(2)
proof (cases rule: archive_step_cases)
  case (call t j p)
  note inv = archive_reach_inv [OF assms(1)]
  have filed: "filed ev (fs, js) = (case (p, to_file j) of (Ret (Saved None m), Some (mf, b)) \<Rightarrow> File mf b | _ \<Rightarrow> Quiet)"
    using call by (simp add: filed_def)
  have same: "to_file j' = to_file j" if "js' t = Some j'" for j'
    using that call to_file_next [of j fs j' fs'] by (auto split: progress.splits)
  from section_files [OF inv(1) inv(2) [OF call(2)] call(3)] show ?thesis
  proof (elim disjE exE conjE)
    fix env mf b
    assume "j = Publish env mf b" "p = Ret (Saved None (Some (stamped env b mf)))"
      "vault_step (vault fs) (File (stamped env b mf) b) (vault fs')"
    then show ?thesis using filed same call by auto
  next
    assume q: "vault fs' = vault fs" "\<forall>m. p \<noteq> Ret (Saved None m)"
    then have "filed ev (fs, js) = Quiet"
      by (auto simp: filed split: progress.split store_answer.split option.split)
    then show ?thesis using q same call by auto
  qed
next
  case none
  then show ?thesis by auto
qed

text \<open>
  C13: at every moment the readers of the store see the vault: \<open>List\<close> names exactly the filed
  rounds, in ascending order and once each, \<open>Load\<close> finds exactly those, with the manifest that was
  filed, each passes \<open>Verify\<close>, and so does one whose verification other calls have interrupted.
\<close>

theorem reads_see_the_vault:
  assumes "reach archive_start archive_step (fs, js)"
  shows "(\<exists>ids. ListRounds no_read_fault fs = Inr ids \<and> sorted ids \<and> distinct ids \<and> set ids = dom (vault fs)) \<and>
    Load parse no_read_fault rid fs =
      (case vault fs rid of
         Some (m, b) \<Rightarrow> Inr (m, roundDir rid @ ''/replay.bin'')
       | None \<Rightarrow> Inl (Wrapf ''round_id'' (Sentinel (ReplayErr ErrRoundMissing)))) \<and>
    (vault fs rid \<noteq> None \<longrightarrow> Verify parse no_read_fault rid fs = None) \<and>
    (js t = Some (Hash no_read_fault rid m) \<longrightarrow>
       store_section (Hash no_read_fault rid m) fs = Some (Ret (Verified None), fs))"
proof (intro conjI impI)
  note inv = archive_reach_inv [OF assms]
  show "\<exists>ids. ListRounds no_read_fault fs = Inr ids \<and> sorted ids \<and> distinct ids \<and> set ids = dom (vault fs)"
    by (rule list_vault [OF inv(1)])
  show "Load parse no_read_fault rid fs =
      (case vault fs rid of
         Some (m, b) \<Rightarrow> Inr (m, roundDir rid @ ''/replay.bin'')
       | None \<Rightarrow> Inl (Wrapf ''round_id'' (Sentinel (ReplayErr ErrRoundMissing))))"
    by (rule Load_vault [OF inv(1)])
  show "Verify parse no_read_fault rid fs = None" if "vault fs rid \<noteq> None"
    using that Verify_vault [OF inv(1)] by auto
  show "store_section (Hash no_read_fault rid m) fs = Some (Ret (Verified None), fs)"
    if "js t = Some (Hash no_read_fault rid m)"
    using inv(2) [OF that] hash_whole [OF inv(1)] by auto
qed

text \<open>
  C23: what is saved is saved for good.  Once a save has answered without an error, its round is
  found, with the manifest the caller got back, and verifies after anything that happens later,
  crashes of every process included, and no other save of that id ever answers without an error.
\<close>

theorem saved_for_good:
  assumes "reach archive_start archive_step (fs, js)"
    and "pool_apply store_section (Sched t) (fs, js) = Some (Some (Saved None (Some mf)), c1)"
    and "reach (\<lambda>x. x = c1) archive_step (fs2, js2)"
  shows "Load parse no_read_fault (mf_RoundID mf) fs2 = Inr (mf, roundDir (mf_RoundID mf) @ ''/replay.bin'') \<and>
    Verify parse no_read_fault (mf_RoundID mf) fs2 = None \<and>
    (\<forall>u mf' c3. pool_apply store_section (Sched u) (fs2, js2) = Some (Some (Saved None (Some mf')), c3) \<longrightarrow>
       mf_RoundID mf' \<noteq> mf_RoundID mf)"
proof (intro conjI allI impI)
  obtain b where b: "vault (fst c1) (mf_RoundID mf) = Some (mf, b)" "store_threads.pool_inv c1"
    using answered_files [OF archive.reach_inv [OF assms(1)] assms(2)] by blast
  note later = vault_grows [OF assms(3) b(2,1)]
  then have inv: "store_inv fs2" by (simp add: store_threads.pool_inv_def)
  show "Load parse no_read_fault (mf_RoundID mf) fs2 = Inr (mf, roundDir (mf_RoundID mf) @ ''/replay.bin'')"
    using later Load_vault [OF inv] by simp
  show "Verify parse no_read_fault (mf_RoundID mf) fs2 = None" using later Verify_vault [OF inv] by simp
  fix u mf' c3
  assume "pool_apply store_section (Sched u) (fs2, js2) = Some (Some (Saved None (Some mf')), c3)"
  with answered_files [of fs2 js2 u mf' c3] later show "mf_RoundID mf' \<noteq> mf_RoundID mf" by auto
qed

text \<open>
  C35: the archive serves the vault while it is being filled.  At every moment the list names each
  filed round once, as decimal text; the manifest of a filed round is served under that text, its
  replay with the bytes whose SHA-256 is the ETag and the manifest's checksum, and any other id is
  a 404; and a request for a replay that other calls interrupt between the manifest and the file
  still sends the bytes of that manifest.
\<close>

theorem archive_serves_during_saves:
  assumes "reach archive_start archive_step (fs, js)" and "plain_read env"
  shows "(\<exists>ids. set ids = dom (vault fs) \<and> listRounds env fs = writeJSON 200 (RoundIdsDoc (map format_uint ids)) \<and>
      distinct (map format_uint ids)) \<and>
    (\<forall>rid m b. vault fs rid = Some (m, b) \<longrightarrow>
       getManifest env (format_uint rid) fs = writeJSON 200 (ManifestDoc m) \<and>
       getReplay env (format_uint rid) r fs = send_replay env r rid m fs) \<and>
    (\<forall>rid. vault fs rid = None \<longrightarrow> client_status (getManifest env (format_uint rid) fs) = 404) \<and>
    (\<forall>rid m. (\<exists>t. js t = Some (Send env r rid m)) \<or> (\<exists>b. vault fs rid = Some (m, b)) \<longrightarrow>
       (\<exists>hs t b. send_replay env r rid m fs = hs @ ar_serve env r t b \<and> vault fs rid = Some (m, b) \<and>
          mf_ReplaySHA256Hex m = hex_encode (sha256 b) \<and>
          SetHeader ''ETag'' (CHR 0x22 # hex_encode (sha256 b) @ [CHR 0x22]) \<in> set hs \<and>
          SetHeader ''Content-Length'' (format_nat (length b)) \<in> set hs))"
proof (intro conjI allI impI)
  note inv = archive_reach_inv [OF assms(1)]
  have rd: "ar_read env = no_read_fault" using assms(2) by (simp add: plain_read_def)
  obtain ids where ids: "ListRounds no_read_fault fs = Inr ids" "distinct ids" "set ids = dom (vault fs)"
    using list_vault [OF inv(1)] by blast
  then show "\<exists>ids. set ids = dom (vault fs) \<and> listRounds env fs = writeJSON 200 (RoundIdsDoc (map format_uint ids)) \<and>
      distinct (map format_uint ids)"
    by (intro exI [of _ ids]) (simp add: listRounds_def rd distinct_map inj_on_def)
  show "getManifest env (format_uint rid) fs = writeJSON 200 (ManifestDoc m)"
    and "getReplay env (format_uint rid) r fs = send_replay env r rid m fs" if "vault fs rid = Some (m, b)" for rid m b
    using that by (simp_all add: getManifest_def getReplay_def rd Load_vault [OF inv(1)])
  show "client_status (getManifest env (format_uint rid) fs) = 404" if "vault fs rid = None" for rid
    using that vault_None [OF inv(1)] rd by (intro getManifest_missing) auto
  show "\<exists>hs t b. send_replay env r rid m fs = hs @ ar_serve env r t b \<and> vault fs rid = Some (m, b) \<and>
          mf_ReplaySHA256Hex m = hex_encode (sha256 b) \<and>
          SetHeader ''ETag'' (CHR 0x22 # hex_encode (sha256 b) @ [CHR 0x22]) \<in> set hs \<and>
          SetHeader ''Content-Length'' (format_nat (length b)) \<in> set hs"
    if who: "(\<exists>t. js t = Some (Send env r rid m)) \<or> (\<exists>b. vault fs rid = Some (m, b))" for rid m
  proof -
    obtain b where b: "map_of fs (roundDir rid) = Some (stored m b)"
      using who inv(2) [of _ "Send env r rid m"] vault_iff [OF inv(1), of rid m] by (metis store_local.simps(6))
    obtain t where t: "ar_stat env = Inr t" using assms(2) by (auto simp: plain_read_def)
    have sha: "mf_ReplaySHA256Hex m = hex_encode (sha256 b)"
      using store_inv_round [OF inv(1) b] by (auto simp: complete_def stored_def)
    have "send_replay env r rid m fs =
        [SetHeader ''Content-Type'' ''application/octet-stream'', SetHeader ''Content-Length'' (format_nat (length b)),
         SetHeader ''ETag'' (CHR 0x22 # hex_encode (sha256 b) @ [CHR 0x22]),
         SetHeader ''Cache-Control'' ''public, max-age=31536000, immutable''] @ ar_serve env r t b"
      using b t rd sha by (simp add: send_replay_def os_open_replay_def replay_bin_def stored_def)
    then show ?thesis using sha b vault_iff [OF inv(1)]
      by (intro exI [of _ "[SetHeader ''Content-Type'' ''application/octet-stream'', SetHeader ''Content-Length'' (format_nat (length b)),
         SetHeader ''ETag'' (CHR 0x22 # hex_encode (sha256 b) @ [CHR 0x22]),
         SetHeader ''Cache-Control'' ''public, max-age=31536000, immutable'']"] exI [of _ t] exI [of _ b]) simp
  qed
qed

section \<open>A save and a crash\<close>

text \<open>A schedule of calls alone is one of the runs of the archive.\<close>

lemma reach_calls:
  assumes "reach (\<lambda>x. x = c) (pool_step store_section (\<lambda>_. store_entry)) c'" and "reach archive_start archive_step c"
  shows "reach archive_start archive_step c'"
  using assms(1)
proof (induction rule: reach.induct)
  case (reach_init c')
  with assms(2) show ?case by simp
next
  case (reach_step c1 ev c2)
  then show ?case by (intro reach.reach_step [OF reach_step.IH, where e = "Run ev"]) simp
qed

abbreviation demo_filed :: manifest where
  "demo_filed \<equiv> stamped demo_env [1, 2, 3] demo_manifest"

lemma demo_filing:
  "\<exists>c c1. reach archive_start archive_step c \<and>
     pool_apply store_section (Sched 0) c = Some (Some (Saved None (Some demo_filed)), c1)"
proof -
  let ?j = "SaveCall demo_env (Some demo_manifest) [1, 2, 3]" and ?idle = "\<lambda>_ :: nat. None :: store_job option"
  have "fst (snd demo_save) = Some demo_filed"
    using Save_run [of demo_env demo_manifest "[1, 2, 3]" "[]"] demo_save_eq
    by (auto simp: saved_run_def split: prod.splits option.splits)
  then have "solo store_section ?j [] = Some (Saved None (Some demo_filed), demo_disk)"
    using demo_save_eq by (cases demo_save) (auto simp: solo_save_call demo_disk_def)
  from solo_runs [OF this, of 0 ?idle] obtain n c where
    c: "pool_run store_section (replicate n (Sched 0)) ([], ?idle(0 \<mapsto> ?j)) = Some ([], c)"
      "pool_apply store_section (Sched 0) c = Some (Some (Saved None (Some demo_filed)), demo_disk, ?idle)"
    by auto
  have "reach archive_start archive_step ([], ?idle)" by (rule reach_init) (simp add: archive_start_def)
  then have begun: "reach archive_start archive_step ([], ?idle(0 \<mapsto> ?j))"
    by (rule reach_step [where e = "Run (Begin 0 ?j)"]) (simp add: pool_step_def)
  have "reach (\<lambda>x. x = ([], ?idle(0 \<mapsto> ?j))) (pool_step store_section (\<lambda>_. store_entry)) c"
    by (rule pool_run_reach [OF reach_init c(1)]) simp_all
  from reach_calls [OF this begun] c(2) show ?thesis by blast
qed

theorem saves_are_atomic_witness:
  "\<exists>c c1. pool_apply store_section (Sched 0) c = Some (Some (Saved None (Some demo_filed)), c1) \<and>
     (\<exists>b. vault (fst c1) 7 = Some (demo_filed, b))"
proof -
  obtain fs js fs1 js1 where c: "reach archive_start archive_step (fs, js)"
      "pool_apply store_section (Sched 0) (fs, js) = Some (Some (Saved None (Some demo_filed)), fs1, js1)"
    using demo_filing by fastforce
  then obtain j where j: "js 0 = Some j" "store_section j fs = Some (Ret (Saved None (Some demo_filed)), fs1)"
    by (auto split: option.splits progress.splits)
  have "archive_step (fs, js) (Run (Sched 0)) (fs1, js1)" using c(2) by (simp add: pool_step_def)
  from saves_are_atomic [OF c(1) this] j have "\<exists>b. vault fs1 (mf_RoundID demo_filed) = Some (demo_filed, b)" by blast
  then show ?thesis using c(2) by (fastforce simp: demo_manifest_def)
qed

text \<open>After the save every process dies.\<close>

lemma demo_crashed:
  "\<exists>c c1. reach archive_start archive_step c \<and>
     pool_apply store_section (Sched 0) c = Some (Some (Saved None (Some demo_filed)), c1) \<and>
     reach (\<lambda>x. x = c1) archive_step (fst c1, \<lambda>_. None) \<and> reach archive_start archive_step (fst c1, \<lambda>_. None) \<and>
     (\<exists>b. vault (fst c1) 7 = Some (demo_filed, b))"
proof -
  obtain c c1 where c: "reach archive_start archive_step c"
      "pool_apply store_section (Sched 0) c = Some (Some (Saved None (Some demo_filed)), c1)"
    using demo_filing by blast
  have c1: "reach archive_start archive_step c1"
    by (rule reach_step [OF c(1), where e = "Run (Sched 0)"]) (use c(2) in \<open>simp add: pool_step_def\<close>)
  have die: "archive_step c1 (Crash UNIV) (fst c1, \<lambda>_. None)" by simp
  have dead: "reach (\<lambda>x. x = c1) archive_step (fst c1, \<lambda>_. None)"
    by (rule reach_step [where s = c1 and e = "Crash UNIV"]) (simp_all add: reach_init)
  have "\<exists>b. vault (fst c1) (mf_RoundID demo_filed) = Some (demo_filed, b)"
    using answered_files [of "fst c" "snd c" 0 demo_filed c1] archive.reach_inv [OF c(1)] c(2) by auto
  then show ?thesis
    using c dead reach_step [where stp = archive_step and e = "Crash UNIV", OF c1 die]
    by (intro exI [of _ c] exI [of _ c1]) (simp add: demo_manifest_def)
qed

theorem reads_see_the_vault_witness:
  "\<exists>fs ids. ListRounds no_read_fault fs = Inr ids \<and> 7 \<in> set ids \<and>
     Verify (\<lambda>_. Inl (Errorf ''bad'')) no_read_fault 7 fs = None"
proof -
  obtain fs b where fs: "reach archive_start archive_step (fs, \<lambda>_. None)" "vault fs 7 = Some (demo_filed, b)"
    using demo_crashed by blast
  then have "7 \<in> dom (vault fs)" by auto
  with reads_see_the_vault [OF fs(1), where parse = "\<lambda>_. Inl (Errorf ''bad'')" and rid = 7] show ?thesis by blast
qed

theorem saved_for_good_witness:
  "\<exists>fs. Load (\<lambda>_. Inl (Errorf ''bad'')) no_read_fault 7 fs = Inr (demo_filed, roundDir 7 @ ''/replay.bin'')"
proof -
  obtain fs js c1 where c: "reach archive_start archive_step (fs, js)"
      "pool_apply store_section (Sched 0) (fs, js) = Some (Some (Saved None (Some demo_filed)), c1)"
      "reach (\<lambda>x. x = c1) archive_step (fst c1, \<lambda>_. None)"
    using demo_crashed by fastforce
  from saved_for_good [OF c] show ?thesis by (auto simp: demo_manifest_def)
qed

theorem archive_serves_during_saves_witness:
  "\<exists>fs. getManifest demo_archive (format_uint 7) fs = writeJSON 200 (ManifestDoc demo_filed) \<and>
     (vault fs 8 = None \<longrightarrow> client_status (getManifest demo_archive (format_uint 8) fs) = 404)"
proof -
  obtain fs b where fs: "reach archive_start archive_step (fs, \<lambda>_. None)" "vault fs 7 = Some (demo_filed, b)"
    using demo_crashed by blast
  have "plain_read demo_archive" by (simp add: plain_read_def demo_archive_def)
  from archive_serves_during_saves [OF fs(1) this, of demo_get] fs(2) show ?thesis by blast
qed

end
