(* ===== verification/Rgs_Conc.thy ===== *)
theory Rgs_Conc
  imports Rgs_Api Manager_Frozen
begin

text \<open>
  The HTTP surface with requests in flight at the same time (server/rgs/api.go).  net/http runs each
  handler in a goroutine of its own, and \<open>runRound\<close> starts one more.  A handler is a job: routing and
  decoding, the sections of its manager call, and then the sections that read what it shows.  Looked at through
  its manager calls, a pool of such jobs is a pool of the calls of Manager_Conc, so what is proved of
  those under every interleaving holds behind HTTP; a request alone is the handler of Rgs_Api.
\<close>

section \<open>Handlers as jobs\<close>

text \<open>What a handler does with the answer of its manager call.\<close>

datatype follow = AfterOpen | AfterBet string | AfterClose string | AfterRun | AfterMint | AfterRoundBet | AfterBack

type_synonym snapshot = "session_state \<times> bet option \<times> settlement_outcome option"

datatype api_job =
    ApiCall api_env http_request
  | ApiMgr follow job
  | ApiFind string "rgs_doc wop list"
  | ApiSnap nat int
  | ApiStamp nat int snapshot
  | ApiShow nat int snapshot gtime
  | ApiBack run_env

datatype api_answer = Response "rgs_doc wop list" | BackDone

type_synonym 'w api_progress = "(api_job, api_answer) progress \<times> 'w api_state"

definition run_doc :: "manifest \<Rightarrow> settlement_outcome list \<Rightarrow> round_bet_outcome list \<Rightarrow> rgs_doc" where
  "run_doc mf outs rbs = RunDoc \<lparr>ru_RoundID = mf_RoundID mf, ru_TrackID = mf_TrackID mf,
     ru_WinnerMarble = mw_MarbleIndex (mf_Winner mf), ru_WinnerTick = mw_FinishTick (mf_Winner mf),
     ru_Outcomes = outcomesToResponse outs, ru_RoundBetOutcomes = rbs\<rparr>"

definition round_bet_doc :: "round_bet \<Rightarrow> f64 \<Rightarrow> rgs_doc" where
  "round_bet_doc b balAfter = RoundBetDoc \<lparr>pp_BetID = rb_BetID b, pp_RoundID = rb_RoundID b,
     pp_MarbleIdx = rb_MarbleIdx b, pp_Amount = rb_Amount b, pp_BalanceAfter = balAfter,
     pp_ExpectedPayoutIfWin = f64_mult (rb_Amount b) PayoutMultiplier\<rparr>"

text \<open>The handler up to its manager call; those without one answer here.\<close>

definition api_enter :: "'w mgr_config \<Rightarrow> api_env \<Rightarrow> http_request \<Rightarrow> 'w api_state \<Rightarrow> 'w api_progress" where
  "api_enter cfg env r st =
     (case find_route (rq_method r) (rq_path r) of
        None \<Rightarrow> (Ret (Response (ae_mux env r)), st)
      | Some (OpenSessionRoute, v) \<Rightarrow>
          (case decode_open env r of
             Inl e \<Rightarrow> (Ret (Response (writeError 400 e)), st)
           | Inr playerID \<Rightarrow> (Next (ApiMgr AfterOpen (JOpen (ae_rnd env) (ae_now env) playerID)), st))
      | Some (PlaceBetRoute, v) \<Rightarrow>
          (case decode_bet env r of
             Inl e \<Rightarrow> (Ret (Response (writeError 400 e)), st)
           | Inr amount \<Rightarrow> (Next (ApiMgr (AfterBet v) (JBet (ae_rnd env) (ae_placed env) (ae_now env) v amount)), st))
      | Some (CloseSessionRoute, v) \<Rightarrow> (Next (ApiMgr (AfterClose v) (JClose (ae_now env) v)), st)
      | Some (GetSessionRoute, v) \<Rightarrow> (Next (ApiFind v (writeError 404 (Errorf ''unknown session''))), st)
      | Some (RunRoundRoute, v) \<Rightarrow>
          (let wait = rq_query r ''wait'' in
           if wait = ''true'' \<or> wait = ''1'' then (Next (ApiMgr AfterRun (JRun (ae_run env))), st)
           else (Ret (Response (writeJSON 202 (StatusDoc ''round_started''))), st\<lparr>as_spawned := Suc (as_spawned st)\<rparr>))
      | Some (StartRoundRoute, v) \<Rightarrow> (Next (ApiMgr AfterMint (JMint (ae_seed env) (ae_roundID env))), st)
      | Some (PlaceRoundBetRoute, v) \<Rightarrow>
          (case parseRoundID v of
             Inl e \<Rightarrow> (Ret (Response (writeError 400 e)), st)
           | Inr roundID \<Rightarrow>
          (case decode_round_bet env r of
             Inl e \<Rightarrow> (Ret (Response (writeError 400 e)), st)
           | Inr req \<Rightarrow>
               if pq_PlayerID req = [] then (Ret (Response (writeError 400 (Errorf ''player_id is required''))), st)
               else (Next (ApiMgr AfterRoundBet (JRb (ae_rnd env) (ae_now env) roundID (pq_PlayerID req)
                       (pq_MarbleIdx req) (pq_Amount req))), st)))
      | Some (GetRoundBetsRoute, v) \<Rightarrow> (Ret (Response (fst (api_getRoundBets v r st))), st)
      | Some (WalletBalanceRoute, v) \<Rightarrow> (Ret (Response (fst (api_walletBalance cfg v st))), st)
      | Some (HealthRoute, v) \<Rightarrow> (Ret (Response (fst (api_health env st))), st))"

text \<open>The handler from the answer of its manager call on.\<close>

fun api_after :: "follow \<Rightarrow> answer \<Rightarrow> (api_job, api_answer) progress" where
  "api_after AfterOpen (AnsOpen (Inl e)) = Ret (Response (writeError 400 e))"
| "api_after AfterOpen (AnsOpen (Inr p)) = Next (ApiSnap p 201)"
| "api_after (AfterBet sid) (AnsBet (Inl e)) = Ret (Response (writeBetError e))"
| "api_after (AfterBet sid) (AnsBet (Inr b)) =
     Next (ApiFind sid (writeError 404 (Errorf ''session disappeared after bet'')))"
| "api_after (AfterClose sid) (AnsClose (Some e)) = Ret (Response (writeError 400 e))"
| "api_after (AfterClose sid) (AnsClose None) = Next (ApiFind sid (writeJSON 200 EmptyDoc))"
| "api_after AfterRun (AnsRun (Inl e)) = Ret (Response (writeError 500 e))"
| "api_after AfterRun (AnsRun (Inr (mf, outs, rbs))) = Ret (Response (writeJSON 200 (run_doc mf outs rbs)))"
| "api_after AfterMint (AnsMint (Inl e)) = Ret (Response (writeError 500 e))"
| "api_after AfterMint (AnsMint (Inr spec)) = Ret (Response (writeJSON 200 (SpecDoc spec)))"
| "api_after AfterRoundBet (AnsRoundBet (Inl e)) = Ret (Response (writeRoundBetError e))"
| "api_after AfterRoundBet (AnsRoundBet (Inr (b, balAfter))) = Ret (Response (writeJSON 200 (round_bet_doc b balAfter)))"
| "api_after _ _ = Ret BackDone"

text \<open>
  \<open>writeSessionResponse\<close>: the snapshot under the session's mutex, then \<open>UpdatedAt\<close> without it, then
  the balance.
\<close>

definition show_session :: "'w mgr_config \<Rightarrow> 'w mgr \<Rightarrow> session \<Rightarrow> snapshot \<Rightarrow> gtime \<Rightarrow> session_response" where
  "show_session cfg m s snap t =
     (case snap of (state, b, res) \<Rightarrow>
        session_response_of cfg m (s\<lparr>ses_State := state, ses_Bet := b, ses_LastResult := res, ses_UpdatedAt := t\<rparr>))"

fun api_section :: "'w mgr_config \<Rightarrow> api_job \<Rightarrow> 'w api_state \<Rightarrow> 'w api_progress option" where
  "api_section cfg (ApiCall env r) st = Some (api_enter cfg env r st)"
| "api_section cfg (ApiMgr k j) st =
     (case job_step cfg j (as_mgr st) of
        None \<Rightarrow> None
      | Some (Next j', m) \<Rightarrow> Some (Next (ApiMgr k j'), st\<lparr>as_mgr := m\<rparr>)
      | Some (Ret a, m) \<Rightarrow> Some (api_after k a, st\<lparr>as_mgr := m\<rparr>))"
| "api_section cfg (ApiFind sid missing) st =
     Some (case lookup_session sid (as_mgr st) of
             None \<Rightarrow> Ret (Response missing)
           | Some p \<Rightarrow> Next (ApiSnap p 200), st)"
| "api_section cfg (ApiSnap p code) st =
     Some (Next (ApiStamp p code (session_snapshot (mg_heap (as_mgr st) p))), st)"
| "api_section cfg (ApiStamp p code snap) st =
     Some (Next (ApiShow p code snap (ses_UpdatedAt (mg_heap (as_mgr st) p))), st)"
| "api_section cfg (ApiShow p code snap t) st =
     Some (Ret (Response (writeJSON code (SessionDoc (show_session cfg (as_mgr st) (mg_heap (as_mgr st) p) snap t)))), st)"
| "api_section cfg (ApiBack env) st =
     Some (if as_spawned st = 0 then (Ret BackDone, st)
           else (Next (ApiMgr AfterBack (JRun env)), st\<lparr>as_spawned := as_spawned st - 1\<rparr>))"




section \<open>A request alone\<close>

lemma solo_api: "solo (api_section cfg) j st =
   (case api_section cfg j st of
      None \<Rightarrow> None
    | Some (Next j', st') \<Rightarrow> solo (api_section cfg) j' st'
    | Some (Ret a, st') \<Rightarrow> Some (a, st'))"
  by (subst solo.simps) simp

lemma solo_mgr: "solo (api_section cfg) (ApiMgr k j) st =
    (case solo (job_step cfg) j (as_mgr st) of
       None \<Rightarrow> None
     | Some (a, m) \<Rightarrow>
         (case api_after k a of
            Ret b \<Rightarrow> Some (b, st\<lparr>as_mgr := m\<rparr>)
          | Next j' \<Rightarrow> solo (api_section cfg) j' (st\<lparr>as_mgr := m\<rparr>)))"
  by (rule solo_inside [where put = "\<lambda>m st. st\<lparr>as_mgr := m\<rparr>", OF calls_return]) simp_all

lemma solo_show: "solo (api_section cfg) (ApiSnap p code) st =
    Some (Response (writeSessionResponse cfg (as_mgr st) (mg_heap (as_mgr st) p) code), st)"
  by (simp add: solo_api [of cfg "ApiSnap p code"] solo_api [of cfg "ApiStamp p code snap" for snap]
      solo_api [of cfg "ApiShow p code snap t" for snap t] writeSessionResponse_def show_session_def session_snapshot_def)

lemma solo_find: "solo (api_section cfg) (ApiFind sid missing) st =
    Some (Response (case lookup_session sid (as_mgr st) of
        None \<Rightarrow> missing
      | Some p \<Rightarrow> writeSessionResponse cfg (as_mgr st) (mg_heap (as_mgr st) p) 200), st)"
  by (subst solo_api) (simp add: solo_show split: option.split)

lemma solo_request: "solo (api_section cfg) (ApiCall env r) st =
    (case rgs_api cfg env r st of (ops, None, st') \<Rightarrow> Some (Response ops, st') | (ops, Some p, st') \<Rightarrow> None)"
proof (cases "find_route (rq_method r) (rq_path r)")
  case None
  then show ?thesis by (subst solo_api) (simp add: api_enter_def rgs_api_def)
next
  case (Some x)
  obtain rt v where x: "x = (rt, v)" by (cases x)
  note enter = solo_api [of cfg "ApiCall env r" st] api_enter_def rgs_api_def Some x
  show ?thesis
  proof (cases rt)
    case OpenSessionRoute
    then show ?thesis
      by (auto simp: enter api_openSession_def solo_mgr solo_open solo_show split: sum.split prod.split)
  next
    case PlaceBetRoute
    then show ?thesis
      by (auto simp: enter api_placeBet_def solo_mgr solo_bet solo_find split: sum.split prod.split option.split)
  next
    case CloseSessionRoute
    then show ?thesis
      by (auto simp: enter api_closeSession_def solo_mgr solo_close solo_find split: prod.split option.split)
  next
    case GetSessionRoute
    then show ?thesis by (auto simp: enter api_getSession_def solo_find split: option.split)
  next
    case RunRoundRoute
    then show ?thesis
      by (auto simp: enter api_runRound_def solo_mgr solo_run run_doc_def Let_def split: sum.split prod.split option.split)
  next
    case StartRoundRoute
    then show ?thesis
      by (auto simp: enter api_startRound_def solo_mgr solo_mint split: sum.split prod.split option.split)
  next
    case PlaceRoundBetRoute
    then show ?thesis
      by (auto simp: enter api_placeRoundBet_def solo_mgr solo_round_bet round_bet_doc_def split: sum.split prod.split)
  qed (auto simp: enter api_getRoundBets_def api_walletBalance_def api_health_def split: sum.split)
qed

section \<open>The calls behind the requests\<close>


















section \<open>No request panics, every request ends\<close>






section \<open>Properties\<close>



section \<open>Two requests at once\<close>

text \<open>
  Alice opens a session.  A first request reads it, and has taken its snapshot when a second
  one has placed a bet of 100.
\<close>

definition visit_env :: "gtime \<Rightarrow> api_env" where
  "visit_env now = demo_api_env\<lparr>ae_parse := \<lambda>b. Inr (JObj (if b = [1] then [(''amount'', JNum ''100'')]
     else [(''player_id'', JStr ''alice'')])), ae_rnd := [1], ae_now := now\<rparr>"

definition visit :: "gtime \<Rightarrow> string \<Rightarrow> string \<Rightarrow> byte list \<Rightarrow> api_job" where
  "visit now verb path b = ApiCall (visit_env now) ((demo_request b)\<lparr>rq_method := verb, rq_path := path\<rparr>)"

definition visit_start :: "(api_job, mock_wallet api_state) pool" where
  "visit_start = (\<lparr>as_mgr = demo_mgr0, as_spawned = 0\<rparr>, \<lambda>_. None)"

definition visit_schedule :: "api_job pool_event list" where
  "visit_schedule = Begin 0 (visit 5 ''POST'' ''/v1/sessions'' [0]) # [Sched 0, Sched 0, Sched 0, Sched 0, Sched 0] @
     Begin 1 (visit 8 ''GET'' ''/v1/sessions/sess_01'' []) # [Sched 1, Sched 1, Sched 1] @
     Begin 0 (visit 9 ''POST'' ''/v1/sessions/sess_01/bet'' [1]) # [Sched 0, Sched 0, Sched 0, Sched 0]"

definition visit_pool :: "(api_job, mock_wallet api_state) pool" where
  "visit_pool = snd (the (pool_run (api_section demo_cfg) visit_schedule visit_start))"

lemma visit_routes:
  "find_route ''POST'' ''/v1/sessions'' = Some (OpenSessionRoute, [])"
  "find_route ''GET'' ''/v1/sessions/sess_01'' = Some (GetSessionRoute, ''sess_01'')"
  "find_route ''POST'' ''/v1/sessions/sess_01/bet'' = Some (PlaceBetRoute, ''sess_01'')"
  by code_simp+

lemma visit_ids: "newID ''sess_'' [1] = ''sess_01''" "newID ''bet_'' [1] = ''bet_01''"
  by code_simp+

lemma visit_env_simps [simp]: "ae_rnd (visit_env now) = [1]" "ae_placed (visit_env now) = 20" "ae_now (visit_env now) = now"
  "ae_seed (visit_env now) = Inr (replicate 32 3)" "ae_run (visit_env now) = demo_run_env"
  by (simp_all add: visit_env_def demo_api_env_def)

lemma visit_decoded:
  "decode_open (visit_env now) ((demo_request [0])\<lparr>rq_method := verb, rq_path := path\<rparr>) = Inr ''alice''"
  "decode_bet (visit_env now) ((demo_request [1])\<lparr>rq_method := verb, rq_path := path\<rparr>) = Inr 100"
  by (simp_all add: decode_open_def decode_bet_def decodeJSON_def demo_request_def demo_api_env_def visit_env_def
      decode_struct_def find_field_def number_field_def string_field_def equal_fold_def ascii_lower_def parse_uint_def
      is_digit_def digit_val_def Let_def)

text \<open>In a state with both requests in progress, the reader has the old snapshot and the wallet has moved.\<close>

lemmas visit_simps = visit_pool_def visit_schedule_def visit_start_def visit_def visit_routes visit_ids visit_decoded api_enter_def
  demo_mgr0_def demo_cfg_def blank_mgr_def OpenSession_def Let_def bet_lookup_def bet_debit_def bet_place_def
  MockWallet_def mock_debit_def SetBalance_def NewMockWallet_def new_session_def session_place_bet_def
  session_snapshot_def lookup_session_def





text \<open>
  The response of the reader is of no single moment: the session is OPEN and without a bet, as in the
  snapshot, but \<open>UpdatedAt\<close> is the time of the bet and the balance is the one after it.  The code
  reads \<open>UpdatedAt\<close> outside the session's mutex, under which \<open>PlaceBet\<close> writes it.
\<close>

theorem session_response_mixes_moments:
  "\<exists>c. pool_run (api_section demo_cfg) [Sched 1, Sched 1] visit_pool =
     Some ([Response (writeJSON 200 (SessionDoc \<lparr>sn_SessionID = ''sess_01'', sn_PlayerID = ''alice'', sn_State = ''OPEN'',
        sn_Balance = 900, sn_OpenedAt = 5, sn_UpdatedAt = 9, sn_Bet = None, sn_LastResult = None\<rparr>))], c)"
  by (simp add: visit_simps show_session_def session_response_of_def mock_balance_def)

end
