(* ===== verification/Spec2Isabelle.thy ===== *)
theory Spec2Isabelle
  imports Rgsd Daemon_Mains Streamtest Manager_Audit Manager_Ledger Store_Conc Rgs_Conc
begin

text \<open>
  A verification library of the server of the marble race (src/server, Go): sessions and bets,
  provably fair rounds run by a headless Godot simulator, the audit store, the live stream, and
  the daemons that serve them.

  \<^bold>\<open>The program.\<close>  A player opens a session and bets; the operator announces a round, whose seed,
  id and track are fixed from then on, and runs it.  A run takes the queue of bets and the oldest
  announced round, fills the field, starts the simulator on the round's seed, closes the round,
  settles sessions and round bets against the operator's wallet, and saves manifest and replay.
  While the simulator runs it streams the ticks to the archive daemon, which fans them out to
  WebSocket clients and later serves the stored rounds.

  \<^bold>\<open>Theories and code.\<close>
  \<^item> Prelude: machine integers, Go errors with their sentinels and \<open>errors.Is\<close>, clock values,
    reachability, and the locale \<open>invariant_system\<close> that lifts a step-preserved invariant.
  \<^item> Go_Bytes, Sha256, Float64, Http: the parts of Go's library that the code calls: hexadecimal
    and decimal text, SHA-256 and HMAC as executable programs on 32-bit words, binary64
    arithmetic with its rounding, handlers as functions that return the calls made on the
    response writer, paths.
  \<^item> Rtp (rtp/rtp.go), Wallet (rgs/wallet.go), Session (rgs/session.go), Round (round/round.go),
    Track_Select (both copies of \<open>selectTrack\<close>), Sim (sim/invoker.go), Replay_Store
    (replay/store.go): one component each, with the names of the code.
  \<^item> Store_Conc: the store and its archive under concurrent use, one section per system call of
    \<open>Save\<close>, with processes that die at any point and other programs that use the same directory.
  \<^item> Manager (rgs/manager.go without the run), Manager_Run (\<open>RunNextRound\<close>, one definition per
    numbered step of the code), Manager_Steps (what its loops compute), Manager_Spec (calls as
    events and the invariant), Manager_Props (panics, failed runs), Manager_Round (the run that
    goes through), Manager_Money (what calls do to balances).
  \<^item> Threads: any number of threads on one shared state, each a sequence of sections, and a
    rely/guarantee contract between them (locale \<open>thread_contract\<close>).  Manager_Conc takes the methods of
    the manager apart into such sections, Manager_Threads discharges the contract for them,
    Manager_Flight follows one run among other calls, Manager_Frozen the rounds it has taken,
    Manager_Audit the manager from its store to the archive, Manager_Ledger the money.
  \<^item> Stream_Codec, Stream_Hub, Stream_Ingest, Stream_Ws (package stream): wire format, one live round
    with its subscribers' channels, the hub and one simulator connection, one WebSocket client.
    Stream_Threads takes the connection handler and the client's handler apart into sections that run
    as threads on one hub, Stream_Service follows that service from its start, Stream_Listener adds the
    listener (ingest.go: accept loop, wait group, \<open>Close\<close>).
  \<^item> Middleware (middleware/middleware.go), Rgs_Api (rgs/api.go), Archive_Api (api/http.go),
    Metrics (metrics/metrics.go): the HTTP side.  Rgs_Conc takes the handlers of rgs/api.go apart into
    sections, with the manager calls in them section by section: requests in flight at the same
    time, as net/http runs them.
  \<^item> Rgsd, Roundd, Replayd (cmd/rgsd, cmd/roundd, cmd/replayd): the daemons, which put the above
    together; Daemon_Mains holds the \<open>main\<close> functions of roundd and replayd with flags, start-up and the
    shutdown of the ingress, Streamtest the client of cmd/streamtest.

  \<^bold>\<open>How code becomes definitions.\<close>  Structs are records and keep the field names behind a prefix.
  Errors are values of \<open>gerr\<close>, of which sentinels and wrapping are kept and message texts only in
  their constant part; a panic is \<open>None\<close> or, in a handler, a value returned beside the response.
  Integers are words where the code's arithmetic can wrap around.  Pointers to sessions, rounds
  and subscribers are numbers into a heap, since the code shares them.  A mutex makes the section
  it guards one step; where a lock is released between two sections of one call the sections are
  separate steps (\<open>job_step\<close> for the manager, \<open>stream_step\<close> for the hub and its clients,
  \<open>api_section\<close> for the HTTP handlers, \<open>store_section\<close> for the store, which has no mutex and relies on the file system), and in the sequential account of
  \<open>PlaceBetOnRound\<close> the state that others may leave in between is an argument (\<open>mid\<close>).  A file system operation that can fail
  asks a fault oracle, a read of a connection whose peer sends nothing more blocks or ends as the peer
  and the deadline say, and \<open>Save\<close> returns every disk it passes through, so that a crash is a choice of
  one of them.  Clock readings, random bytes, the simulator and the wallet are arguments.

  \<^bold>\<open>Interfaces.\<close>  \<open>wallet_contract\<close> says what a wallet promises; the mock wallet interprets it, and
  \<open>counting_wallet\<close> interprets it on top of any wallet that does.  \<open>invariant_system\<close> is interpreted by
  every state machine: sessions, rounds, wallet, live round, hub, store, manager, HTTP surface,
  WebSocket client, listener.  \<open>thread_contract\<close>, which gives an \<open>invariant_system\<close> over pools of
  threads, has three providers: the manager's calls, the handlers of the stream service, and the
  calls on the store.  In each, a section keeps the global invariant, gives up or takes only
  resources (sessions and announced rounds; live rounds and subscriptions; temporary directories)
  that it owns or that are free, and keeps what the other threads rely on.

  \<^bold>\<open>What is shown.\<close>  Prizes: the settlement on wrapping words is the one on natural numbers, with each
  error in exactly its case.  Fairness: the published hash is that of the seed revealed at the end
  and never earlier; a run publishes the round that was announced.  Money: a bet takes the stake
  exactly when it is accepted, a run pays exactly the winning session, a run that fails before the race
  is over strands the bets it took, and under any interleaving what was taken from a player is the sum
  of four parts: the open bets, what calls in progress hold, what settled bets have earned the operator,
  and what was forfeited by runs that failed or refunds that were refused.  Concurrency: the sections of a call run alone are the call; under any
  interleaving no call panics or waits for ever, every bet has one owner, a run publishes, credits and
  settles what it does when nothing interrupts it, a late bet lands on a running round exactly when
  another waiting round has the same id (and is refunded otherwise), and what a run reports is what the
  archive serves from then on.  Storage: under any interleaving of saves, reads, faults and crashes the
  disk is a vault that changes only at the rename of a save that succeeds; every visible round is
  complete and verifies, none is lost or saved twice, and the archive serves exactly those.  Streaming: whatever connections and clients run together, every
  client has received a prefix of what the simulator sent of its round, a round is listed exactly
  while its connection is open, a finalized round lets its clients drain their channels and leave,
  nothing panics, and when \<open>Close\<close> of the listener has returned no race is left; it can return once every
  peer ends, and never while a silent one holds a handler.  HTTP: requests that run at the same
  time are an interleaving of manager calls, each is answered after finitely many sections of its own,
  and one alone is answered as the handler read in one go (\<open>solo_request\<close>); status codes by case, the signature check accepts exactly signed requests with a time stamp in the
  skew (or centuries ahead, where the code's subtraction saturates), no panic leaves the chain.  Loops terminate by structural recursion or a measure; no definition uses fuel.

  \<^bold>\<open>Parameters.\<close>  The JSON scanner and encoder, \<open>strconv.ParseFloat\<close>, \<open>%g\<close>, \<open>http.ServeContent\<close>,
  \<open>http.FileServer\<close>, the answers of a mux to a path without route, the WebSocket package, and the
  result of an out-of-range conversion from \<open>float64\<close> to \<open>uint64\<close> (\<open>cfg_oor\<close>).  Case folding is that of
  ASCII; request paths are taken as decoded, so an escaped slash inside a segment counts as a slash.

  \<^bold>\<open>Not modelled.\<close>  Logger set-up, usage texts and what is printed; the server loop of
  \<open>net/http\<close>, which calls the handlers modelled here, and what its \<open>Shutdown\<close> does to requests in
  progress; socket addresses and deadlines of the operating
  system beyond the errors they make a read or write return; and what a power failure may undo of a
  rename whose directory was not synced (a crash is the end of a process at any system call).  The game directory is GDScript run by an
  engine that is not in the repository; the server sees it through the files that \<open>sim.Run\<close> reads
  and the bytes it streams.
\<close>

end
